(* ===== verification/Prelude.thy ===== *)
theory Prelude
  imports Main "HOL-Library.Word"
begin

text \<open>
  Shared vocabulary of the development: the Rust integer types as words, byte slices, the
  result type of fallible and panicking code, big-endian byte order, and the small pieces of
  the Rust standard library (indexing, slicing, \<open>Option::ok_or\<close>, \<open>Result::map_err\<close>, the
  collecting iterator, decimal and hexadecimal formatting) that the verifier crates use.
  The generic lemmas are collected in \<open>result_simps\<close> (how a chain of \<open>?\<close> operators
  succeeds or fails), \<open>slice_simps\<close> (when a slice is in range and what it holds) and
  \<open>byte_simps\<close> (big-endian round trips).
\<close>

unbundle bit_operations_syntax

named_theorems result_simps
named_theorems slice_simps
named_theorems byte_simps

section \<open>Types\<close>

type_synonym u8 = "8 word"
type_synonym u16 = "16 word"
type_synonym u32 = "32 word"
type_synonym u64 = "64 word"
type_synonym i32 = "32 word"
type_synonym bytes = "8 word list"

text \<open>A Rust \<open>String\<close> is its UTF-8 bytes; HOL characters are bytes, so it is a \<open>string\<close>.\<close>

definition as_bytes :: "string \<Rightarrow> bytes" where
  "as_bytes s = map of_char s"

definition str_of_bytes :: "bytes \<Rightarrow> string" where
  "str_of_bytes bs = map (\<lambda>b. char_of (unat b)) bs"

lemma unat_u8_less: "unat (b :: u8) < 256"
proof -
  have "unat b < 2 ^ LENGTH(8)" by (rule unsigned_less)
  then show ?thesis by simp
qed

lemma unat_inject: "unat a = unat b \<Longrightarrow> a = b"
  by (simp add: word_unat_eq_iff)

lemma of_char_nat_less: "(of_char c :: nat) < 256"
proof -
  have "(of_char c :: nat) = of_char c mod 256"
    by (metis char_of_char of_char_of)
  then show ?thesis by (metis mod_less_divisor zero_less_numeral)
qed

lemma of_char_u8: "unat (of_char c :: u8) = of_char c"
proof -
  have "(of_char c :: u8) = word_of_nat (of_char c)"
    by (rule of_nat_of_char [symmetric])
  then show ?thesis
    using of_char_nat_less [of c] by (simp add: unat_of_nat del: of_nat_of_char)
qed

lemma str_of_bytes_as_bytes [simp]: "str_of_bytes (as_bytes s) = s"
  by (induction s) (simp_all add: str_of_bytes_def as_bytes_def of_char_u8)

lemma of_char_char_of_unat: "(of_char (char_of (unat b) :: char) :: u8) = b"
proof (rule unat_inject)
  have "unat b < 256" by (rule unat_u8_less)
  then show "unat (of_char (char_of (unat b) :: char) :: u8) = unat b"
    by (simp add: of_char_u8)
qed

lemma as_bytes_str_of_bytes [simp]: "as_bytes (str_of_bytes bs) = bs"
  by (induction bs) (simp_all add: str_of_bytes_def as_bytes_def of_char_char_of_unat)

lemma as_bytes_eq_iff [simp]: "as_bytes s = as_bytes t \<longleftrightarrow> s = t"
  by (metis str_of_bytes_as_bytes)

lemma length_as_bytes [simp]: "length (as_bytes s) = length s"
  by (simp add: as_bytes_def)

section \<open>Results\<close>

text \<open>
  \<open>Ok\<close> and \<open>Err\<close> are Rust's \<open>Result\<close>; \<open>Panic\<close> is the third way a Rust call can end
  (an index or slice out of range, an \<open>expect\<close> on an error).
\<close>

datatype ('a, 'e) result = Ok 'a | Err 'e | Panic

fun is_ok :: "('a, 'e) result \<Rightarrow> bool" where
  "is_ok (Ok x) = True"
| "is_ok r = False"

text \<open>The \<open>?\<close> operator: go on with the value, or return the error at once.\<close>

fun and_then :: "('a, 'e) result \<Rightarrow> ('a \<Rightarrow> ('b, 'e) result) \<Rightarrow> ('b, 'e) result" where
  "and_then (Ok x) f = f x"
| "and_then (Err e) f = Err e"
| "and_then Panic f = Panic"

text \<open>\<open>map_err\<close> on the outcome of a library call, which is a plain sum.\<close>

fun map_err :: "('x \<Rightarrow> 'e) \<Rightarrow> 'x + 'a \<Rightarrow> ('a, 'e) result" where
  "map_err f (Inl x) = Err (f x)"
| "map_err f (Inr v) = Ok v"

fun map_error :: "('d \<Rightarrow> 'e) \<Rightarrow> ('a, 'd) result \<Rightarrow> ('a, 'e) result" where
  "map_error f (Ok v) = Ok v"
| "map_error f (Err d) = Err (f d)"
| "map_error f Panic = Panic"

fun ok_or :: "'e \<Rightarrow> 'a option \<Rightarrow> ('a, 'e) result" where
  "ok_or e None = Err e"
| "ok_or e (Some x) = Ok x"

text \<open>\<open>Option::expect\<close>: the absent value is a panic.\<close>

fun expect :: "'a option \<Rightarrow> ('a, 'e) result" where
  "expect None = Panic"
| "expect (Some x) = Ok x"

text \<open>\<open>iter().map(f).collect::<Result<Vec<_>, _>>()\<close>: stops at the first error.\<close>

fun collect_results :: "('a \<Rightarrow> ('b, 'e) result) \<Rightarrow> 'a list \<Rightarrow> ('b list, 'e) result" where
  "collect_results f [] = Ok []"
| "collect_results f (x # xs) =
     and_then (f x) (\<lambda>y. and_then (collect_results f xs) (\<lambda>ys. Ok (y # ys)))"

text \<open>\<open>for x in xs { f(x)?; }\<close>.\<close>

fun for_each :: "('a \<Rightarrow> (unit, 'e) result) \<Rightarrow> 'a list \<Rightarrow> (unit, 'e) result" where
  "for_each f [] = Ok ()"
| "for_each f (x # xs) = and_then (f x) (\<lambda>_. for_each f xs)"

lemma and_then_Ok_iff [result_simps]:
  "and_then r f = Ok y \<longleftrightarrow> (\<exists>x. r = Ok x \<and> f x = Ok y)"
  by (cases r) auto

lemma and_then_Panic_iff [result_simps]:
  "and_then r f = Panic \<longleftrightarrow> r = Panic \<or> (\<exists>x. r = Ok x \<and> f x = Panic)"
  by (cases r) auto

lemma and_then_Err_iff:
  "and_then r f = Err e \<longleftrightarrow> r = Err e \<or> (\<exists>x. r = Ok x \<and> f x = Err e)"
  by (cases r) auto

lemma and_then_assoc: "and_then (and_then r f) g = and_then r (\<lambda>x. and_then (f x) g)"
  by (cases r) auto

lemma map_err_Ok_iff [result_simps]: "map_err f r = Ok v \<longleftrightarrow> r = Inr v"
  by (cases r) auto

lemma map_err_not_Panic [simp]: "map_err f r \<noteq> Panic"
  by (cases r) auto

lemma map_error_Ok_iff [result_simps]: "map_error f r = Ok v \<longleftrightarrow> r = Ok v"
  by (cases r) auto

lemma map_error_Panic_iff [result_simps]: "map_error f r = Panic \<longleftrightarrow> r = Panic"
  by (cases r) auto

lemma ok_or_Ok_iff [result_simps]: "ok_or e x = Ok v \<longleftrightarrow> x = Some v"
  by (cases x) auto

lemma ok_or_not_Panic [simp]: "ok_or e x \<noteq> Panic"
  by (cases x) auto

lemma expect_Ok_iff [result_simps]: "expect x = Ok v \<longleftrightarrow> x = Some v"
  by (cases x) auto

lemma expect_Panic_iff [result_simps]: "expect x = Panic \<longleftrightarrow> x = None"
  by (cases x) auto

lemma if_Err_Ok_iff [result_simps]: "(if b then Err e else r) = Ok v \<longleftrightarrow> \<not> b \<and> r = Ok v"
  by auto

lemma if_Err_Panic_iff [result_simps]: "(if b then Err e else r) = Panic \<longleftrightarrow> \<not> b \<and> r = Panic"
  by auto

lemma is_ok_iff: "is_ok r \<longleftrightarrow> (\<exists>x. r = Ok x)"
  by (cases r) auto

lemma collect_results_Ok_iff:
  "collect_results f xs = Ok ys \<longleftrightarrow> list_all2 (\<lambda>x y. f x = Ok y) xs ys"
  by (induction xs arbitrary: ys) (auto simp: result_simps list_all2_Cons1)

lemma collect_results_Panic:
  "collect_results f xs = Panic \<Longrightarrow> \<exists>x \<in> set xs. f x = Panic"
  by (induction xs) (auto simp: result_simps)

lemma collect_results_length: "collect_results f xs = Ok ys \<Longrightarrow> length ys = length xs"
  by (auto simp: collect_results_Ok_iff dest: list_all2_lengthD)

lemma for_each_Ok_iff [result_simps]: "for_each f xs = Ok u \<longleftrightarrow> (\<forall>x \<in> set xs. f x = Ok ())"
  by (induction xs) (auto simp: result_simps)

lemma for_each_Panic: "for_each f xs = Panic \<Longrightarrow> \<exists>x \<in> set xs. f x = Panic"
  by (induction xs) (auto simp: result_simps)

text \<open>A list is parsed element by element to at most one list of values.\<close>

lemma list_all2_Some_unique:
  "list_all2 (\<lambda>x y. f x = Some y) xs ys \<Longrightarrow> list_all2 (\<lambda>x y. f x = Some y) xs zs \<Longrightarrow> ys = zs"
proof (induction xs arbitrary: ys zs)
  case Nil
  then show ?case by simp
next
  case (Cons x xs)
  then show ?case by (auto simp: list_all2_Cons1)
qed

section \<open>Slices\<close>

definition get :: "'a list \<Rightarrow> nat \<Rightarrow> 'a option" where
  "get xs i = (if i < length xs then Some (xs ! i) else None)"

text \<open>\<open>xs[i]\<close> and \<open>xs[a..b]\<close>: out of range they panic.\<close>

definition index :: "'a list \<Rightarrow> nat \<Rightarrow> ('a, 'e) result" where
  "index xs i = (if i < length xs then Ok (xs ! i) else Panic)"

definition slice :: "'a list \<Rightarrow> nat \<Rightarrow> nat \<Rightarrow> ('a list, 'e) result" where
  "slice xs a b = (if a \<le> b \<and> b \<le> length xs then Ok (take (b - a) (drop a xs)) else Panic)"

text \<open>
  \<open>copy_from_slice\<close> into an array of \<open>n\<close> bytes, and \<open>try_into().expect(..)\<close> to one:
  both panic unless the slice has exactly \<open>n\<close> elements.
\<close>

definition to_array :: "nat \<Rightarrow> 'a list \<Rightarrow> ('a list, 'e) result" where
  "to_array n xs = (if length xs = n then Ok xs else Panic)"

lemma index_Ok [slice_simps]: "i < length xs \<Longrightarrow> index xs i = Ok (xs ! i)"
  by (simp add: index_def)

lemma index_Ok_iff [result_simps]: "index xs i = Ok v \<longleftrightarrow> i < length xs \<and> v = xs ! i"
  by (auto simp: index_def)

lemma index_Panic_iff [result_simps]: "index xs i = Panic \<longleftrightarrow> length xs \<le> i"
  by (auto simp: index_def)

lemma slice_Ok [slice_simps]:
  "a \<le> b \<Longrightarrow> b \<le> length xs \<Longrightarrow> slice xs a b = Ok (take (b - a) (drop a xs))"
  by (simp add: slice_def)

lemma slice_Ok_iff [result_simps]:
  "slice xs a b = Ok v \<longleftrightarrow> a \<le> b \<and> b \<le> length xs \<and> v = take (b - a) (drop a xs)"
  by (auto simp: slice_def)

lemma slice_Panic_iff [result_simps]: "slice xs a b = Panic \<longleftrightarrow> b < a \<or> length xs < b"
  by (auto simp: slice_def)

lemma slice_from [slice_simps]:
  "a \<le> length xs \<Longrightarrow> slice xs a (length xs) = Ok (drop a xs)"
  by (simp add: slice_def)

lemma to_array_Ok [slice_simps]: "length xs = n \<Longrightarrow> to_array n xs = Ok xs"
  by (simp add: to_array_def)

lemma to_array_Ok_iff [result_simps]: "to_array n xs = Ok v \<longleftrightarrow> length xs = n \<and> v = xs"
  by (auto simp: to_array_def)

lemma to_array_Panic_iff [result_simps]: "to_array n xs = Panic \<longleftrightarrow> length xs \<noteq> n"
  by (auto simp: to_array_def)

lemma get_Some_iff: "get xs i = Some v \<longleftrightarrow> i < length xs \<and> v = xs ! i"
  by (auto simp: get_def)

lemma get_None_iff: "get xs i = None \<longleftrightarrow> length xs \<le> i"
  by (auto simp: get_def)

lemma get_append_length [slice_simps]: "get (xs @ y # ys) (length xs) = Some y"
  by (simp add: get_def)

section \<open>Big-endian byte order\<close>

definition be_nat :: "bytes \<Rightarrow> nat" where
  "be_nat bs = foldl (\<lambda>n b. n * 256 + unat b) 0 bs"

definition from_be_bytes :: "bytes \<Rightarrow> 'w::len word" where
  "from_be_bytes bs = word_of_nat (be_nat bs)"

fun be_bytes :: "nat \<Rightarrow> nat \<Rightarrow> bytes" where
  "be_bytes 0 n = []"
| "be_bytes (Suc k) n = be_bytes k (n div 256) @ [word_of_nat n]"

lemma be_bytes_numeral:
  "be_bytes (numeral k) n = be_bytes (pred_numeral k) (n div 256) @ [word_of_nat n]"
proof -
  have "be_bytes (Suc (pred_numeral k)) n
      = be_bytes (pred_numeral k) (n div 256) @ [word_of_nat n]"
    by (rule be_bytes.simps)
  then show ?thesis by (simp only: numeral_eq_Suc [symmetric])
qed

lemma replicate_numeral: "replicate (numeral k) x = x # replicate (pred_numeral k) x"
  by (simp add: numeral_eq_Suc)

lemma length_be_bytes [simp]: "length (be_bytes k n) = k"
  by (induction k arbitrary: n) auto

lemma be_nat_Nil [simp]: "be_nat [] = 0"
  by (simp add: be_nat_def)

lemma be_nat_snoc: "be_nat (bs @ [b]) = be_nat bs * 256 + unat b"
  by (simp add: be_nat_def)

lemma be_nat_Cons: "be_nat (b # bs) = unat b * 256 ^ length bs + be_nat bs"
proof (induction bs rule: rev_induct)
  case Nil
  then show ?case by (simp add: be_nat_def)
next
  case (snoc c bs)
  then show ?case
    by (simp only: append_Cons [symmetric] be_nat_snoc length_append) (simp add: algebra_simps)
qed

lemma unat_word_of_nat_u8: "unat (word_of_nat n :: u8) = n mod 256"
  by (simp add: unat_of_nat)

lemma be_nat_be_bytes [byte_simps]: "be_nat (be_bytes k n) = n mod 256 ^ k"
proof (induction k arbitrary: n)
  case 0
  then show ?case by simp
next
  case (Suc k)
  have "n div 256 mod 256 ^ k * 256 + n mod 256 = n mod (256 * 256 ^ k)"
    by (metis add.commute mod_mult2_eq mult.commute)
  then show ?case
    by (simp add: be_nat_snoc Suc unat_word_of_nat_u8)
qed

lemma be_nat_less: "be_nat bs < 256 ^ length bs"
proof (induction bs rule: rev_induct)
  case Nil
  then show ?case by simp
next
  case (snoc b bs)
  have "unat b < 256" by (rule unat_u8_less)
  with snoc show ?case by (simp add: be_nat_snoc)
qed

lemma be_bytes_be_nat [byte_simps]: "be_bytes (length bs) (be_nat bs) = bs"
proof (induction bs rule: rev_induct)
  case Nil
  then show ?case by simp
next
  case (snoc b bs)
  have b: "unat b < 256" by (rule unat_u8_less)
  then have "(be_nat bs * 256 + unat b) div 256 = be_nat bs" by simp
  moreover have "(word_of_nat (be_nat bs * 256 + unat b) :: u8) = b"
  proof (rule unat_inject)
    show "unat (word_of_nat (be_nat bs * 256 + unat b) :: u8) = unat b"
      using b by (simp only: unat_word_of_nat_u8) simp
  qed
  ultimately show ?case using snoc by (simp add: be_nat_snoc)
qed

lemma unat_from_be_bytes:
  "8 * length bs \<le> LENGTH('w) \<Longrightarrow> unat (from_be_bytes bs :: 'w::len word) = be_nat bs"
proof -
  assume "8 * length bs \<le> LENGTH('w)"
  then have "(2::nat) ^ (8 * length bs) \<le> 2 ^ LENGTH('w)"
    by (intro power_increasing) auto
  moreover have "(256::nat) ^ length bs = 2 ^ (8 * length bs)"
    by (simp add: power_mult)
  ultimately have "be_nat bs < 2 ^ LENGTH('w)"
    using be_nat_less [of bs] by linarith
  then show ?thesis
    by (simp add: from_be_bytes_def unat_of_nat)
qed

section \<open>Text formatting\<close>

definition digit_char :: "nat \<Rightarrow> char" where
  "digit_char d = char_of (48 + d)"

fun show_nat :: "nat \<Rightarrow> string" where
  "show_nat n = (if n < 10 then [digit_char n] else show_nat (n div 10) @ [digit_char (n mod 10)])"

declare show_nat.simps [simp del]

definition show_int :: "int \<Rightarrow> string" where
  "show_int i = (if i < 0 then ''-'' @ show_nat (nat (- i)) else show_nat (nat i))"

text \<open>A value shown between single quotes in a message.\<close>

definition quoted :: "string \<Rightarrow> string" where
  "quoted s = CHR 0x27 # s @ [CHR 0x27]"

text \<open>\<open>{b:02x}\<close>: two lower-case hexadecimal digits.\<close>

definition hex_digit :: "nat \<Rightarrow> char" where
  "hex_digit d = (if d < 10 then char_of (48 + d) else char_of (87 + d))"

definition hex_byte :: "u8 \<Rightarrow> string" where
  "hex_byte b = [hex_digit (unat b div 16), hex_digit (unat b mod 16)]"

text \<open>\<open>str::contains\<close>\<close>

definition contains :: "string \<Rightarrow> string \<Rightarrow> bool" where
  "contains s t \<longleftrightarrow> list_ex (\<lambda>i. take (length t) (drop i s) = t) [0..<Suc (length s)]"

lemma contains_infix: "contains (a @ t @ b) t"
  by (auto simp: contains_def list_ex_iff intro!: bexI [of _ "length a"])

lemma hex_digit_inj: "d < 16 \<Longrightarrow> e < 16 \<Longrightarrow> hex_digit d = hex_digit e \<Longrightarrow> d = e"
proof -
  assume de: "d < 16" "e < 16" and eq: "hex_digit d = hex_digit e"
  define f where "f n = (if n < (10::nat) then 48 + n else 87 + n)" for n
  have "of_char (hex_digit n) = f n" if "n < 16" for n
    using that by (simp add: hex_digit_def f_def)
  with de eq have "f d = f e" by metis
  with de show "d = e" by (auto simp: f_def split: if_splits)
qed

lemma hex_byte_inj: "hex_byte a = hex_byte b \<Longrightarrow> a = b"
proof -
  assume eq: "hex_byte a = hex_byte b"
  have lt: "unat w < 256" for w :: u8
    by (rule unat_u8_less)
  have "unat a div 16 < 16" "unat b div 16 < 16"
    using lt [of a] lt [of b] by auto
  with eq have "unat a div 16 = unat b div 16" "unat a mod 16 = unat b mod 16"
    by (auto simp: hex_byte_def intro: hex_digit_inj)
  then have "unat a = unat b" by (metis div_mult_mod_eq)
  then show "a = b" by (rule unat_inject)
qed

end
