(* ===== verification/Attestation_Core.thy ===== *)
theory Attestation_Core
  imports Prelude
begin

text \<open>
  The crate \<open>attestation-core\<close> (\<open>rust/attestation-core/src/lib.rs\<close>): the outcome every
  verifier returns and the identifiers of the attestation sources.
\<close>

record outcome =
  source :: string
  attested_value :: bytes
  challenge :: bytes
  timestamp_ms :: u64
  detail_hash :: bytes

definition APPLE_APP_ATTEST :: string where
  "APPLE_APP_ATTEST = ''apple-app-attest''"

definition APPLE_APP_ATTEST_ASSERTION :: string where
  "APPLE_APP_ATTEST_ASSERTION = ''apple-app-attest-assertion''"

definition APPLE_WEBAUTHN :: string where
  "APPLE_WEBAUTHN = ''apple-webauthn''"

definition ANDROID_KEY_ATTEST :: string where
  "ANDROID_KEY_ATTEST = ''android-key-attest''"

definition ANDROID_WEBAUTHN_KEY :: string where
  "ANDROID_WEBAUTHN_KEY = ''android-webauthn-key''"

definition NTAG_ORIGINALITY :: string where
  "NTAG_ORIGINALITY = ''ntag-originality''"

definition FIDO_PACKED :: string where
  "FIDO_PACKED = ''fido-packed''"

lemmas source_defs = APPLE_APP_ATTEST_def APPLE_APP_ATTEST_ASSERTION_def APPLE_WEBAUTHN_def
  ANDROID_KEY_ATTEST_def ANDROID_WEBAUTHN_KEY_def NTAG_ORIGINALITY_def FIDO_PACKED_def

end
