(* ===== verification/Crates.thy ===== *)
theory Crates
  imports Prelude
begin

text \<open>
  The crates outside the repository that the verifiers call (\<open>ciborium\<close>, \<open>sha2\<close>,
  \<open>x509-cert\<close>, \<open>der\<close>, \<open>const-oid\<close>, \<open>p256\<close>, \<open>p384\<close>, \<open>rsa\<close>). Their data types appear
  with the constructors and fields the repository's code reads; their functions are the fields
  of the record \<open>crates\<close>, an argument of every definition that calls one, so that each
  theorem holds for whatever these functions compute unless it names a hypothesis about them.
  An error of a crate is the text its \<open>Display\<close> prints; a key or a signature that a crate
  has parsed is kept as bytes.
\<close>

section \<open>ciborium\<close>

text \<open>\<open>ciborium::value::Value\<close>; an \<open>Integer\<close> wraps an \<open>i128\<close>.\<close>

datatype cbor_value =
    CInteger int
  | CBytes bytes
  | CFloat nat
  | CText string
  | CBool bool
  | CNull
  | CTag nat cbor_value
  | CArray "cbor_value list"
  | CMap "(cbor_value \<times> cbor_value) list"

fun as_integer :: "cbor_value \<Rightarrow> int option" where
  "as_integer (CInteger i) = Some i"
| "as_integer _ = None"

fun cbor_as_bytes :: "cbor_value \<Rightarrow> bytes option" where
  "cbor_as_bytes (CBytes b) = Some b"
| "cbor_as_bytes _ = None"

fun as_text :: "cbor_value \<Rightarrow> string option" where
  "as_text (CText s) = Some s"
| "as_text _ = None"

fun as_array :: "cbor_value \<Rightarrow> cbor_value list option" where
  "as_array (CArray vs) = Some vs"
| "as_array _ = None"

fun as_map :: "cbor_value \<Rightarrow> (cbor_value \<times> cbor_value) list option" where
  "as_map (CMap kvs) = Some kvs"
| "as_map _ = None"

text \<open>\<open>i64::try_from\<close> on the wrapped integer.\<close>

definition i64_try_from :: "int \<Rightarrow> int option" where
  "i64_try_from i = (if - (2 ^ 63) \<le> i \<and> i < 2 ^ 63 then Some i else None)"

lemma as_text_Some_iff [simp]: "as_text v = Some s \<longleftrightarrow> v = CText s"
  by (cases v) auto

lemma cbor_as_bytes_Some_iff [simp]: "cbor_as_bytes v = Some b \<longleftrightarrow> v = CBytes b"
  by (cases v) auto

lemma as_map_Some_iff [simp]: "as_map v = Some m \<longleftrightarrow> v = CMap m"
  by (cases v) auto

lemma as_array_Some_iff [simp]: "as_array v = Some a \<longleftrightarrow> v = CArray a"
  by (cases v) auto

lemma as_integer_Some_iff [simp]: "as_integer v = Some i \<longleftrightarrow> v = CInteger i"
  by (cases v) auto

section \<open>x509-cert\<close>

type_synonym oid = "nat list"

text \<open>
  A validity bound is either encoding of a time; the argument is
  \<open>to_unix_duration().as_secs()\<close> of the wrapped value.
\<close>

datatype x509_time = UtcTime u64 | GeneralTime u64

record extension =
  extn_id :: oid
  extn_value :: bytes

record subject_public_key_info =
  algorithm_oid :: oid
  algorithm_parameters :: "bytes option"
  subject_public_key :: "nat \<times> bytes"

text \<open>\<open>tbs_rest\<close> stands for the fields of a certificate that the repository never reads.\<close>

record tbs_certificate =
  serial_number :: bytes
  not_before :: x509_time
  not_after :: x509_time
  public_key_info :: subject_public_key_info
  extensions :: "extension list option"
  tbs_rest :: bytes

record certificate =
  tbs :: tbs_certificate
  signature_algorithm_oid :: oid
  signature :: "nat \<times> bytes"

section \<open>der\<close>

text \<open>
  The tags the repository compares with; every other tag is \<open>TOther\<close> of its octet.
  A \<open>der::Error\<close> is its kind: byte positions in error texts are not modelled.
\<close>

datatype der_tag = TInteger | TOctetString | TEnumerated | TBoolean | TSequence | TSet | TOther u8

datatype der_error =
    TagUnexpected der_tag der_tag
  | ValueError der_tag
  | LengthError der_tag
  | Overflow
  | OtherDer string

record der_header =
  header_tag :: der_tag
  header_length :: nat

section \<open>The functions\<close>

text \<open>
  A DER reader (\<open>SliceReader\<close>) is the input it has left. A bit string is its number of
  unused bits with its octets, and \<open>bit_string_as_bytes\<close> is \<open>BitString::as_bytes\<close>.
\<close>

record crates =
  sha256 :: "bytes \<Rightarrow> bytes"
  cbor_from_reader :: "bytes \<Rightarrow> string + cbor_value"
  certificate_from_der :: "bytes \<Rightarrow> string + certificate"
  certificate_to_der :: "certificate \<Rightarrow> string + bytes"
  tbs_to_der :: "tbs_certificate \<Rightarrow> string + bytes"
  spki_to_der :: "subject_public_key_info \<Rightarrow> string + bytes"
  any_as_oid :: "bytes \<Rightarrow> string + oid"
  bit_string_as_bytes :: "nat \<times> bytes \<Rightarrow> bytes option"
  basic_constraints_from_der :: "bytes \<Rightarrow> string + bool"
  nonce_extension_from_der :: "bytes \<Rightarrow> string + bytes"
  p256_key_from_sec1 :: "bytes \<Rightarrow> string + bytes"
  p256_signature_from_der :: "bytes \<Rightarrow> string + bytes"
  p256_verify :: "bytes \<Rightarrow> bytes \<Rightarrow> bytes \<Rightarrow> bool"
  p256_verify_prehash :: "bytes \<Rightarrow> bytes \<Rightarrow> bytes \<Rightarrow> bool"
  p384_key_from_sec1 :: "bytes \<Rightarrow> string + bytes"
  p384_signature_from_der :: "bytes \<Rightarrow> string + bytes"
  p384_verify :: "bytes \<Rightarrow> bytes \<Rightarrow> bytes \<Rightarrow> bool"
  p384_verify_prehash :: "bytes \<Rightarrow> bytes \<Rightarrow> bytes \<Rightarrow> bool"
  rsa_key_from_pkcs1 :: "bytes \<Rightarrow> string + bytes"
  rsa_signature_from_bytes :: "bytes \<Rightarrow> string + bytes"
  rsa_verify_sha256 :: "bytes \<Rightarrow> bytes \<Rightarrow> bytes \<Rightarrow> bool"
  slice_reader_new :: "bytes \<Rightarrow> der_error + bytes"
  der_peek_header :: "bytes \<Rightarrow> der_error + der_header"
  der_decode_header :: "bytes \<Rightarrow> der_error + (der_header \<times> bytes)"
  der_read_slice :: "bytes \<Rightarrow> nat \<Rightarrow> der_error + (bytes \<times> bytes)"
  der_is_finished :: "bytes \<Rightarrow> bool"
  der_decode_int :: "bytes \<Rightarrow> der_error + (bytes \<times> bytes)"
  der_decode_octet_string :: "bytes \<Rightarrow> der_error + (bytes \<times> bytes)"
  der_decode_bool :: "bytes \<Rightarrow> der_error + (bool \<times> bytes)"
  der_display :: "der_error \<Rightarrow> string"
  tag_debug :: "der_tag \<Rightarrow> string"
  oid_display :: "oid \<Rightarrow> string"

text \<open>
  \<open>Sha256::digest\<close> always returns 32 bytes, and the pinned root certificates are the
  files under \<open>assets/\<close>: both are facts about code and data outside the model.
\<close>

definition sha256_ok :: "crates \<Rightarrow> bool" where
  "sha256_ok X \<longleftrightarrow> (\<forall>m. length (sha256 X m) = 32)"

end
