(* ===== verification/Apple_Errors.thy ===== *)
theory Apple_Errors
  imports Crates
begin

text \<open>
  The error type of the \<open>attest-apple\<close> crate (\<open>rust/attest-apple/src/errors.rs\<close>) and
  the text each error displays, which the server puts into its HTTP responses.
\<close>

datatype apple_error =
    Cbor string
  | Der string
  | Cose string
  | WrongFormat string
  | EmptyX5c
  | UntrustedChain
  | MissingNonceExtension
  | NonceMismatch
  | KeyIdMismatch
  | AaguidMismatch string bytes
  | RpIdHashMismatch
  | SignCountNotZero u32
  | AuthDataTooShort nat
  | NoAttestedCredentialData
  | NotP256

text \<open>\<open>{:?}\<close> of a byte vector: the decimal values between brackets.\<close>

fun join_comma :: "string list \<Rightarrow> string" where
  "join_comma [] = ''''"
| "join_comma [s] = s"
| "join_comma (s # t # ss) = s @ '', '' @ join_comma (t # ss)"

definition debug_bytes :: "bytes \<Rightarrow> string" where
  "debug_bytes bs = ''['' @ join_comma (map (\<lambda>b. show_nat (unat b)) bs) @ '']''"

fun apple_error_display :: "apple_error \<Rightarrow> string" where
  "apple_error_display (Cbor s) = ''CBOR decode error: '' @ s"
| "apple_error_display (Der s) = ''DER/X.509 error: '' @ s"
| "apple_error_display (Cose s) = ''COSE_Key parse error: '' @ s"
| "apple_error_display (WrongFormat s) =
     ''attestation has wrong fmt: expected 'apple-appattest', got '' @ quoted s"
| "apple_error_display EmptyX5c = ''x5c chain is empty''"
| "apple_error_display UntrustedChain =
     ''x5c chain does not terminate at Apple App Attestation Root CA''"
| "apple_error_display MissingNonceExtension =
     ''missing Apple nonce extension (OID 1.2.840.113635.100.8.2) on leaf certificate''"
| "apple_error_display NonceMismatch =
     ''computed nonce does not match certificate extension nonce''"
| "apple_error_display KeyIdMismatch =
     ''attested keyId does not match SHA-256 of the public key''"
| "apple_error_display (AaguidMismatch expected got) =
     ''aaguid mismatch: expected '' @ expected @ '', got '' @ debug_bytes got"
| "apple_error_display RpIdHashMismatch = ''rpIdHash does not match SHA-256(app_id)''"
| "apple_error_display (SignCountNotZero n) =
     ''signCount must be 0 on initial attestation, got '' @ show_nat (unat n)"
| "apple_error_display (AuthDataTooShort n) =
     ''authData is too short: got '' @ show_nat n @ '' bytes''"
| "apple_error_display NoAttestedCredentialData =
     ''authData missing attested-credential-data flag''"
| "apple_error_display NotP256 = ''public key is not P-256''"

end
