(* ===== verification/Apple_AuthData.thy ===== *)
theory Apple_AuthData
  imports Apple_Errors
begin

text \<open>
  The parser of App Attest's \<open>authData\<close> (\<open>rust/attest-apple/src/authdata.rs\<close>), the
  fixed layout it documents as an encoder, and the proof that parsing is exactly the inverse
  of that layout: no other byte string is accepted, and no input makes a slice panic.
\<close>

section \<open>The parser\<close>

definition AT_FLAG :: u8 where
  "AT_FLAG = 0x40"

record auth_data =
  rp_id_hash :: bytes
  flags :: u8
  sign_count :: u32
  aaguid :: bytes
  credential_id :: bytes
  credential_public_key :: bytes

definition authdata_parse :: "bytes \<Rightarrow> (auth_data, apple_error) result" where
  "authdata_parse bs =
    (if length bs < 37 then Err (AuthDataTooShort (length bs)) else
     and_then (slice bs 0 32) (\<lambda>rp. and_then (to_array 32 rp) (\<lambda>rp.
     and_then (index bs 32) (\<lambda>fl.
     and_then (slice bs 33 37) (\<lambda>sc. and_then (to_array 4 sc) (\<lambda>sc.
     if fl AND AT_FLAG = 0 then Err NoAttestedCredentialData else
     if length bs < 37 + 16 + 2 then Err (AuthDataTooShort (length bs)) else
     and_then (slice bs 37 53) (\<lambda>ag. and_then (to_array 16 ag) (\<lambda>ag.
     and_then (slice bs 53 55) (\<lambda>cl. and_then (to_array 2 cl) (\<lambda>cl.
     let cred_id_len = unat (from_be_bytes cl :: u16) in
     if length bs < 55 + cred_id_len then Err (AuthDataTooShort (length bs)) else
     and_then (slice bs 55 (55 + cred_id_len)) (\<lambda>cid.
     and_then (slice bs (55 + cred_id_len) (length bs)) (\<lambda>cpk.
     Ok \<lparr>rp_id_hash = rp, flags = fl, sign_count = from_be_bytes sc, aaguid = ag,
         credential_id = cid, credential_public_key = cpk\<rparr>))))))))))))"

section \<open>The documented layout\<close>

definition authdata_encode :: "auth_data \<Rightarrow> bytes" where
  "authdata_encode a =
     rp_id_hash a @ [flags a] @ be_bytes 4 (unat (sign_count a)) @ aaguid a
     @ be_bytes 2 (length (credential_id a)) @ credential_id a @ credential_public_key a"

definition authdata_wf :: "auth_data \<Rightarrow> bool" where
  "authdata_wf a \<longleftrightarrow> length (rp_id_hash a) = 32 \<and> flags a AND AT_FLAG \<noteq> 0
     \<and> length (aaguid a) = 16 \<and> length (credential_id a) < 2 ^ 16"

text \<open>Why an input is refused, in the order the code looks.\<close>

definition authdata_error :: "bytes \<Rightarrow> apple_error option" where
  "authdata_error bs =
    (if length bs < 37 then Some (AuthDataTooShort (length bs))
     else if bs ! 32 AND AT_FLAG = 0 then Some NoAttestedCredentialData
     else if length bs < 55 \<or> length bs < 55 + be_nat (take 2 (drop 53 bs))
       then Some (AuthDataTooShort (length bs))
     else None)"

definition authdata_fields :: "bytes \<Rightarrow> auth_data" where
  "authdata_fields bs =
    (let n = be_nat (take 2 (drop 53 bs)) in
     \<lparr>rp_id_hash = take 32 bs, flags = bs ! 32, sign_count = from_be_bytes (take 4 (drop 33 bs)),
      aaguid = take 16 (drop 37 bs), credential_id = take n (drop 55 bs),
      credential_public_key = drop (55 + n) bs\<rparr>)"

section \<open>Correctness\<close>

lemma authdata_parse_eq:
  "authdata_parse bs =
    (case authdata_error bs of Some e \<Rightarrow> Err e | None \<Rightarrow> Ok (authdata_fields bs))"
proof -
  have "unat (from_be_bytes (take 2 (drop 53 bs)) :: u16) = be_nat (take 2 (drop 53 bs))"
    by (rule unat_from_be_bytes) simp
  then show ?thesis
    by (simp add: authdata_parse_def authdata_error_def authdata_fields_def slice_def to_array_def
        index_def Let_def)
qed

lemma authdata_fields_encode:
  assumes "authdata_wf a"
  shows "authdata_error (authdata_encode a) = None \<and> authdata_fields (authdata_encode a) = a"
proof -
  have len: "length (rp_id_hash a) = 32" "length (aaguid a) = 16"
    and cid: "length (credential_id a) < 65536" and fl: "flags a AND AT_FLAG \<noteq> 0"
    using assms by (auto simp: authdata_wf_def)
  have sc: "unat (sign_count a) mod 256 ^ 4 = unat (sign_count a)"
  proof -
    have "unat (sign_count a) < 2 ^ LENGTH(32)" by (rule unsigned_less)
    then show ?thesis by simp
  qed
  have n: "be_nat (be_bytes 2 (length (credential_id a))) = length (credential_id a)"
    using cid by (simp add: be_nat_be_bytes)
  have c: "(from_be_bytes (be_bytes 4 (unat (sign_count a))) :: u32) = sign_count a"
    by (simp only: from_be_bytes_def be_nat_be_bytes sc of_nat_unat) simp
  show ?thesis
    using len fl n c
    by (simp add: authdata_error_def authdata_fields_def authdata_encode_def nth_append Let_def drop_Cons'
        del: be_bytes.simps)
qed

lemma take_drop_chain: "n \<le> m \<Longrightarrow> take (m - n) (drop n xs) @ drop m xs = drop n xs"
  by (metis append_take_drop_id drop_drop le_add_diff_inverse2)

lemma authdata_encode_fields:
  assumes "authdata_error bs = None"
  shows "authdata_wf (authdata_fields bs) \<and> authdata_encode (authdata_fields bs) = bs"
proof -
  define n where "n = be_nat (take 2 (drop 53 bs))"
  from assms have len: "55 \<le> length bs" "55 + n \<le> length bs" and fl: "bs ! 32 AND AT_FLAG \<noteq> 0"
    by (auto simp: authdata_error_def n_def split: if_splits)
  have two: "length (take 2 (drop 53 bs)) = 2" and four: "length (take 4 (drop 33 bs)) = 4"
    using len by auto
  have n: "be_bytes 2 n = take 2 (drop 53 bs)"
    using be_bytes_be_nat [of "take 2 (drop 53 bs)"] two by (simp add: n_def)
  have "n < 256 ^ 2"
    using be_nat_less [of "take 2 (drop 53 bs)"] two by (simp add: n_def)
  then have n16: "n < 2 ^ 16" by simp
  have u: "unat (from_be_bytes (take 4 (drop 33 bs)) :: u32) = be_nat (take 4 (drop 33 bs))"
    by (rule unat_from_be_bytes) simp
  have c: "be_bytes 4 (unat (from_be_bytes (take 4 (drop 33 bs)) :: u32)) = take 4 (drop 33 bs)"
    using be_bytes_be_nat [of "take 4 (drop 33 bs)"] four u by simp
  have wf: "authdata_wf (authdata_fields bs)"
    using len fl n16 by (simp add: authdata_wf_def authdata_fields_def Let_def n_def [symmetric])
  have "authdata_encode (authdata_fields bs) =
      take 32 bs @ bs ! 32 # take 4 (drop 33 bs) @ take 16 (drop 37 bs) @ take 2 (drop 53 bs)
      @ take n (drop 55 bs) @ drop (55 + n) bs"
    using len n c by (simp add: authdata_encode_def authdata_fields_def Let_def n_def [symmetric])
  also have "take n (drop 55 bs) @ drop (55 + n) bs = drop 55 bs"
    using take_drop_chain [of 55 "55 + n" bs] by simp
  also have "take 2 (drop 53 bs) @ drop 55 bs = drop 53 bs"
    using take_drop_chain [of 53 55 bs] by simp
  also have "take 16 (drop 37 bs) @ drop 53 bs = drop 37 bs"
    using take_drop_chain [of 37 53 bs] by simp
  also have "take 4 (drop 33 bs) @ drop 37 bs = drop 33 bs"
    using take_drop_chain [of 33 37 bs] by simp
  also have "bs ! 32 # drop 33 bs = drop 32 bs"
    using len Cons_nth_drop_Suc [of 32 bs] by simp
  finally show ?thesis using wf by simp
qed

lemma authdata_parse_Ok_iff:
  "authdata_parse bs = Ok a \<longleftrightarrow> authdata_error bs = None \<and> a = authdata_fields bs"
  by (auto simp: authdata_parse_eq split: option.splits)

lemma authdata_parse_not_Panic: "authdata_parse bs \<noteq> Panic"
  by (simp add: authdata_parse_eq split: option.splits)

section \<open>Properties\<close>

text \<open>
  C20. The authData parser accepts exactly the byte strings of the documented layout, and the
  value it returns is the one that was laid out: parsing succeeds with \<open>a\<close> if and only if
  \<open>a\<close> is well formed (32-byte rpIdHash, AT flag set, 16-byte aaguid, credential id
  shorter than 2^16) and the input is its encoding. So it is a left and a right inverse of
  the encoder.
\<close>

theorem authdata_parse_roundtrip:
  "authdata_parse bs = Ok a \<longleftrightarrow> authdata_wf a \<and> bs = authdata_encode a"
  using authdata_fields_encode [of a] authdata_encode_fields [of bs]
  by (auto simp: authdata_parse_Ok_iff)

text \<open>
  Parsing never panics: every slice is in range on every input. It refuses an input of 37
  bytes or more without the AT flag as lacking credential data, and refuses it as too short,
  reporting its length, exactly when it has fewer than 37 bytes, or has the flag and ends
  before the credential id length or inside the credential id.
\<close>

lemma authdata_parse_rejects:
  "authdata_parse bs \<noteq> Panic
   \<and> (authdata_parse bs = Err NoAttestedCredentialData
       \<longleftrightarrow> 37 \<le> length bs \<and> bs ! 32 AND AT_FLAG = 0)
   \<and> (authdata_parse bs = Err (AuthDataTooShort n)
       \<longleftrightarrow> n = length bs \<and> (n < 37 \<or> bs ! 32 AND AT_FLAG \<noteq> 0
             \<and> (n < 55 \<or> n < 55 + be_nat (take 2 (drop 53 bs)))))"
  by (auto simp: authdata_parse_eq authdata_error_def split: if_splits option.splits)

end
