(* ===== verification/Apple_Cbor.thy ===== *)
theory Apple_Cbor
  imports Apple_Errors
begin

text \<open>
  What \<open>attest-apple\<close> reads out of decoded CBOR values: the attestation object
  (\<open>cbor.rs\<close>), the COSE public key inside \<open>authData\<close> (\<open>cose.rs\<close>) and the assertion
  (\<open>decode_assertion\<close> of \<open>assertion.rs\<close>). All three walk the entries of a map with a
  loop that overwrites what it found before, so the last entry of a key decides; the lemmas
  say so with the lookup \<open>last_value\<close>. The CBOR decoder itself is the crate \<open>ciborium\<close>.
\<close>

section \<open>Looking up the last entry of a key\<close>

type_synonym cbor_map = "(cbor_value \<times> cbor_value) list"

definition last_value :: "cbor_value \<Rightarrow> cbor_map \<Rightarrow> cbor_value option" where
  "last_value k m = map_of (rev m) k"

definition text_keys :: "cbor_map \<Rightarrow> bool" where
  "text_keys m \<longleftrightarrow> list_all (\<lambda>(k, v). as_text k \<noteq> None) m"

lemma last_value_Nil [simp]: "last_value k [] = None"
  by (simp add: last_value_def)

lemma last_value_Cons [simp]:
  "last_value k ((k', v) # m) =
     (case last_value k m of Some w \<Rightarrow> Some w | None \<Rightarrow> if k' = k then Some v else None)"
  by (auto simp: last_value_def map_add_def split: option.splits)

lemma text_keys_simps [simp]:
  "text_keys []"
  "text_keys ((k, v) # m) \<longleftrightarrow> (\<exists>s. k = CText s) \<and> text_keys m"
  by (auto simp: text_keys_def)

lemma last_value_SomeD: "last_value k m = Some v \<Longrightarrow> (k, v) \<in> set m"
  by (auto simp: last_value_def dest: map_of_SomeD)

text \<open>What a variable holds after the loop, when each entry of its key overwrites it.\<close>

definition overwrite :: "'a option \<Rightarrow> (cbor_value \<Rightarrow> 'a option) \<Rightarrow> cbor_value option \<Rightarrow> 'a option" where
  "overwrite old f v = (case v of None \<Rightarrow> old | Some w \<Rightarrow> f w)"

lemma overwrite_None [simp]: "overwrite old f None = old"
  by (simp add: overwrite_def)

lemma overwrite_Some [simp]: "overwrite old f (Some w) = f w"
  by (simp add: overwrite_def)

lemma overwrite_start_iff [simp]:
  "overwrite None f v = Some x \<longleftrightarrow> (\<exists>w. v = Some w \<and> f w = Some x)"
  by (cases v) auto

section \<open>The attestation object\<close>

record attestation_statement =
  st_fmt :: string
  st_auth_data :: bytes
  st_x5c :: "bytes list"
  st_receipt :: bytes

fun top_level_loop :: "cbor_map \<Rightarrow> string option \<Rightarrow> bytes option \<Rightarrow> cbor_value option
    \<Rightarrow> (string option \<times> bytes option \<times> cbor_value option, apple_error) result" where
  "top_level_loop [] fmt auth_data att_stmt = Ok (fmt, auth_data, att_stmt)"
| "top_level_loop ((k, v) # m) fmt auth_data att_stmt =
     and_then (ok_or (Cbor ''non-text key at top level'') (as_text k)) (\<lambda>key.
       if key = ''fmt'' then top_level_loop m (as_text v) auth_data att_stmt
       else if key = ''authData'' then top_level_loop m fmt (cbor_as_bytes v) att_stmt
       else if key = ''attStmt'' then top_level_loop m fmt auth_data (Some v)
       else top_level_loop m fmt auth_data att_stmt)"

definition x5c_certs :: "cbor_value \<Rightarrow> (bytes list, apple_error) result" where
  "x5c_certs v =
     and_then (ok_or (Cbor ''x5c is not an array'') (as_array v)) (\<lambda>arr.
       collect_results (\<lambda>c. ok_or (Cbor ''x5c element is not bytes'') (cbor_as_bytes c)) arr)"

fun att_stmt_loop :: "cbor_map \<Rightarrow> bytes list option \<Rightarrow> bytes
    \<Rightarrow> (bytes list option \<times> bytes, apple_error) result" where
  "att_stmt_loop [] x5c receipt = Ok (x5c, receipt)"
| "att_stmt_loop ((k, v) # m) x5c receipt =
     and_then (ok_or (Cbor ''non-text key in attStmt'') (as_text k)) (\<lambda>key.
       if key = ''x5c'' then
         and_then (x5c_certs v) (\<lambda>certs. att_stmt_loop m (Some certs) receipt)
       else if key = ''receipt'' then
         att_stmt_loop m x5c (case cbor_as_bytes v of Some b \<Rightarrow> b | None \<Rightarrow> receipt)
       else att_stmt_loop m x5c receipt)"

definition decode_attestation_object ::
    "crates \<Rightarrow> bytes \<Rightarrow> (attestation_statement, apple_error) result" where
  "decode_attestation_object X bs =
     and_then (map_err (\<lambda>e. Cbor (''top-level decode: '' @ e)) (cbor_from_reader X bs)) (\<lambda>value.
     and_then (ok_or (Cbor ''top-level value is not a map'') (as_map value)) (\<lambda>m.
     and_then (top_level_loop m None None None) (\<lambda>(fmt, auth_data, att_stmt).
     and_then (ok_or (Cbor (''missing '' @ quoted ''fmt'')) fmt) (\<lambda>fmt.
     and_then (ok_or (Cbor (''missing '' @ quoted ''authData'')) auth_data) (\<lambda>auth_data.
     and_then (ok_or (Cbor (''missing '' @ quoted ''attStmt'')) att_stmt) (\<lambda>att_stmt.
     and_then (ok_or (Cbor ''attStmt is not a map'') (as_map att_stmt)) (\<lambda>att_map.
     and_then (att_stmt_loop att_map None []) (\<lambda>(x5c, receipt).
     and_then (ok_or (Cbor ''missing 'x5c' in attStmt'') x5c) (\<lambda>x5c.
     Ok \<lparr>st_fmt = fmt, st_auth_data = auth_data, st_x5c = x5c, st_receipt = receipt\<rparr>)))))))))"

section \<open>The COSE public key\<close>

record cose_fields =
  kty :: "int option"
  alg :: "int option"
  crv :: "int option"
  coord_x :: "bytes option"
  coord_y :: "bytes option"

definition as_i64 :: "cbor_value \<Rightarrow> int option" where
  "as_i64 v = Option.bind (as_integer v) i64_try_from"

fun cose_loop :: "cbor_map \<Rightarrow> cose_fields \<Rightarrow> cose_fields" where
  "cose_loop [] c = c"
| "cose_loop ((k, v) # m) c =
     (case as_integer k of None \<Rightarrow> cose_loop m c
      | Some key_int \<Rightarrow>
        (case i64_try_from key_int of None \<Rightarrow> cose_loop m c
         | Some key \<Rightarrow>
           (if key = 1 then cose_loop m (c\<lparr>kty := as_i64 v\<rparr>)
            else if key = 3 then cose_loop m (c\<lparr>alg := as_i64 v\<rparr>)
            else if key = - 1 then cose_loop m (c\<lparr>crv := as_i64 v\<rparr>)
            else if key = - 2 then cose_loop m (c\<lparr>coord_x := cbor_as_bytes v\<rparr>)
            else if key = - 3 then cose_loop m (c\<lparr>coord_y := cbor_as_bytes v\<rparr>)
            else cose_loop m c)))"

definition cose_start :: cose_fields where
  "cose_start = \<lparr>kty = None, alg = None, crv = None, coord_x = None, coord_y = None\<rparr>"

fun debug_int_option :: "int option \<Rightarrow> string" where
  "debug_int_option None = ''None''"
| "debug_int_option (Some i) = ''Some('' @ show_int i @ '')''"

definition cose_finish :: "cose_fields \<Rightarrow> (bytes, apple_error) result" where
  "cose_finish c =
     (if kty c \<noteq> Some 2 then Err NotP256 else
      if alg c \<noteq> Some (- 7)
        then Err (Cose (''alg must be -7 (ES256), got '' @ debug_int_option (alg c))) else
      if crv c \<noteq> Some 1 then Err NotP256 else
      and_then (ok_or (Cose ''missing x coordinate'') (coord_x c)) (\<lambda>x.
      and_then (ok_or (Cose ''missing y coordinate'') (coord_y c)) (\<lambda>y.
      if length x \<noteq> 32 \<or> length y \<noteq> 32
        then Err (Cose (''x/y must be 32 bytes (got x='' @ show_nat (length x) @ '', y=''
                        @ show_nat (length y) @ '')''))
      else and_then (to_array 32 x) (\<lambda>x. and_then (to_array 32 y) (\<lambda>y.
        Ok (0x04 # x @ y))))))"

definition extract_p256_pk :: "crates \<Rightarrow> bytes \<Rightarrow> (bytes, apple_error) result" where
  "extract_p256_pk X cose_bytes =
     and_then (map_err (\<lambda>e. Cose (''decode: '' @ e)) (cbor_from_reader X cose_bytes)) (\<lambda>value.
     and_then (ok_or (Cose ''COSE_Key is not a map'') (as_map value)) (\<lambda>m.
     cose_finish (cose_loop m cose_start)))"

definition key_id_input :: "bytes \<Rightarrow> bytes" where
  "key_id_input pk = pk"

section \<open>The assertion\<close>

fun assertion_loop :: "cbor_map \<Rightarrow> bytes option \<Rightarrow> bytes option
    \<Rightarrow> (bytes option \<times> bytes option, apple_error) result" where
  "assertion_loop [] sig auth_data = Ok (sig, auth_data)"
| "assertion_loop ((k, v) # m) sig auth_data =
     and_then (ok_or (Cbor ''non-text key in assertion'') (as_text k)) (\<lambda>key.
       if key = ''signature'' then assertion_loop m (cbor_as_bytes v) auth_data
       else if key = ''authenticatorData'' then assertion_loop m sig (cbor_as_bytes v)
       else assertion_loop m sig auth_data)"

definition decode_assertion :: "crates \<Rightarrow> bytes \<Rightarrow> (bytes \<times> bytes, apple_error) result" where
  "decode_assertion X bs =
     and_then (map_err (\<lambda>e. Cbor (''assertion decode: '' @ e)) (cbor_from_reader X bs)) (\<lambda>value.
     and_then (ok_or (Cbor ''assertion not a map'') (as_map value)) (\<lambda>m.
     and_then (assertion_loop m None None) (\<lambda>(sig, auth_data).
     and_then (ok_or (Cbor ''missing signature'') sig) (\<lambda>sig.
     and_then (ok_or (Cbor ''missing authenticatorData'') auth_data) (\<lambda>auth_data.
     Ok (sig, auth_data))))))"

section \<open>What the loops leave behind\<close>

lemma top_level_loop_Ok_iff [result_simps]:
  "top_level_loop m f a s = Ok r \<longleftrightarrow> text_keys m \<and>
     r = (overwrite f as_text (last_value (CText ''fmt'') m),
          overwrite a cbor_as_bytes (last_value (CText ''authData'') m),
          overwrite s Some (last_value (CText ''attStmt'') m))"
proof (induction m arbitrary: f a s)
  case Nil
  then show ?case by auto
next
  case (Cons kv m)
  obtain k v where kv: "kv = (k, v)" by (cases kv)
  show ?case
  proof (cases k)
    case (CText key)
    consider "key = ''fmt''" | "key = ''authData''" | "key = ''attStmt''" | "key \<noteq> ''fmt'' \<and> key \<noteq> ''authData'' \<and> key \<noteq> ''attStmt''"
      by blast
    then show ?thesis
      by cases (simp_all add: kv CText Cons overwrite_def split: option.split)
  qed (simp_all add: kv)
qed

lemma assertion_loop_Ok_iff [result_simps]:
  "assertion_loop m sig a = Ok r \<longleftrightarrow> text_keys m \<and>
     r = (overwrite sig cbor_as_bytes (last_value (CText ''signature'') m),
          overwrite a cbor_as_bytes (last_value (CText ''authenticatorData'') m))"
proof (induction m arbitrary: sig a)
  case Nil
  then show ?case by auto
next
  case (Cons kv m)
  obtain k v where kv: "kv = (k, v)" by (cases kv)
  show ?case
  proof (cases k)
    case (CText key)
    consider "key = ''signature''" | "key = ''authenticatorData''" | "key \<noteq> ''signature'' \<and> key \<noteq> ''authenticatorData''"
      by blast
    then show ?thesis
      by cases (simp_all add: kv CText Cons overwrite_def split: option.split)
  qed (simp_all add: kv)
qed

lemma cose_loop_eq:
  "cose_loop m c =
     \<lparr>kty = overwrite (kty c) as_i64 (last_value (CInteger 1) m),
      alg = overwrite (alg c) as_i64 (last_value (CInteger 3) m),
      crv = overwrite (crv c) as_i64 (last_value (CInteger (- 1)) m),
      coord_x = overwrite (coord_x c) cbor_as_bytes (last_value (CInteger (- 2)) m),
      coord_y = overwrite (coord_y c) cbor_as_bytes (last_value (CInteger (- 3)) m)\<rparr>"
proof (induction m arbitrary: c)
  case Nil
  then show ?case by simp
next
  case (Cons kv m)
  obtain k v where kv: "kv = (k, v)" by (cases kv)
  show ?case
  proof (cases k)
    case (CInteger i)
    then show ?thesis
      by (simp add: kv Cons i64_try_from_def overwrite_def split: option.splits)
  qed (simp_all add: kv Cons split: option.splits)
qed

text \<open>
  In the attestation statement every \<open>x5c\<close> entry must be an array of byte strings, not just
  the last, and a \<open>receipt\<close> that is no byte string is passed over.
\<close>

definition x5c_entries_ok :: "cbor_map \<Rightarrow> bool" where
  "x5c_entries_ok m \<longleftrightarrow> list_all (\<lambda>(k, v). k = CText ''x5c'' \<longrightarrow> is_ok (x5c_certs v)) m"

fun last_bytes :: "cbor_value \<Rightarrow> cbor_map \<Rightarrow> bytes \<Rightarrow> bytes" where
  "last_bytes k [] old = old"
| "last_bytes k ((k', v) # m) old =
     last_bytes k m (if k' = k then (case cbor_as_bytes v of Some b \<Rightarrow> b | None \<Rightarrow> old) else old)"

lemma x5c_certs_Ok_iff: "x5c_certs v = Ok cs \<longleftrightarrow> v = CArray (map CBytes cs)"
proof -
  have "list_all2 (\<lambda>x y. x = CBytes y) arr cs \<longleftrightarrow> arr = map CBytes cs" for arr
    by (auto simp: list_all2_conv_all_nth list_eq_iff_nth_eq)
  then show ?thesis
    by (auto simp: x5c_certs_def result_simps collect_results_Ok_iff)
qed

lemma att_stmt_loop_Ok_iff [result_simps]:
  "att_stmt_loop m x rc = Ok r \<longleftrightarrow> text_keys m \<and> x5c_entries_ok m \<and>
     r = (overwrite x (\<lambda>v. case x5c_certs v of Ok cs \<Rightarrow> Some cs | _ \<Rightarrow> None)
            (last_value (CText ''x5c'') m),
          last_bytes (CText ''receipt'') m rc)"
proof (induction m arbitrary: x rc)
  case Nil
  then show ?case by (auto simp: x5c_entries_ok_def)
next
  case (Cons kv m)
  obtain k v where kv: "kv = (k, v)" by (cases kv)
  show ?case
  proof (cases k)
    case (CText s)
    then show ?thesis
      by (cases "x5c_certs v")
         (auto simp: kv Cons x5c_entries_ok_def result_simps split: option.splits)
  qed (auto simp: kv result_simps)
qed

lemma case_x5c_certs_Some_iff:
  "(case x5c_certs v of Ok cs \<Rightarrow> Some cs | _ \<Rightarrow> None) = Some cs \<longleftrightarrow> v = CArray (map CBytes cs)"
  by (simp add: x5c_certs_Ok_iff [symmetric] split: result.splits)

lemma top_level_loop_not_Panic [simp]: "top_level_loop m f a s \<noteq> Panic"
  by (induction m f a s rule: top_level_loop.induct) (auto simp: result_simps)

lemma assertion_loop_not_Panic [simp]: "assertion_loop m f a \<noteq> Panic"
  by (induction m f a rule: assertion_loop.induct) (auto simp: result_simps)

lemma x5c_certs_not_Panic [simp]: "x5c_certs v \<noteq> Panic"
  by (auto simp: x5c_certs_def result_simps dest: collect_results_Panic)

lemma att_stmt_loop_not_Panic [simp]: "att_stmt_loop m x r \<noteq> Panic"
  by (induction m x r rule: att_stmt_loop.induct) (auto simp: result_simps)

lemma decode_attestation_object_not_Panic [simp]: "decode_attestation_object X bs \<noteq> Panic"
  by (auto simp: decode_attestation_object_def result_simps split: prod.splits)

lemma extract_p256_pk_not_Panic [simp]: "extract_p256_pk X bs \<noteq> Panic"
  by (auto simp: extract_p256_pk_def cose_finish_def result_simps)

lemma decode_assertion_not_Panic [simp]: "decode_assertion X bs \<noteq> Panic"
  by (auto simp: decode_assertion_def result_simps split: prod.splits)

lemma decode_attestation_object_Ok_iff:
  "decode_attestation_object X bs = Ok st \<longleftrightarrow>
     (\<exists>m am. cbor_from_reader X bs = Inr (CMap m) \<and> text_keys m
        \<and> last_value (CText ''fmt'') m = Some (CText (st_fmt st))
        \<and> last_value (CText ''authData'') m = Some (CBytes (st_auth_data st))
        \<and> last_value (CText ''attStmt'') m = Some (CMap am)
        \<and> text_keys am \<and> x5c_entries_ok am
        \<and> last_value (CText ''x5c'') am = Some (CArray (map CBytes (st_x5c st)))
        \<and> st_receipt st = last_bytes (CText ''receipt'') am [])"
  by (cases st)
     (auto simp: decode_attestation_object_def result_simps case_x5c_certs_Some_iff
        split: prod.splits)

lemma as_i64_Some_iff: "as_i64 v = Some i \<longleftrightarrow> v = CInteger i \<and> - (2 ^ 63) \<le> i \<and> i < 2 ^ 63"
  by (auto simp: as_i64_def i64_try_from_def bind_eq_Some_conv split: if_splits)

lemma extract_p256_pk_Ok_iff:
  "extract_p256_pk X bs = Ok pk \<longleftrightarrow>
     (\<exists>m x y. cbor_from_reader X bs = Inr (CMap m)
        \<and> last_value (CInteger 1) m = Some (CInteger 2)
        \<and> last_value (CInteger 3) m = Some (CInteger (- 7))
        \<and> last_value (CInteger (- 1)) m = Some (CInteger 1)
        \<and> last_value (CInteger (- 2)) m = Some (CBytes x)
        \<and> last_value (CInteger (- 3)) m = Some (CBytes y)
        \<and> length x = 32 \<and> length y = 32 \<and> pk = 0x04 # x @ y)"
  by (auto simp: extract_p256_pk_def cose_finish_def cose_loop_eq cose_start_def result_simps
      as_i64_Some_iff)

lemma decode_assertion_Ok_iff:
  "decode_assertion X bs = Ok (sig, a) \<longleftrightarrow>
     (\<exists>m. cbor_from_reader X bs = Inr (CMap m) \<and> text_keys m
        \<and> last_value (CText ''signature'') m = Some (CBytes sig)
        \<and> last_value (CText ''authenticatorData'') m = Some (CBytes a))"
  by (auto simp: decode_assertion_def result_simps split: prod.splits)

section \<open>Properties\<close>

text \<open>
  Decoding an attestation object never panics and returns exactly what the last entry of
  each key says: the object is a CBOR map with text keys only, whose last \<open>fmt\<close> is a text,
  last \<open>authData\<close> a byte string and last \<open>attStmt\<close> a map with text keys; every \<open>x5c\<close> entry
  of that map is an array of byte strings and the last one is the certificate list; and the
  receipt is the last \<open>receipt\<close> entry that is a byte string, empty if there is none.
\<close>

lemma decode_attestation_object_accepts:
  "decode_attestation_object X bs \<noteq> Panic
   \<and> (decode_attestation_object X bs = Ok st \<longleftrightarrow>
      (\<exists>m am. cbor_from_reader X bs = Inr (CMap m) \<and> text_keys m
        \<and> last_value (CText ''fmt'') m = Some (CText (st_fmt st))
        \<and> last_value (CText ''authData'') m = Some (CBytes (st_auth_data st))
        \<and> last_value (CText ''attStmt'') m = Some (CMap am)
        \<and> text_keys am \<and> x5c_entries_ok am
        \<and> last_value (CText ''x5c'') am = Some (CArray (map CBytes (st_x5c st)))
        \<and> st_receipt st = last_bytes (CText ''receipt'') am []))"
  by (simp add: decode_attestation_object_Ok_iff)

text \<open>
  The COSE key decoder never panics and accepts exactly the maps whose last entries say an
  EC2 key for ES256 on P-256 with two 32-byte coordinates, skipping keys that are no integer
  or do not fit 64 bits; the key it returns is the 65-byte uncompressed point.
\<close>

lemma extract_p256_pk_accepts:
  "extract_p256_pk X bs \<noteq> Panic
   \<and> (extract_p256_pk X bs = Ok pk \<longleftrightarrow>
      (\<exists>m x y. cbor_from_reader X bs = Inr (CMap m)
        \<and> last_value (CInteger 1) m = Some (CInteger 2)
        \<and> last_value (CInteger 3) m = Some (CInteger (- 7))
        \<and> last_value (CInteger (- 1)) m = Some (CInteger 1)
        \<and> last_value (CInteger (- 2)) m = Some (CBytes x)
        \<and> last_value (CInteger (- 3)) m = Some (CBytes y)
        \<and> length x = 32 \<and> length y = 32
        \<and> pk = 0x04 # x @ y \<and> length pk = 65))"
  by (auto simp: extract_p256_pk_Ok_iff)

end
