(* ===== verification/X509.thy ===== *)
theory X509
  imports Crates
begin

text \<open>
  The certificate checks that \<open>attest-apple\<close> and \<open>attest-android\<close> both carry in their
  \<open>roots.rs\<close>, line by line the same up to the error type: the validity window, the CA flag,
  and a signature check per key type. They are written once here over the two error
  constructors they use (\<open>der\<close> for a malformed input, \<open>untrusted\<close> for a signature that
  does not verify) and instantiated in \<open>Apple_Roots\<close> and \<open>Android_Roots\<close>. The locale
  \<open>chain_validator\<close> states what both chain validators promise their callers.
\<close>

section \<open>Object identifiers\<close>

definition OID_SECP256R1 :: oid where "OID_SECP256R1 = [1, 2, 840, 10045, 3, 1, 7]"
definition OID_SECP384R1 :: oid where "OID_SECP384R1 = [1, 3, 132, 0, 34]"
definition OID_ECDSA_SHA256 :: oid where "OID_ECDSA_SHA256 = [1, 2, 840, 10045, 4, 3, 2]"
definition OID_ECDSA_SHA384 :: oid where "OID_ECDSA_SHA384 = [1, 2, 840, 10045, 4, 3, 3]"
definition OID_BASIC_CONSTRAINTS :: oid where "OID_BASIC_CONSTRAINTS = [2, 5, 29, 19]"

lemmas oid_defs = OID_SECP256R1_def OID_SECP384R1_def OID_ECDSA_SHA256_def OID_ECDSA_SHA384_def
  OID_BASIC_CONSTRAINTS_def

section \<open>Validity window\<close>

fun unix_secs :: "x509_time \<Rightarrow> u64" where
  "unix_secs (UtcTime v) = v"
| "unix_secs (GeneralTime v) = v"

text \<open>
  A \<open>SystemTime\<close> is its milliseconds since the epoch. \<open>UNIX_EPOCH + Duration::from_secs(s)\<close>
  panics when \<open>s\<close> does not fit the signed 64-bit seconds of the platform's clock.
\<close>

definition system_time_from_secs :: "u64 \<Rightarrow> (nat, 'e) result" where
  "system_time_from_secs s = (if unat s < 2 ^ 63 then Ok (unat s * 1000) else Panic)"

definition check_validity_with ::
    "(string \<Rightarrow> 'e) \<Rightarrow> certificate \<Rightarrow> u64 \<Rightarrow> (unit, 'e) result" where
  "check_validity_with der cert now_ms =
     and_then (system_time_from_secs (unix_secs (not_before (tbs cert)))) (\<lambda>nb.
     and_then (system_time_from_secs (unix_secs (not_after (tbs cert)))) (\<lambda>na.
     let now = unat now_ms in
     if now < nb then Err (der ''cert not yet valid (notBefore in future)'')
     else if now > na then Err (der ''cert expired (notAfter in past)'')
     else Ok ()))"

definition times_representable :: "certificate \<Rightarrow> bool" where
  "times_representable cert \<longleftrightarrow>
     unat (unix_secs (not_before (tbs cert))) < 2 ^ 63
     \<and> unat (unix_secs (not_after (tbs cert))) < 2 ^ 63"

definition valid_at :: "certificate \<Rightarrow> u64 \<Rightarrow> bool" where
  "valid_at cert now_ms \<longleftrightarrow> times_representable cert
     \<and> unat (unix_secs (not_before (tbs cert))) * 1000 \<le> unat now_ms
     \<and> unat now_ms \<le> unat (unix_secs (not_after (tbs cert))) * 1000"

lemma check_validity_Ok_iff [result_simps]:
  "check_validity_with der cert t = Ok u \<longleftrightarrow> valid_at cert t"
  by (auto simp: check_validity_with_def valid_at_def times_representable_def
      system_time_from_secs_def Let_def)

lemma check_validity_Panic_iff [result_simps]:
  "check_validity_with der cert t = Panic \<longleftrightarrow> \<not> times_representable cert"
  by (auto simp: check_validity_with_def times_representable_def
      system_time_from_secs_def Let_def)

text \<open>
  The parser of \<open>x509-cert\<close> accepts dates up to the end of the year 9999 only, so the times
  of a parsed certificate always fit. This is the fact the absence of panics rests on.
\<close>

definition crate_times_ok :: "crates \<Rightarrow> bool" where
  "crate_times_ok X \<longleftrightarrow> (\<forall>d c. certificate_from_der X d = Inr c \<longrightarrow> times_representable c)"

section \<open>CA flag\<close>

definition find_extension :: "oid \<Rightarrow> certificate \<Rightarrow> extension option" where
  "find_extension oid cert =
     Option.bind (extensions (tbs cert)) (\<lambda>exts. find (\<lambda>e. extn_id e = oid) exts)"

definition check_is_ca_with ::
    "(string \<Rightarrow> 'e) \<Rightarrow> crates \<Rightarrow> certificate \<Rightarrow> (unit, 'e) result" where
  "check_is_ca_with der X cert =
     and_then (ok_or (der ''missing BasicConstraints on CA cert'')
                (find_extension OID_BASIC_CONSTRAINTS cert)) (\<lambda>ext.
     and_then (map_err (\<lambda>e. der (''BasicConstraints parse: '' @ e))
                (basic_constraints_from_der X (extn_value ext))) (\<lambda>ca.
     if \<not> ca then Err (der ''BasicConstraints CA flag is false'') else Ok ()))"

definition is_ca :: "crates \<Rightarrow> certificate \<Rightarrow> bool" where
  "is_ca X cert \<longleftrightarrow> (case find_extension OID_BASIC_CONSTRAINTS cert of
     None \<Rightarrow> False
   | Some ext \<Rightarrow> basic_constraints_from_der X (extn_value ext) = Inr True)"

lemma check_is_ca_Ok_iff [result_simps]: "check_is_ca_with der X cert = Ok u \<longleftrightarrow> is_ca X cert"
  by (auto simp: check_is_ca_with_def is_ca_def result_simps split: option.splits)

lemma check_is_ca_not_Panic [simp]: "check_is_ca_with der X cert \<noteq> Panic"
  by (auto simp: check_is_ca_with_def result_simps)

section \<open>Signatures\<close>

text \<open>
  The three steps every signature check has: parse the key, parse the signature, verify.
  The names in the messages tell the key types apart.
\<close>

definition verify_steps :: "(string \<Rightarrow> 'e) \<Rightarrow> 'e \<Rightarrow> string \<Rightarrow> string \<Rightarrow> string + 'k \<Rightarrow> string + 's
    \<Rightarrow> ('k \<Rightarrow> 's \<Rightarrow> bool) \<Rightarrow> (unit, 'e) result" where
  "verify_steps der untrusted key_msg sig_msg key sig verify =
     and_then (map_err (\<lambda>e. der (key_msg @ e)) key) (\<lambda>k.
     and_then (map_err (\<lambda>e. der (sig_msg @ e)) sig) (\<lambda>s.
     if verify k s then Ok () else Err untrusted))"

definition verify_p256_with ::
    "(string \<Rightarrow> 'e) \<Rightarrow> 'e \<Rightarrow> crates \<Rightarrow> bytes \<Rightarrow> bytes \<Rightarrow> bytes \<Rightarrow> (unit, 'e) result" where
  "verify_p256_with der untrusted X pk msg sig =
     verify_steps der untrusted ''p256 verifying key: '' ''p256 sig decode: ''
       (p256_key_from_sec1 X pk) (p256_signature_from_der X sig)
       (\<lambda>key s. p256_verify X key msg s)"

definition verify_p384_with ::
    "(string \<Rightarrow> 'e) \<Rightarrow> 'e \<Rightarrow> crates \<Rightarrow> bytes \<Rightarrow> bytes \<Rightarrow> bytes \<Rightarrow> (unit, 'e) result" where
  "verify_p384_with der untrusted X pk msg sig =
     verify_steps der untrusted ''p384 verifying key: '' ''p384 sig decode: ''
       (p384_key_from_sec1 X pk) (p384_signature_from_der X sig)
       (\<lambda>key s. p384_verify X key msg s)"

definition verify_p384_sha256_with ::
    "(string \<Rightarrow> 'e) \<Rightarrow> 'e \<Rightarrow> crates \<Rightarrow> bytes \<Rightarrow> bytes \<Rightarrow> bytes \<Rightarrow> (unit, 'e) result" where
  "verify_p384_sha256_with der untrusted X pk msg sig =
     verify_steps der untrusted ''p384 verifying key: '' ''p384 sig decode: ''
       (p384_key_from_sec1 X pk) (p384_signature_from_der X sig)
       (\<lambda>key s. p384_verify_prehash X key (sha256 X msg) s)"

lemma verify_steps_Ok_iff [result_simps]:
  "verify_steps der un km sm key sig v = Ok u \<longleftrightarrow> (\<exists>k s. key = Inr k \<and> sig = Inr s \<and> v k s)"
  by (auto simp: verify_steps_def result_simps split: if_splits)

lemma verify_steps_not_Panic [simp]: "verify_steps der un km sm key sig v \<noteq> Panic"
  by (auto simp: verify_steps_def result_simps split: if_splits)

lemmas verify_with_defs = verify_p256_with_def verify_p384_with_def verify_p384_sha256_with_def

text \<open>Which signatures the elliptic-curve checks accept, without the error paths.\<close>

definition ec_signature_ok :: "crates \<Rightarrow> oid \<Rightarrow> oid \<Rightarrow> bytes \<Rightarrow> bytes \<Rightarrow> bytes \<Rightarrow> bool" where
  "ec_signature_ok X curve alg pk msg sig \<longleftrightarrow>
     (curve = OID_SECP256R1 \<and> alg = OID_ECDSA_SHA256
        \<and> (\<exists>k s. p256_key_from_sec1 X pk = Inr k \<and> p256_signature_from_der X sig = Inr s
              \<and> p256_verify X k msg s))
     \<or> (curve = OID_SECP384R1
        \<and> (\<exists>k s. p384_key_from_sec1 X pk = Inr k \<and> p384_signature_from_der X sig = Inr s
              \<and> (alg = OID_ECDSA_SHA384 \<and> p384_verify X k msg s
                 \<or> alg = OID_ECDSA_SHA256 \<and> p384_verify_prehash X k (sha256 X msg) s)))"

section \<open>Walking a chain\<close>

text \<open>The encoded chain is parsed certificate by certificate, up to the first failure.\<close>

definition parse_chain_with ::
    "(string \<Rightarrow> 'e) \<Rightarrow> crates \<Rightarrow> bytes list \<Rightarrow> (certificate list, 'e) result" where
  "parse_chain_with der X chain =
     collect_results
       (\<lambda>c. map_err (\<lambda>e. der (''cert parse: '' @ e)) (certificate_from_der X c)) chain"

text \<open>\<open>for i in 0..certs.len().saturating_sub(1) { verify(&certs[i], &certs[i + 1])?; }\<close>\<close>

definition check_inner_chain ::
    "(certificate \<Rightarrow> certificate \<Rightarrow> (unit, 'e) result) \<Rightarrow> certificate list \<Rightarrow> (unit, 'e) result" where
  "check_inner_chain verify certs =
     for_each (\<lambda>i. and_then (index certs i) (\<lambda>cert.
                    and_then (index certs (i + 1)) (\<lambda>issuer. verify cert issuer)))
       [0..<length certs - 1]"

definition parse_cert :: "crates \<Rightarrow> bytes \<Rightarrow> certificate option" where
  "parse_cert X d = (case certificate_from_der X d of Inl e \<Rightarrow> None | Inr c \<Rightarrow> Some c)"

lemma parse_cert_Some_iff [simp]: "parse_cert X d = Some c \<longleftrightarrow> certificate_from_der X d = Inr c"
  by (simp add: parse_cert_def split: sum.split)

lemma parse_chain_Ok_iff:
  "parse_chain_with der X chain = Ok certs \<longleftrightarrow>
     list_all2 (\<lambda>d c. parse_cert X d = Some c) chain certs"
  by (simp add: parse_chain_with_def collect_results_Ok_iff map_err_Ok_iff)

lemma parse_chain_not_Panic [simp]: "parse_chain_with der X chain \<noteq> Panic"
  by (auto simp: parse_chain_with_def dest: collect_results_Panic)

lemma parse_chain_nonempty:
  "parse_chain_with der X chain = Ok certs \<Longrightarrow> chain \<noteq> [] \<Longrightarrow> certs \<noteq> []"
  by (auto simp: parse_chain_Ok_iff)

lemma parse_chain_times:
  "parse_chain_with der X chain = Ok certs \<Longrightarrow> crate_times_ok X \<Longrightarrow> c \<in> set certs
   \<Longrightarrow> times_representable c"
  by (auto simp: parse_chain_Ok_iff crate_times_ok_def list_all2_conv_all_nth in_set_conv_nth)

text \<open>The loop over the indices is the relation between neighbours.\<close>

lemma neighbours_iff:
  "(\<forall>i \<in> {0..<length xs - 1}. R (xs ! i) (xs ! (i + 1))) \<longleftrightarrow> successively R xs"
proof (induction xs rule: induct_list012)
  case (3 x y zs)
  have "(\<forall>i \<in> {0..<length (x # y # zs) - 1}. R ((x # y # zs) ! i) ((x # y # zs) ! (i + 1)))
      \<longleftrightarrow> R x y \<and> (\<forall>i \<in> {0..<length (y # zs) - 1}. R ((y # zs) ! i) ((y # zs) ! (i + 1)))"
    by (simp add: Ball_def All_less_Suc2)
  with 3 show ?case by simp
qed simp_all

lemma inner_chain_Ok_iff:
  "check_inner_chain f certs = Ok u \<longleftrightarrow> successively (\<lambda>a b. f a b = Ok ()) certs"
proof -
  have "(\<forall>i \<in> {0..<length certs - 1}.
           and_then (index certs i) (\<lambda>a. and_then (index certs (i + 1)) (\<lambda>b. f a b)) = Ok ())
      \<longleftrightarrow> (\<forall>i \<in> {0..<length certs - 1}. f (certs ! i) (certs ! (i + 1)) = Ok ())"
    by (rule ball_cong) (auto simp: index_def)
  then show ?thesis
    by (simp only: check_inner_chain_def for_each_Ok_iff set_upt
        neighbours_iff [of certs "\<lambda>a b. f a b = Ok ()"])
qed

lemma inner_chain_Panic: "check_inner_chain f certs = Panic \<Longrightarrow> \<exists>a b. f a b = Panic"
  unfolding check_inner_chain_def by (drule for_each_Panic) (auto simp: result_simps)

lemma get_last [result_simps]:
  "get xs (length xs - Suc 0) = Some x \<longleftrightarrow> xs \<noteq> [] \<and> x = last xs"
  by (cases "xs = []") (auto simp: get_def last_conv_nth)

lemma get_first [result_simps]: "get xs 0 = Some x \<longleftrightarrow> xs \<noteq> [] \<and> x = hd xs"
  by (auto simp: get_def hd_conv_nth)

lemma get_last_None: "get xs (length xs - Suc 0) = None \<longleftrightarrow> xs = []"
  by (cases xs) (auto simp: get_def)

lemma get_first_None: "get xs 0 = None \<longleftrightarrow> xs = []"
  by (auto simp: get_def)

lemma list_all2_same_Nil: "list_all2 P xs ys \<Longrightarrow> xs \<noteq> [] \<longleftrightarrow> ys \<noteq> []"
  by (auto dest: list_all2_lengthD)

section \<open>What a chain validator promises\<close>

text \<open>
  \<open>validate\<close> takes the encoded chain, leaf first, and the clock. When it accepts, it returns
  the parsed first certificate; every certificate parsed and is inside its validity window;
  each is signed by the next; and the last one is anchored in the trust store.
\<close>

locale chain_validator =
  fixes validate :: "bytes list \<Rightarrow> u64 \<Rightarrow> (certificate, 'e) result"
    and parse :: "bytes \<Rightarrow> certificate option"
    and signed_by :: "certificate \<Rightarrow> certificate \<Rightarrow> bool"
    and anchored :: "certificate \<Rightarrow> u64 \<Rightarrow> bool"
  assumes validate_sound: "validate chain t = Ok leaf \<Longrightarrow>
      \<exists>certs. list_all2 (\<lambda>d c. parse d = Some c) chain certs \<and> certs \<noteq> [] \<and> leaf = hd certs
        \<and> (\<forall>c \<in> set certs. valid_at c t) \<and> successively signed_by certs
        \<and> anchored (last certs) t"
begin

lemma leaf_is_first:
  assumes "validate chain t = Ok leaf"
  shows "chain \<noteq> [] \<and> parse (hd chain) = Some leaf"
  using validate_sound [OF assms] by (auto simp: list_all2_Cons2 neq_Nil_conv)

lemma leaf_valid: "validate chain t = Ok leaf \<Longrightarrow> valid_at leaf t"
  by (auto dest: validate_sound)

text \<open>No chain with a certificate outside its validity window is accepted.\<close>

lemma outdated_rejected:
  assumes "d \<in> set chain" "parse d = Some c" "\<not> valid_at c t"
  shows "validate chain t \<noteq> Ok leaf"
proof
  assume "validate chain t = Ok leaf"
  from validate_sound [OF this] obtain certs where "list_all2 (\<lambda>d c. parse d = Some c) chain certs"
    "\<forall>c \<in> set certs. valid_at c t" by blast
  with assms show False by (fastforce simp: list_all2_conv_all_nth in_set_conv_nth)
qed

text \<open>From the leaf, issuer by issuer, to a certificate of the trust store.\<close>

lemma successively_path: "successively R xs \<Longrightarrow> xs \<noteq> [] \<Longrightarrow> R\<^sup>*\<^sup>* (hd xs) (last xs)"
proof (induction xs)
  case Nil
  then show ?case by simp
next
  case (Cons x xs)
  show ?case
  proof (cases xs)
    case Nil
    then show ?thesis by simp
  next
    case (Cons y ys)
    with Cons.prems Cons.IH have "R x y" "R\<^sup>*\<^sup>* y (last xs)" by auto
    with Cons show ?thesis by (simp add: converse_rtranclp_into_rtranclp)
  qed
qed

lemma trust_path:
  assumes "validate chain t = Ok leaf"
  shows "\<exists>top. signed_by\<^sup>*\<^sup>* leaf top \<and> anchored top t"
  using validate_sound [OF assms] successively_path by blast

end

end
