(* ===== verification/Sample.thy ===== *)
theory Sample
  imports X509 Apple_Cbor
begin

text \<open>
  A concrete instance of the crates, small enough to be evaluated by the simplifier, on which
  the theorems with hypotheses are exercised. The hash pads or cuts its input to 32 bytes, a
  signature is the key followed by the message, and certificates and CBOR objects are decoded
  from one-byte names. The DER functions read real DER with short lengths.
\<close>

section \<open>DER with short lengths\<close>

fun tag_of_byte :: "u8 \<Rightarrow> der_tag" where
  "tag_of_byte b =
     (if b = 0x01 then TBoolean else if b = 0x02 then TInteger else if b = 0x04 then TOctetString
      else if b = 0x0A then TEnumerated else if b = 0x30 then TSequence
      else if b = 0x31 then TSet else TOther b)"

fun sample_header :: "bytes \<Rightarrow> der_error + (der_header \<times> bytes)" where
  "sample_header (t # l # rest) =
     (if l < 128 then Inr (\<lparr>header_tag = tag_of_byte t, header_length = unat l\<rparr>, rest)
      else Inl Overflow)"
| "sample_header _ = Inl Overflow"

definition sample_slice :: "bytes \<Rightarrow> nat \<Rightarrow> der_error + (bytes \<times> bytes)" where
  "sample_slice bs n = (if n \<le> length bs then Inr (take n bs, drop n bs) else Inl Overflow)"

definition sample_tagged :: "der_tag \<Rightarrow> bytes \<Rightarrow> der_error + (bytes \<times> bytes)" where
  "sample_tagged tag bs =
     (case sample_header bs of
        Inl e \<Rightarrow> Inl e
      | Inr (h, rest) \<Rightarrow>
          if header_tag h = tag then sample_slice rest (header_length h)
          else Inl (TagUnexpected tag (header_tag h)))"

definition sample_bool :: "bytes \<Rightarrow> der_error + (bool \<times> bytes)" where
  "sample_bool bs =
     (case sample_tagged TBoolean bs of
        Inl e \<Rightarrow> Inl e
      | Inr (content, rest) \<Rightarrow>
          if content = [0xFF] then Inr (True, rest)
          else if content = [0x00] then Inr (False, rest) else Inl (ValueError TBoolean))"

section \<open>Certificates and CBOR objects by name\<close>

definition sample_hash :: "bytes \<Rightarrow> bytes" where
  "sample_hash m = take 32 (m @ replicate 32 0)"

definition sample_cert ::
    "u8 \<Rightarrow> bytes \<Rightarrow> extension list \<Rightarrow> bytes \<Rightarrow> bytes \<Rightarrow> certificate" where
  "sample_cert serial key exts issuer_key unread =
     \<lparr>tbs = \<lparr>serial_number = [serial], not_before = UtcTime 1, not_after = GeneralTime 1000,
             public_key_info = \<lparr>algorithm_oid = [1, 2, 840, 10045, 2, 1],
               algorithm_parameters = Some [1], subject_public_key = (0, key)\<rparr>,
             extensions = Some exts, tbs_rest = unread\<rparr>,
      signature_algorithm_oid = OID_ECDSA_SHA256,
      signature = (0, issuer_key @ [serial])\<rparr>"

definition ca_extension :: extension where
  "ca_extension = \<lparr>extn_id = OID_BASIC_CONSTRAINTS, extn_value = [1]\<rparr>"

definition sample_root :: certificate where
  "sample_root = sample_cert 20 [50] [ca_extension] [50] []"

definition sample_intermediate :: certificate where
  "sample_intermediate = sample_cert 21 [51] [ca_extension] [50] []"

definition sample_plain :: certificate where
  "sample_plain = sample_cert 22 [52] [] [51] []"

definition sample_odd_serial :: certificate where
  "sample_odd_serial = sample_cert 10 [56] [] [51] []"

definition sample_rp :: bytes where
  "sample_rp = sample_hash (as_bytes ''app'')"

definition sample_auth_data :: bytes where
  "sample_auth_data = sample_rp @ [0x40, 0, 0, 0, 0] @ as_bytes ''appattestdevelop'' @ [0, 1, 7, 2]"

definition sample_apple_leaf :: certificate where
  "sample_apple_leaf = sample_cert 23 [53]
     [\<lparr>extn_id = [1, 2, 840, 113635, 100, 8, 2], extn_value = sample_rp\<rparr>] [51] []"

definition sample_android_leaf :: certificate where
  "sample_android_leaf = sample_cert 24 [54]
     [\<lparr>extn_id = [1, 3, 6, 1, 4, 1, 11129, 2, 1, 17],
       extn_value = [0x30, 24, 2, 1, 3, 10, 1, 1, 2, 1, 4, 10, 1, 1, 4, 1, 9, 4, 0,
                     0x30, 0, 0x30, 3, 0x82, 1, 0]\<rparr>] [51] []"

fun sample_certificate :: "bytes \<Rightarrow> string + certificate" where
  "sample_certificate [n] =
     (if n = 10 then Inr sample_odd_serial else if n = 20 then Inr sample_root else if n = 21 then Inr sample_intermediate
      else if n = 22 then Inr sample_plain else if n = 23 then Inr sample_apple_leaf
      else if n = 24 then Inr sample_android_leaf
      else if n = 25 then Inr (sample_cert 25 [55] [] [52] [])
      else Inl ''unknown certificate'')"
| "sample_certificate _ = Inl ''unknown certificate''"

fun sample_cbor :: "bytes \<Rightarrow> string + cbor_value" where
  "sample_cbor [n] =
     (if n = 1 then Inr (CMap [(CText ''fmt'', CText ''apple-appattest''),
                               (CText ''authData'', CBytes sample_auth_data),
                               (CText ''attStmt'',
                                 CMap [(CText ''x5c'', CArray [CBytes [23], CBytes [21]])])])
      else if n = 2 then Inr (CMap [(CInteger 1, CInteger 2), (CInteger 3, CInteger (- 7)),
                                    (CInteger (- 1), CInteger 1),
                                    (CInteger (- 2), CBytes (replicate 32 8)),
                                    (CInteger (- 3), CBytes (replicate 32 9))])
      else if n = 3 then Inr (CMap [(CText ''signature'',
                                      CBytes (60 # sample_hash (sample_rp @ [0, 0, 0, 0, 1] @ sample_hash [5]))),
                                    (CText ''authenticatorData'', CBytes (sample_rp @ [0, 0, 0, 0, 1]))])
      else Inl ''unknown object'')"
| "sample_cbor _ = Inl ''unknown object''"

definition sample_crates :: crates where
  "sample_crates =
     \<lparr>sha256 = sample_hash,
      cbor_from_reader = sample_cbor,
      certificate_from_der = sample_certificate,
      certificate_to_der = (\<lambda>c. Inr (serial_number (tbs c) @ tbs_rest (tbs c))),
      tbs_to_der = (\<lambda>t. Inr (serial_number t)),
      spki_to_der = (\<lambda>s. Inr (0x30 # snd (subject_public_key s))),
      any_as_oid = (\<lambda>a. if a = [1] then Inr OID_SECP256R1 else Inl ''not an OID''),
      bit_string_as_bytes = (\<lambda>(unused, bs). if unused = 0 then Some bs else None),
      basic_constraints_from_der = (\<lambda>b. Inr (b = [1])),
      nonce_extension_from_der = Inr,
      p256_key_from_sec1 = (\<lambda>k. if k = [] then Inl ''empty key'' else Inr k),
      p256_signature_from_der = Inr,
      p256_verify = (\<lambda>k m s. s = k @ m),
      p256_verify_prehash = (\<lambda>k m s. s = k @ m),
      p384_key_from_sec1 = Inr,
      p384_signature_from_der = Inr,
      p384_verify = (\<lambda>k m s. s = k @ m),
      p384_verify_prehash = (\<lambda>k m s. s = k @ m),
      rsa_key_from_pkcs1 = Inr,
      rsa_signature_from_bytes = Inr,
      rsa_verify_sha256 = (\<lambda>k m s. s = k @ m),
      slice_reader_new = Inr,
      der_peek_header = (\<lambda>bs. case sample_header bs of Inl e \<Rightarrow> Inl e | Inr (h, _) \<Rightarrow> Inr h),
      der_decode_header = sample_header,
      der_read_slice = sample_slice,
      der_is_finished = (\<lambda>bs. bs = []),
      der_decode_int = sample_tagged TInteger,
      der_decode_octet_string = sample_tagged TOctetString,
      der_decode_bool = sample_bool,
      der_display = (\<lambda>e. ''DER error''),
      tag_debug = (\<lambda>t. ''tag''),
      oid_display = (\<lambda>oid. ''oid'')\<rparr>"

lemma sample_certificate_Inr:
  "sample_certificate d = Inr c \<Longrightarrow>
     c \<in> {sample_odd_serial, sample_root, sample_intermediate, sample_plain, sample_apple_leaf, sample_android_leaf,
          sample_cert 25 [55] [] [52] []}"
  by (cases d rule: sample_certificate.cases) (auto split: if_splits)

lemma sample_times_ok: "crate_times_ok sample_crates"
  by (auto simp: crate_times_ok_def sample_crates_def times_representable_def sample_root_def
      sample_odd_serial_def
      sample_intermediate_def sample_plain_def sample_apple_leaf_def sample_android_leaf_def
      sample_cert_def dest!: sample_certificate_Inr)

lemma sample_rp_eq:
  "sample_rp = [97, 112, 112, 0, 0, 0, 0, 0, 0, 0, 0, 0, 0, 0, 0, 0,
                0, 0, 0, 0, 0, 0, 0, 0, 0, 0, 0, 0, 0, 0, 0, 0]"
  by (simp add: sample_rp_def sample_hash_def as_bytes_def replicate_numeral)

lemmas sample_cert_defs = sample_odd_serial_def sample_root_def sample_intermediate_def sample_plain_def
  sample_apple_leaf_def sample_android_leaf_def sample_cert_def ca_extension_def

end
