(* ===== verification/Apple_Roots.thy ===== *)
theory Apple_Roots
  imports Apple_Errors X509 Sample
begin

text \<open>
  Trust root and chain validation of \<open>attest-apple\<close> (\<open>rust/attest-apple/src/roots.rs\<close>) and
  the nonce extension of the leaf (\<open>oids.rs\<close>). The pinned root is a file of the repository's
  assets, so its bytes are an argument of the validator. The main lemma says exactly which
  chains are accepted; the interpretation \<open>apple_chain\<close> gives callers the contract
  \<open>chain_validator\<close>.
\<close>

section \<open>The checks\<close>

definition apple_check_validity :: "certificate \<Rightarrow> u64 \<Rightarrow> (unit, apple_error) result" where
  "apple_check_validity cert now_ms = check_validity_with Der cert now_ms"

definition apple_check_is_ca :: "crates \<Rightarrow> certificate \<Rightarrow> (unit, apple_error) result" where
  "apple_check_is_ca X cert = check_is_ca_with Der X cert"

definition apple_verify_p256 ::
    "crates \<Rightarrow> bytes \<Rightarrow> bytes \<Rightarrow> bytes \<Rightarrow> (unit, apple_error) result" where
  "apple_verify_p256 X pk msg sig = verify_p256_with Der UntrustedChain X pk msg sig"

definition apple_verify_p384 ::
    "crates \<Rightarrow> bytes \<Rightarrow> bytes \<Rightarrow> bytes \<Rightarrow> (unit, apple_error) result" where
  "apple_verify_p384 X pk msg sig = verify_p384_with Der UntrustedChain X pk msg sig"

definition apple_verify_p384_sha256 ::
    "crates \<Rightarrow> bytes \<Rightarrow> bytes \<Rightarrow> bytes \<Rightarrow> (unit, apple_error) result" where
  "apple_verify_p384_sha256 X pk msg sig = verify_p384_sha256_with Der UntrustedChain X pk msg sig"

definition apple_verify_signature ::
    "crates \<Rightarrow> certificate \<Rightarrow> certificate \<Rightarrow> (unit, apple_error) result" where
  "apple_verify_signature X cert issuer =
     (let issuer_spki = public_key_info (tbs issuer) in
      and_then (ok_or (Der ''issuer public key not byte-aligned'')
                 (bit_string_as_bytes X (subject_public_key issuer_spki))) (\<lambda>issuer_pk_bytes.
      and_then (ok_or (Der ''issuer SPKI missing named-curve parameter'')
                 (Option.bind (algorithm_parameters issuer_spki)
                   (\<lambda>any. case any_as_oid X any of Inl e \<Rightarrow> None | Inr oid \<Rightarrow> Some oid))) (\<lambda>curve_oid.
      let sig_alg_oid = signature_algorithm_oid cert in
      and_then (map_err (\<lambda>e. Der (''tbs encode: '' @ e)) (tbs_to_der X (tbs cert))) (\<lambda>tbs_bytes.
      and_then (ok_or (Der ''signature not byte-aligned'')
                 (bit_string_as_bytes X (signature cert))) (\<lambda>sig_bytes.
      if curve_oid = OID_SECP256R1 \<and> sig_alg_oid = OID_ECDSA_SHA256
        then apple_verify_p256 X issuer_pk_bytes tbs_bytes sig_bytes
      else if curve_oid = OID_SECP384R1 \<and> sig_alg_oid = OID_ECDSA_SHA384
        then apple_verify_p384 X issuer_pk_bytes tbs_bytes sig_bytes
      else if curve_oid = OID_SECP384R1 \<and> sig_alg_oid = OID_ECDSA_SHA256
        then apple_verify_p384_sha256 X issuer_pk_bytes tbs_bytes sig_bytes
      else Err (Der (''unsupported curve/sig combination: curve='' @ oid_display X curve_oid
                     @ '' sig='' @ oid_display X sig_alg_oid)))))))"

definition apple_validate_x5c_chain ::
    "crates \<Rightarrow> bytes \<Rightarrow> bytes list \<Rightarrow> u64 \<Rightarrow> (certificate, apple_error) result" where
  "apple_validate_x5c_chain X root_der x5c clock_ms =
     (if x5c = [] then Err EmptyX5c else
      and_then (parse_chain_with Der X x5c) (\<lambda>certs.
      and_then (for_each (\<lambda>cert. apple_check_validity cert clock_ms) certs) (\<lambda>_.
      and_then (for_each (\<lambda>cert. apple_check_is_ca X cert) (drop 1 certs)) (\<lambda>_.
      and_then (check_inner_chain (apple_verify_signature X) certs) (\<lambda>_.
      and_then (map_err (\<lambda>e. Der (''pinned root parse: '' @ e))
                 (certificate_from_der X root_der)) (\<lambda>root.
      and_then (apple_check_validity root clock_ms) (\<lambda>_.
      and_then (apple_check_is_ca X root) (\<lambda>_.
      and_then (expect (get certs (length certs - 1))) (\<lambda>top.
      and_then (apple_verify_signature X top root) (\<lambda>_.
      expect (get certs 0)))))))))))"

definition APPLE_NONCE_EXTENSION :: oid where
  "APPLE_NONCE_EXTENSION = [1, 2, 840, 113635, 100, 8, 2]"

definition extract_nonce_extension ::
    "crates \<Rightarrow> certificate \<Rightarrow> (bytes, apple_error) result" where
  "extract_nonce_extension X cert =
     and_then (ok_or MissingNonceExtension (extensions (tbs cert))) (\<lambda>exts.
     and_then (ok_or MissingNonceExtension (find (\<lambda>e. extn_id e = APPLE_NONCE_EXTENSION) exts)) (\<lambda>ext.
     and_then (map_err (\<lambda>e. Der (''nonce extension: '' @ e))
                (nonce_extension_from_der X (extn_value ext))) (\<lambda>bs.
     if length bs \<noteq> 32 then Err (Der (''nonce must be 32 bytes, got '' @ show_nat (length bs)))
     else to_array 32 bs)))"

section \<open>What is accepted\<close>

text \<open>
  The signature of \<open>cert\<close> verifies under the public key of \<open>issuer\<close> with one of the three
  supported pairs of curve and algorithm.
\<close>

definition apple_signed_by :: "crates \<Rightarrow> certificate \<Rightarrow> certificate \<Rightarrow> bool" where
  "apple_signed_by X cert issuer \<longleftrightarrow>
     (\<exists>pk params curve msg sig.
        bit_string_as_bytes X (subject_public_key (public_key_info (tbs issuer))) = Some pk
        \<and> algorithm_parameters (public_key_info (tbs issuer)) = Some params
        \<and> any_as_oid X params = Inr curve
        \<and> tbs_to_der X (tbs cert) = Inr msg
        \<and> bit_string_as_bytes X (signature cert) = Some sig
        \<and> ec_signature_ok X curve (signature_algorithm_oid cert) pk msg sig)"

definition apple_anchored :: "crates \<Rightarrow> bytes \<Rightarrow> certificate \<Rightarrow> u64 \<Rightarrow> bool" where
  "apple_anchored X root_der cert t \<longleftrightarrow>
     (\<exists>root. certificate_from_der X root_der = Inr root \<and> valid_at root t \<and> is_ca X root
        \<and> apple_signed_by X cert root)"

lemma curves_differ: "OID_SECP256R1 \<noteq> OID_SECP384R1" "OID_ECDSA_SHA256 \<noteq> OID_ECDSA_SHA384"
  by (simp_all add: oid_defs)

lemma apple_verify_signature_Ok_iff [result_simps]:
  "apple_verify_signature X cert issuer = Ok u \<longleftrightarrow> apple_signed_by X cert issuer"
proof -
  let ?pk = "bit_string_as_bytes X (subject_public_key (public_key_info (tbs issuer)))"
  let ?params = "algorithm_parameters (public_key_info (tbs issuer))"
  let ?sig = "bit_string_as_bytes X (signature cert)"
  show ?thesis
    using curves_differ curves_differ [symmetric]
    by (cases ?pk; cases ?params; cases "any_as_oid X (the ?params)"; cases "tbs_to_der X (tbs cert)"; cases ?sig)
       (auto simp: apple_verify_signature_def apple_signed_by_def ec_signature_ok_def Let_def
         apple_verify_p256_def apple_verify_p384_def apple_verify_p384_sha256_def verify_with_defs
         result_simps)
qed

lemma apple_verify_signature_not_Panic [simp]: "apple_verify_signature X cert issuer \<noteq> Panic"
  by (auto simp: apple_verify_signature_def Let_def apple_verify_p256_def apple_verify_p384_def
      apple_verify_p384_sha256_def verify_with_defs result_simps split: if_splits)

text \<open>The declarative statement of an acceptable chain.\<close>

definition apple_chain_ok :: "crates \<Rightarrow> bytes \<Rightarrow> bytes list \<Rightarrow> u64 \<Rightarrow> certificate list \<Rightarrow> bool" where
  "apple_chain_ok X root_der x5c t certs \<longleftrightarrow>
     x5c \<noteq> [] \<and> list_all2 (\<lambda>d c. parse_cert X d = Some c) x5c certs
     \<and> (\<forall>c \<in> set certs. valid_at c t) \<and> (\<forall>c \<in> set (tl certs). is_ca X c)
     \<and> successively (apple_signed_by X) certs
     \<and> apple_anchored X root_der (last certs) t"

lemma apple_validate_Ok_iff:
  "apple_validate_x5c_chain X root_der x5c t = Ok leaf \<longleftrightarrow>
     (\<exists>certs. apple_chain_ok X root_der x5c t certs \<and> leaf = hd certs)"
proof -
  have nonempty: "certs \<noteq> []" if "x5c \<noteq> []"
    "list_all2 (\<lambda>d c. parse_cert X d = Some c) x5c certs" for certs
    using that by auto
  show ?thesis
    by (auto simp: apple_validate_x5c_chain_def apple_chain_ok_def apple_anchored_def
        apple_check_validity_def apple_check_is_ca_def parse_chain_Ok_iff inner_chain_Ok_iff
        result_simps drop_Suc nonempty simp del: parse_cert_Some_iff)
qed

lemma apple_validate_not_Panic:
  assumes "crate_times_ok X"
  shows "apple_validate_x5c_chain X root_der x5c t \<noteq> Panic"
proof
  assume "apple_validate_x5c_chain X root_der x5c t = Panic"
  then show False
    using assms
    by (auto simp: apple_validate_x5c_chain_def apple_check_validity_def apple_check_is_ca_def
        result_simps get_last_None get_first_None
        dest!: for_each_Panic inner_chain_Panic
        dest: parse_chain_nonempty parse_chain_times [OF _ assms])
       (auto simp: crate_times_ok_def)
qed

text \<open>The nonce is the payload of the first extension with Apple's identifier.\<close>

definition nonce_of :: "crates \<Rightarrow> certificate \<Rightarrow> bytes \<Rightarrow> bool" where
  "nonce_of X cert nonce \<longleftrightarrow> length nonce = 32 \<and>
     (\<exists>ext. find_extension APPLE_NONCE_EXTENSION cert = Some ext
        \<and> nonce_extension_from_der X (extn_value ext) = Inr nonce)"

lemma extract_nonce_Ok_iff [result_simps]:
  "extract_nonce_extension X cert = Ok nonce \<longleftrightarrow> nonce_of X cert nonce"
  by (auto simp: extract_nonce_extension_def nonce_of_def find_extension_def result_simps
      bind_eq_Some_conv)

lemma extract_nonce_not_Panic [simp]: "extract_nonce_extension X cert \<noteq> Panic"
  by (auto simp: extract_nonce_extension_def result_simps)

interpretation apple_chain: chain_validator
  "apple_validate_x5c_chain X root_der" "parse_cert X" "apple_signed_by X"
  "apple_anchored X root_der"
  for X :: crates and root_der :: bytes
proof unfold_locales
  fix chain t leaf
  assume "apple_validate_x5c_chain X root_der chain t = Ok leaf"
  then obtain certs where "apple_chain_ok X root_der chain t certs" "leaf = hd certs"
    by (auto simp: apple_validate_Ok_iff)
  then show "\<exists>certs. list_all2 (\<lambda>d c. parse_cert X d = Some c) chain certs \<and> certs \<noteq> []
      \<and> leaf = hd certs \<and> (\<forall>c \<in> set certs. valid_at c t)
      \<and> successively (apple_signed_by X) certs \<and> apple_anchored X root_der (last certs) t"
    by (auto simp: apple_chain_ok_def dest: list_all2_same_Nil)
qed

section \<open>Properties\<close>

lemma sample_apple_chain:
  "apple_validate_x5c_chain sample_crates [20] [[23], [21]] 5000 = Ok sample_apple_leaf"
  by (simp add: apple_validate_x5c_chain_def parse_chain_with_def sample_crates_def
      apple_check_validity_def check_validity_with_def sample_cert_defs system_time_from_secs_def
      apple_check_is_ca_def check_is_ca_with_def find_extension_def check_inner_chain_def index_def
      get_def apple_verify_signature_def oid_defs apple_verify_p256_def verify_with_defs
      verify_steps_def)

text \<open>
  C5. Apple's chain validation accepts exactly the chains that are not empty, parse, are inside
  their validity window at the clock, have the CA flag on every certificate but the leaf, are
  signed each by the next, and end in a certificate signed by the pinned root, which is itself
  in its validity window and a CA; and then it returns the leaf.
\<close>

theorem apple_validate_x5c_chain_accepts:
  "apple_validate_x5c_chain X root_der x5c t = Ok leaf \<longleftrightarrow>
     (\<exists>certs. x5c \<noteq> [] \<and> list_all2 (\<lambda>d c. parse_cert X d = Some c) x5c certs
        \<and> list_all (\<lambda>c. valid_at c t) certs \<and> list_all (is_ca X) (tl certs)
        \<and> successively (apple_signed_by X) certs
        \<and> (\<exists>root. certificate_from_der X root_der = Inr root \<and> valid_at root t \<and> is_ca X root
              \<and> apple_signed_by X (last certs) root)
        \<and> leaf = hd certs)"
  by (auto simp: apple_validate_Ok_iff apple_chain_ok_def apple_anchored_def list_all_iff)

text \<open>
  An accepted leaf is the certificate of the first element of the chain, is valid at the
  clock, and is connected to the pinned root by a path of verified signatures.
\<close>

lemma apple_leaf_trusted:
  assumes "apple_validate_x5c_chain X root_der x5c t = Ok leaf"
  shows "parse_cert X (hd x5c) = Some leaf \<and> valid_at leaf t
     \<and> (\<exists>root. certificate_from_der X root_der = Inr root \<and> (apple_signed_by X)\<^sup>+\<^sup>+ leaf root)"
  using apple_chain.leaf_is_first [OF assms] apple_chain.leaf_valid [OF assms]
    apple_chain.trust_path [OF assms]
  by (fastforce simp: apple_anchored_def intro: rtranclp_into_tranclp1)

end
