(* ===== verification/Apple_Verify.thy ===== *)
theory Apple_Verify
  imports Attestation_Core Apple_AuthData Apple_Cbor Apple_Roots
begin

text \<open>
  The two entry points of \<open>attest-apple\<close>: \<open>verify_app_attest\<close> (\<open>lib.rs\<close>), the one-time
  attestation of a Secure Enclave key, and \<open>verify_assertion\<close> (\<open>assertion.rs\<close>), a
  signature by a key attested before. For each there is a declarative statement of what must
  hold (\<open>app_attest_ok\<close>, \<open>assertion_ok\<close>) and the proof that the code accepts exactly that.
\<close>

section \<open>Attestation\<close>

definition AAGUID_PRODUCTION :: bytes where
  "AAGUID_PRODUCTION = as_bytes ''appattest'' @ replicate 7 0"

definition AAGUID_DEVELOPMENT :: bytes where
  "AAGUID_DEVELOPMENT = as_bytes ''appattestdevelop''"

definition verify_app_attest :: "crates \<Rightarrow> bytes \<Rightarrow> bytes \<Rightarrow> bytes \<Rightarrow> bytes \<Rightarrow> string \<Rightarrow> bool \<Rightarrow> u64
    \<Rightarrow> (outcome, apple_error) result" where
  "verify_app_attest X root_der attestation_object key_id chal app_id production clock_ms =
     and_then (decode_attestation_object X attestation_object) (\<lambda>stmt.
     if st_fmt stmt \<noteq> ''apple-appattest'' then Err (WrongFormat (st_fmt stmt)) else
     and_then (authdata_parse (st_auth_data stmt)) (\<lambda>auth.
     and_then (apple_validate_x5c_chain X root_der (st_x5c stmt) clock_ms) (\<lambda>leaf.
     let expected_nonce = sha256 X (st_auth_data stmt @ sha256 X chal) in
     and_then (extract_nonce_extension X leaf) (\<lambda>cert_nonce.
     if cert_nonce \<noteq> expected_nonce then Err NonceMismatch else
     and_then (extract_p256_pk X (credential_public_key auth)) (\<lambda>pk.
     let computed_key_id = sha256 X (key_id_input pk) in
     if computed_key_id \<noteq> key_id then Err KeyIdMismatch else
     let expected_aaguid = (if production then AAGUID_PRODUCTION else AAGUID_DEVELOPMENT) in
     if aaguid auth \<noteq> expected_aaguid
       then Err (AaguidMismatch (if production then ''appattest'' else ''appattestdevelop'')
                   (aaguid auth)) else
     let expected_rp = sha256 X (as_bytes app_id) in
     if rp_id_hash auth \<noteq> expected_rp then Err RpIdHashMismatch else
     if sign_count auth \<noteq> 0 then Err (SignCountNotZero (sign_count auth)) else
     Ok \<lparr>source = APPLE_APP_ATTEST, attested_value = pk, challenge = chal,
         timestamp_ms = clock_ms, detail_hash = sha256 X attestation_object\<rparr>)))))"

text \<open>
  What an accepted attestation object says: it decodes to a statement of Apple's format whose
  authenticator data is well-formed and whose certificate chain is acceptable; the nonce in
  the leaf binds the authenticator data and the challenge; the key id is the hash of the
  public key; and the authenticator data names this app, this environment, and a counter of 0.
\<close>

definition app_attest_ok :: "crates \<Rightarrow> bytes \<Rightarrow> bytes \<Rightarrow> bytes \<Rightarrow> bytes \<Rightarrow> string \<Rightarrow> bool \<Rightarrow> u64
    \<Rightarrow> bytes \<Rightarrow> bool" where
  "app_attest_ok X root_der obj key_id chal app_id production t pk \<longleftrightarrow>
     (\<exists>st a certs.
        decode_attestation_object X obj = Ok st
        \<and> st_fmt st = ''apple-appattest''
        \<and> authdata_wf a \<and> st_auth_data st = authdata_encode a
        \<and> apple_chain_ok X root_der (st_x5c st) t certs
        \<and> nonce_of X (hd certs) (sha256 X (st_auth_data st @ sha256 X chal))
        \<and> extract_p256_pk X (credential_public_key a) = Ok pk
        \<and> key_id = sha256 X pk
        \<and> aaguid a = (if production then AAGUID_PRODUCTION else AAGUID_DEVELOPMENT)
        \<and> rp_id_hash a = sha256 X (as_bytes app_id)
        \<and> sign_count a = 0)"

lemma authdata_parse_Ok: "authdata_parse bs = Ok a \<longleftrightarrow> authdata_wf a \<and> bs = authdata_encode a"
  using authdata_fields_encode [of a] authdata_encode_fields [of bs]
  by (auto simp: authdata_parse_Ok_iff)

lemma verify_app_attest_Ok_iff:
  "verify_app_attest X root_der obj key_id chal app_id production t = Ok out \<longleftrightarrow>
     (\<exists>pk. app_attest_ok X root_der obj key_id chal app_id production t pk
        \<and> out = \<lparr>source = APPLE_APP_ATTEST, attested_value = pk, challenge = chal,
                 timestamp_ms = t, detail_hash = sha256 X obj\<rparr>)"
  by (auto simp: verify_app_attest_def app_attest_ok_def Let_def result_simps key_id_input_def
      authdata_parse_Ok apple_validate_Ok_iff)

text \<open>The same, over the parser of the authenticator data, for elimination.\<close>

lemma app_attest_OkD:
  assumes "verify_app_attest X root_der obj key_id chal app_id production t = Ok out"
  shows "\<exists>st a certs.
        decode_attestation_object X obj = Ok st
        \<and> authdata_parse (st_auth_data st) = Ok a
        \<and> apple_chain_ok X root_der (st_x5c st) t certs
        \<and> nonce_of X (hd certs) (sha256 X (st_auth_data st @ sha256 X chal))
        \<and> extract_p256_pk X (credential_public_key a) = Ok (attested_value out)
        \<and> key_id = sha256 X (attested_value out)
        \<and> aaguid a = (if production then AAGUID_PRODUCTION else AAGUID_DEVELOPMENT)
        \<and> rp_id_hash a = sha256 X (as_bytes app_id)"
proof -
  from assms obtain pk st a certs where *:
    "decode_attestation_object X obj = Ok st" "authdata_wf a" "st_auth_data st = authdata_encode a"
    "apple_chain_ok X root_der (st_x5c st) t certs"
    "nonce_of X (hd certs) (sha256 X (st_auth_data st @ sha256 X chal))"
    "extract_p256_pk X (credential_public_key a) = Ok pk" "key_id = sha256 X pk"
    "aaguid a = (if production then AAGUID_PRODUCTION else AAGUID_DEVELOPMENT)"
    "rp_id_hash a = sha256 X (as_bytes app_id)" "attested_value out = pk"
    unfolding verify_app_attest_Ok_iff app_attest_ok_def by auto
  then have "authdata_parse (st_auth_data st) = Ok a" by (simp add: authdata_parse_Ok)
  with * show ?thesis by metis
qed

section \<open>Assertion\<close>

definition verify_assertion :: "crates \<Rightarrow> bytes \<Rightarrow> bytes \<Rightarrow> bytes \<Rightarrow> string \<Rightarrow> u64
    \<Rightarrow> (outcome, apple_error) result" where
  "verify_assertion X assertion_object client_data attested_key app_id clock_ms =
     and_then (decode_assertion X assertion_object) (\<lambda>(sig_bytes, auth_data).
     if length auth_data < 37
       then Err (Cbor (''authenticatorData too short: '' @ show_nat (length auth_data) @ '' bytes''))
     else
     and_then (slice auth_data 0 32) (\<lambda>rp.
     let expected_rp = sha256 X (as_bytes app_id) in
     if rp \<noteq> expected_rp then Err RpIdHashMismatch else
     let client_data_hash = sha256 X client_data;
         signed_digest = sha256 X (auth_data @ client_data_hash) in
     and_then (map_err (\<lambda>e. Der (''attested key parse: '' @ e)) (p256_key_from_sec1 X attested_key)) (\<lambda>key.
     and_then (map_err (\<lambda>e. Der (''assertion signature parse: '' @ e))
                (p256_signature_from_der X sig_bytes)) (\<lambda>sig.
     if \<not> p256_verify_prehash X key signed_digest sig then Err UntrustedChain else
     Ok \<lparr>source = APPLE_APP_ATTEST_ASSERTION, attested_value = attested_key,
         challenge = client_data, timestamp_ms = clock_ms,
         detail_hash = sha256 X assertion_object\<rparr>))))"

definition assertion_ok :: "crates \<Rightarrow> bytes \<Rightarrow> bytes \<Rightarrow> bytes \<Rightarrow> string \<Rightarrow> bool" where
  "assertion_ok X obj client_data attested_key app_id \<longleftrightarrow>
     (\<exists>m sig_bytes ad key sig.
        cbor_from_reader X obj = Inr (CMap m) \<and> text_keys m
        \<and> last_value (CText ''signature'') m = Some (CBytes sig_bytes)
        \<and> last_value (CText ''authenticatorData'') m = Some (CBytes ad)
        \<and> 37 \<le> length ad \<and> take 32 ad = sha256 X (as_bytes app_id)
        \<and> p256_key_from_sec1 X attested_key = Inr key
        \<and> p256_signature_from_der X sig_bytes = Inr sig
        \<and> p256_verify_prehash X key (sha256 X (ad @ sha256 X client_data)) sig)"

lemma verify_assertion_Ok_iff:
  "verify_assertion X obj client_data attested_key app_id t = Ok out \<longleftrightarrow>
     assertion_ok X obj client_data attested_key app_id
     \<and> out = \<lparr>source = APPLE_APP_ATTEST_ASSERTION, attested_value = attested_key,
              challenge = client_data, timestamp_ms = t, detail_hash = sha256 X obj\<rparr>"
proof -
  have "verify_assertion X obj client_data attested_key app_id t = Ok out \<longleftrightarrow>
     (\<exists>sig_bytes ad key sig. decode_assertion X obj = Ok (sig_bytes, ad)
        \<and> 37 \<le> length ad \<and> take 32 ad = sha256 X (as_bytes app_id)
        \<and> p256_key_from_sec1 X attested_key = Inr key
        \<and> p256_signature_from_der X sig_bytes = Inr sig
        \<and> p256_verify_prehash X key (sha256 X (ad @ sha256 X client_data)) sig
        \<and> out = \<lparr>source = APPLE_APP_ATTEST_ASSERTION, attested_value = attested_key,
              challenge = client_data, timestamp_ms = t, detail_hash = sha256 X obj\<rparr>)"
    by (auto simp: verify_assertion_def Let_def result_simps not_less split: prod.splits)
  also have "\<dots> \<longleftrightarrow> assertion_ok X obj client_data attested_key app_id
     \<and> out = \<lparr>source = APPLE_APP_ATTEST_ASSERTION, attested_value = attested_key,
              challenge = client_data, timestamp_ms = t, detail_hash = sha256 X obj\<rparr>"
    unfolding assertion_ok_def decode_assertion_Ok_iff by blast
  finally show ?thesis .
qed

section \<open>Absence of panics\<close>

lemma verify_app_attest_not_Panic:
  "crate_times_ok X \<Longrightarrow>
   verify_app_attest X root_der obj key_id chal app_id production t \<noteq> Panic"
  by (auto simp: verify_app_attest_def Let_def result_simps authdata_parse_not_Panic
      apple_validate_not_Panic)

lemma verify_assertion_not_Panic: "verify_assertion X obj cd key app_id t \<noteq> Panic"
  by (auto simp: verify_assertion_def Let_def result_simps split: prod.splits)

section \<open>Properties\<close>

text \<open>Two inputs that differ and have the same SHA-256 hash.\<close>

definition collide :: "crates \<Rightarrow> bytes \<Rightarrow> bytes \<Rightarrow> bool" where
  "collide X m m' \<longleftrightarrow> m \<noteq> m' \<and> sha256 X m = sha256 X m'"

lemma aaguids_differ: "AAGUID_PRODUCTION \<noteq> AAGUID_DEVELOPMENT"
  by (simp add: AAGUID_PRODUCTION_def AAGUID_DEVELOPMENT_def as_bytes_def replicate_numeral)

lemma sample_authdata:
  "authdata_parse sample_auth_data = Ok \<lparr>rp_id_hash = sample_rp, flags = 0x40, sign_count = 0,
     aaguid = AAGUID_DEVELOPMENT, credential_id = [7], credential_public_key = [2]\<rparr>"
  by (simp add: authdata_parse_Ok authdata_wf_def authdata_encode_def sample_auth_data_def
      sample_rp_eq AT_FLAG_def AAGUID_DEVELOPMENT_def as_bytes_def be_bytes_numeral)

lemma sample_statement:
  "decode_attestation_object sample_crates [1] = Ok \<lparr>st_fmt = ''apple-appattest'',
     st_auth_data = sample_auth_data, st_x5c = [[23], [21]], st_receipt = []\<rparr>"
  by (simp add: decode_attestation_object_def sample_crates_def x5c_certs_def)

definition sample_pk :: bytes where
  "sample_pk = 0x04 # replicate 32 8 @ replicate 32 9"

lemma sample_cose: "extract_p256_pk sample_crates [2] = Ok sample_pk"
  by (simp add: extract_p256_pk_def sample_crates_def cose_finish_def cose_loop_eq cose_start_def
      as_i64_def i64_try_from_def to_array_def sample_pk_def)

lemma sample_app_attest:
  "verify_app_attest sample_crates [20] [1] (sample_hash sample_pk) [1, 2, 3] ''app'' False 5000
     = Ok \<lparr>source = APPLE_APP_ATTEST, attested_value = sample_pk, challenge = [1, 2, 3],
           timestamp_ms = 5000, detail_hash = sample_hash [1]\<rparr>"
proof -
  have hash: "sha256 sample_crates = sample_hash"
    by (simp add: sample_crates_def)
  have nonce: "extract_nonce_extension sample_crates sample_apple_leaf = Ok sample_rp"
    by (simp add: extract_nonce_extension_def sample_crates_def sample_cert_defs
        APPLE_NONCE_EXTENSION_def to_array_def sample_rp_eq)
  have expected: "sample_hash (sample_auth_data @ sample_hash [1, 2, 3]) = sample_rp"
    by (simp add: sample_hash_def sample_auth_data_def sample_rp_eq)
  have rp: "sample_hash (as_bytes ''app'') = sample_rp"
    by (simp add: sample_rp_def)
  show ?thesis
    by (simp add: verify_app_attest_def sample_statement sample_authdata sample_apple_chain
        nonce expected rp sample_cose hash key_id_input_def)
qed

text \<open>
  C2. \<open>verify_app_attest\<close> is sound and complete for Apple's verification procedure: it
  returns an outcome exactly when the attestation object satisfies all of it (format, layout
  of the authenticator data, certificate chain, nonce, key id, environment, app id, zero
  counter), and the outcome carries the attested key, the challenge, the clock and the hash of
  the object.
\<close>

theorem verify_app_attest_accepts:
  "verify_app_attest X root_der obj key_id chal app_id production t = Ok out \<longleftrightarrow>
     (\<exists>st a certs pk.
        decode_attestation_object X obj = Ok st
        \<and> st_fmt st = ''apple-appattest''
        \<and> authdata_wf a \<and> st_auth_data st = authdata_encode a
        \<and> apple_chain_ok X root_der (st_x5c st) t certs
        \<and> nonce_of X (hd certs) (sha256 X (st_auth_data st @ sha256 X chal))
        \<and> extract_p256_pk X (credential_public_key a) = Ok pk
        \<and> key_id = sha256 X pk
        \<and> aaguid a = (if production then AAGUID_PRODUCTION else AAGUID_DEVELOPMENT)
        \<and> rp_id_hash a = sha256 X (as_bytes app_id)
        \<and> sign_count a = 0
        \<and> out = \<lparr>source = APPLE_APP_ATTEST, attested_value = pk, challenge = chal,
                 timestamp_ms = t, detail_hash = sha256 X obj\<rparr>)"
  by (auto simp: verify_app_attest_Ok_iff app_attest_ok_def)

text \<open>
  C25. An attestation object binds everything it was accepted for. If the same object is
  accepted twice, possibly with other parameters and at other times, then the attested key,
  the key id and the environment are the same, and the challenges and the app ids are the same
  unless the two calls exhibit a SHA-256 collision.
\<close>

theorem app_attest_binding:
  assumes "verify_app_attest X r obj k1 c1 a1 p1 t1 = Ok o1"
    and "verify_app_attest X r obj k2 c2 a2 p2 t2 = Ok o2"
  shows "attested_value o1 = attested_value o2 \<and> k1 = k2 \<and> p1 = p2
    \<and> (a1 = a2 \<or> collide X (as_bytes a1) (as_bytes a2))
    \<and> (\<exists>st. decode_attestation_object X obj = Ok st
         \<and> (c1 = c2 \<or> collide X c1 c2
            \<or> collide X (st_auth_data st @ sha256 X c1) (st_auth_data st @ sha256 X c2)))"
proof -
  from app_attest_OkD [OF assms(1)] obtain st a ce1 where 1:
    "decode_attestation_object X obj = Ok st"
    "authdata_parse (st_auth_data st) = Ok a"
    "apple_chain_ok X r (st_x5c st) t1 ce1"
    "nonce_of X (hd ce1) (sha256 X (st_auth_data st @ sha256 X c1))"
    "extract_p256_pk X (credential_public_key a) = Ok (attested_value o1)"
    "k1 = sha256 X (attested_value o1)"
    "aaguid a = (if p1 then AAGUID_PRODUCTION else AAGUID_DEVELOPMENT)"
    "rp_id_hash a = sha256 X (as_bytes a1)"
    by blast
  from app_attest_OkD [OF assms(2)] obtain st' a' ce2 where second:
    "decode_attestation_object X obj = Ok st'"
    "authdata_parse (st_auth_data st') = Ok a'"
    "apple_chain_ok X r (st_x5c st') t2 ce2"
    "nonce_of X (hd ce2) (sha256 X (st_auth_data st' @ sha256 X c2))"
    "extract_p256_pk X (credential_public_key a') = Ok (attested_value o2)"
    "k2 = sha256 X (attested_value o2)"
    "aaguid a' = (if p2 then AAGUID_PRODUCTION else AAGUID_DEVELOPMENT)"
    "rp_id_hash a' = sha256 X (as_bytes a2)"
    by blast
  from second(1) 1(1) have st: "st' = st" by simp
  with second(2) 1(2) have a: "a' = a" by simp
  from second have 2:
    "apple_chain_ok X r (st_x5c st) t2 ce2"
    "nonce_of X (hd ce2) (sha256 X (st_auth_data st @ sha256 X c2))"
    "extract_p256_pk X (credential_public_key a) = Ok (attested_value o2)"
    "k2 = sha256 X (attested_value o2)"
    "aaguid a = (if p2 then AAGUID_PRODUCTION else AAGUID_DEVELOPMENT)"
    "rp_id_hash a = sha256 X (as_bytes a2)"
    by (simp_all add: st a)
  have "ce1 = ce2"
    using 1(3) 2(1) unfolding apple_chain_ok_def by (blast intro: list_all2_Some_unique)
  then have "sha256 X (st_auth_data st @ sha256 X c1) = sha256 X (st_auth_data st @ sha256 X c2)"
    using 1(4) 2(2) by (auto simp: nonce_of_def)
  moreover have "p1 = p2"
    using 1(7) 2(5) aaguids_differ by (auto split: if_splits)
  ultimately show ?thesis
    using 1(1,5,6,8) 2(3,4,6) by (simp add: collide_def) metis
qed

theorem app_attest_binding_witness:
  "\<exists>o1. verify_app_attest sample_crates [20] [1] (sample_hash sample_pk) [1, 2, 3] ''app'' False
          5000 = Ok o1 \<and> attested_value o1 = sample_pk"
  using app_attest_binding [OF sample_app_attest sample_app_attest] sample_app_attest by simp

text \<open>
  C6. \<open>verify_assertion\<close> returns an outcome exactly when the assertion is a CBOR map with a
  signature and at least 37 bytes of authenticator data that start with the hash of the app
  id, and the signature verifies under the previously attested key over the hash of the
  authenticator data followed by the hash of the client data. The outcome repeats the key and
  the client data.
\<close>

theorem verify_assertion_accepts:
  "verify_assertion X obj client_data attested_key app_id t = Ok out \<longleftrightarrow>
     (\<exists>m sig_bytes ad key sig.
        cbor_from_reader X obj = Inr (CMap m) \<and> text_keys m
        \<and> last_value (CText ''signature'') m = Some (CBytes sig_bytes)
        \<and> last_value (CText ''authenticatorData'') m = Some (CBytes ad)
        \<and> 37 \<le> length ad \<and> take 32 ad = sha256 X (as_bytes app_id)
        \<and> p256_key_from_sec1 X attested_key = Inr key
        \<and> p256_signature_from_der X sig_bytes = Inr sig
        \<and> p256_verify_prehash X key (sha256 X (ad @ sha256 X client_data)) sig)
     \<and> out = \<lparr>source = APPLE_APP_ATTEST_ASSERTION, attested_value = attested_key,
              challenge = client_data, timestamp_ms = t, detail_hash = sha256 X obj\<rparr>"
  by (simp only: verify_assertion_Ok_iff assertion_ok_def)

end
