(* ===== verification/Android_Errors.thy ===== *)
theory Android_Errors
  imports Crates
begin

text \<open>
  The two enumerations of \<open>rust/attest-android/src/key_description.rs\<close> that the error type
  mentions, with their wire encodings and the order of security levels, and the error type of
  the crate (\<open>errors.rs\<close>) with the text each error displays.
\<close>

section \<open>Security levels\<close>

datatype security_level = Software | TrustedEnvironment | StrongBox

fun security_level_from_i32 :: "i32 \<Rightarrow> security_level option" where
  "security_level_from_i32 v =
     (if v = 0 then Some Software
      else if v = 1 then Some TrustedEnvironment
      else if v = 2 then Some StrongBox
      else None)"

declare security_level_from_i32.simps [simp del]

fun rank :: "security_level \<Rightarrow> u8" where
  "rank Software = 0"
| "rank TrustedEnvironment = 1"
| "rank StrongBox = 2"

definition meets :: "security_level \<Rightarrow> security_level \<Rightarrow> bool" where
  "meets l other \<longleftrightarrow> rank l \<ge> rank other"

lemma rank_inject: "rank a = rank b \<Longrightarrow> a = b"
  by (cases a; cases b) simp_all

text \<open>The order the levels are meant to have, and that \<open>meets\<close> is this order.\<close>

instantiation security_level :: linorder
begin

definition less_eq_security_level :: "security_level \<Rightarrow> security_level \<Rightarrow> bool" where
  "less_eq_security_level a b \<longleftrightarrow> a = Software \<or> b = StrongBox \<or> a = b"

definition less_security_level :: "security_level \<Rightarrow> security_level \<Rightarrow> bool" where
  "less_security_level a b \<longleftrightarrow> (a = Software \<and> b \<noteq> Software) \<or> (a \<noteq> StrongBox \<and> b = StrongBox)"

instance
proof
  fix a b c :: security_level
  show "a < b \<longleftrightarrow> a \<le> b \<and> \<not> b \<le> a"
    by (cases a; cases b) (simp_all add: less_eq_security_level_def less_security_level_def)
  show "a \<le> a" by (simp add: less_eq_security_level_def)
  show "a \<le> c" if "a \<le> b" "b \<le> c"
    using that by (cases a; cases b; cases c) (simp_all add: less_eq_security_level_def)
  show "a = b" if "a \<le> b" "b \<le> a"
    using that by (cases a; cases b) (simp_all add: less_eq_security_level_def)
  show "a \<le> b \<or> b \<le> a"
    by (cases a; cases b) (simp_all add: less_eq_security_level_def)
qed

end

lemma meets_iff: "meets l other \<longleftrightarrow> other \<le> l"
  by (cases l; cases other) (simp_all add: meets_def less_eq_security_level_def word_le_nat_alt)

section \<open>Boot states\<close>

datatype verified_boot_state = Verified | SelfSigned | Unverified | Failed

fun verified_boot_state_from_i32 :: "i32 \<Rightarrow> verified_boot_state option" where
  "verified_boot_state_from_i32 v =
     (if v = 0 then Some Verified
      else if v = 1 then Some SelfSigned
      else if v = 2 then Some Unverified
      else if v = 3 then Some Failed
      else None)"

declare verified_boot_state_from_i32.simps [simp del]

section \<open>Errors\<close>

datatype android_error =
    AndroidDer string
  | EmptyChain
  | AndroidUntrustedChain
  | MissingAttestationExtension
  | ChallengeMismatch
  | InsufficientSecurityLevel security_level security_level
  | BadAttestedKey string
  | Revoked string string string
  | UnacceptableBootState verified_boot_state
  | DeviceUnlocked

fun debug_security_level :: "security_level \<Rightarrow> string" where
  "debug_security_level Software = ''Software''"
| "debug_security_level TrustedEnvironment = ''TrustedEnvironment''"
| "debug_security_level StrongBox = ''StrongBox''"

fun debug_boot_state :: "verified_boot_state \<Rightarrow> string" where
  "debug_boot_state Verified = ''Verified''"
| "debug_boot_state SelfSigned = ''SelfSigned''"
| "debug_boot_state Unverified = ''Unverified''"
| "debug_boot_state Failed = ''Failed''"

fun android_error_display :: "android_error \<Rightarrow> string" where
  "android_error_display (AndroidDer s) = ''DER decoding error: '' @ s"
| "android_error_display EmptyChain = ''certificate chain is empty''"
| "android_error_display AndroidUntrustedChain =
     ''certificate chain does not anchor at any pinned Google attestation root''"
| "android_error_display MissingAttestationExtension =
     ''attestation extension (OID 1.3.6.1.4.1.11129.2.1.17) not present on leaf cert''"
| "android_error_display ChallengeMismatch =
     ''attestation challenge does not match expected value''"
| "android_error_display (InsufficientSecurityLevel got required) =
     ''attestation security level '' @ debug_security_level got
     @ '' does not meet required minimum '' @ debug_security_level required"
| "android_error_display (BadAttestedKey s) =
     ''attested public key encoding is malformed: '' @ s"
| "android_error_display (Revoked serial status reason) =
     ''certificate revoked or suspended: serial '' @ serial @ '', status '' @ status
     @ '', reason '' @ reason"
| "android_error_display (UnacceptableBootState s) =
     ''verifiedBootState '' @ debug_boot_state s @ '' is not acceptable for this verifier''"
| "android_error_display DeviceUnlocked =
     ''device is unlocked (root-of-trust deviceLocked = false)''"

end
