(* ===== verification/Framing.thy ===== *)
theory Framing
  imports Prelude
begin

text \<open>
  The contract of a self-delimiting encoding. Several parts of the program write values one
  after another into a byte string whose hash (or whose parse) stands for the values: the
  length-prefixed certificates under \<open>detail_hash\<close>, the TLV children of an authorization
  list, the fields of a BCS payload. What all of them rely on is that no encoding is a prefix
  of another one; the clients' lemmas are proved once here and interpreted in the theories
  that define the encodings.
\<close>

section \<open>Prefix-free encodings\<close>

locale framing =
  fixes enc :: "'a \<Rightarrow> bytes" and ok :: "'a \<Rightarrow> bool"
  assumes prefix_free: "ok x \<Longrightarrow> ok y \<Longrightarrow> enc x @ r = enc y @ s \<Longrightarrow> x = y \<and> r = s"
    and nonempty: "enc x \<noteq> []"
begin

lemma enc_inject: "ok x \<Longrightarrow> ok y \<Longrightarrow> enc x = enc y \<Longrightarrow> x = y"
  using prefix_free [of x y "[]" "[]"] by simp

text \<open>A sequence of values is determined by the concatenation of their encodings.\<close>

lemma concat_inject:
  "(\<forall>x \<in> set xs. ok x) \<Longrightarrow> (\<forall>y \<in> set ys. ok y) \<Longrightarrow>
   concat (map enc xs) = concat (map enc ys) \<Longrightarrow> xs = ys"
proof (induction xs arbitrary: ys)
  case Nil
  then show ?case using nonempty by (cases ys) auto
next
  case (Cons x xs)
  show ?case
  proof (cases ys)
    case Nil
    with Cons.prems nonempty show ?thesis by auto
  next
    case (Cons y zs)
    from Cons.prems Cons have ok: "ok x" "ok y" by auto
    from Cons.prems Cons
    have "enc x @ concat (map enc xs) = enc y @ concat (map enc zs)" by simp
    with ok have "x = y" "concat (map enc xs) = concat (map enc zs)"
      by (auto dest: prefix_free)
    with Cons.IH [of zs] Cons.prems Cons show ?thesis by simp
  qed
qed

end

section \<open>Encodings with a decoder\<close>

text \<open>
  A decoder that reads one value off the front of its input and returns the rest. Its round
  trip with the encoder makes the encoding prefix-free.
\<close>

locale decodable =
  fixes enc :: "'a \<Rightarrow> bytes" and dec :: "bytes \<Rightarrow> ('a \<times> bytes) option" and ok :: "'a \<Rightarrow> bool"
  assumes dec_enc: "ok x \<Longrightarrow> dec (enc x @ rest) = Some (x, rest)"
    and enc_nonempty: "enc x \<noteq> []"

sublocale decodable \<subseteq> framing enc ok
proof unfold_locales
  fix x y r s
  assume "ok x" "ok y" "enc x @ r = enc y @ s"
  then have "Some (x, r) = Some (y, s)" by (metis dec_enc)
  then show "x = y \<and> r = s" by simp
next
  show "enc x \<noteq> []" for x by (rule enc_nonempty)
qed

context decodable
begin

text \<open>Reading the whole sequence back, one value at a time.\<close>

lemma dec_concat_step:
  "ok x \<Longrightarrow> dec (concat (map enc (x # xs)) @ rest) = Some (x, concat (map enc xs) @ rest)"
  by (simp add: dec_enc)

end

end
