(* ===== verification/Android_Tlv.thy ===== *)
theory Android_Tlv
  imports Framing
begin

text \<open>
  The TLV header parser of \<open>rust/attest-android/src/key_description.rs\<close>
  (\<open>parse_tlv_header\<close>), with its integers at their widths: the tag number is a \<open>u32\<close>, the
  length a 64-bit \<open>usize\<close>. Positions in the input are natural numbers: they are at most the
  length of a slice, so they do not wrap. The canonical encoder \<open>tlv_encode\<close> is the
  reference the parser is proved against.
\<close>

section \<open>Checked arithmetic\<close>

text \<open>
  \<open>checked_shl\<close> looks at the shift amount only: bits shifted out are lost silently.
\<close>

definition checked_shl :: "'w::len word \<Rightarrow> nat \<Rightarrow> 'w word option" where
  "checked_shl w n = (if n < LENGTH('w) then Some (push_bit n w) else None)"

definition checked_add :: "'w::len word \<Rightarrow> 'w word \<Rightarrow> 'w word option" where
  "checked_add a b = (if unat a + unat b < 2 ^ LENGTH('w) then Some (a + b) else None)"

section \<open>The parser\<close>

function tag_loop :: "bytes \<Rightarrow> nat \<Rightarrow> u32 \<Rightarrow> (u32 \<times> nat, unit) result" where
  "tag_loop bs cur n =
     (if cur \<ge> length bs then Err ()
      else and_then (index bs cur) (\<lambda>b.
        and_then (ok_or () (checked_shl n 7)) (\<lambda>shifted.
        and_then (ok_or () (checked_add shifted (ucast (b AND 0x7F)))) (\<lambda>m.
        if b AND 0x80 = 0 then Ok (m, cur + 1) else tag_loop bs (cur + 1) m))))"
  by pat_completeness auto

termination by (relation "measure (\<lambda>(bs, cur, n). length bs - cur)") auto

declare tag_loop.simps [simp del]

fun len_loop :: "nat \<Rightarrow> bytes \<Rightarrow> nat \<Rightarrow> u64 \<Rightarrow> (u64 \<times> nat, unit) result" where
  "len_loop 0 bs cur v = Ok (v, cur)"
| "len_loop (Suc k) bs cur v =
     (if cur \<ge> length bs then Err ()
      else and_then (ok_or () (checked_shl v 8)) (\<lambda>shifted.
        and_then (index bs cur) (\<lambda>b.
        and_then (ok_or () (checked_add shifted (ucast b))) (\<lambda>w.
        len_loop k bs (cur + 1) w))))"

text \<open>The result is class, constructed flag, tag number, header length and body length.\<close>

definition parse_tlv_header ::
    "bytes \<Rightarrow> nat \<Rightarrow> (u8 \<times> bool \<times> u32 \<times> nat \<times> nat, unit) result" where
  "parse_tlv_header bs pos =
     (if pos \<ge> length bs then Err ()
      else and_then (index bs pos) (\<lambda>first.
        let class = drop_bit 6 first AND 0b11;
            constructed = (first AND 0b00100000 \<noteq> 0);
            low5 = first AND 0b00011111 in
        and_then (if low5 < 0x1F then Ok (ucast low5, pos + 1) else tag_loop bs (pos + 1) 0)
          (\<lambda>(tag_number, cur).
        if cur \<ge> length bs then Err ()
        else and_then (index bs cur) (\<lambda>len_first.
          and_then
            (if len_first AND 0x80 = 0 then Ok (ucast len_first, cur + 1)
             else let n = unat (len_first AND 0x7F) in
               if n = 0 \<or> n > 4 then Err () else len_loop n bs (cur + 1) 0)
            (\<lambda>(body_len, cur).
          Ok (class, constructed, tag_number, cur - pos, unat body_len))))))"

section \<open>Bits of an octet\<close>

lemma unat_and_mask: "unat (w AND mask k :: 'w::len word) = unat w mod 2 ^ k"
proof -
  have "unat (take_bit k w) = take_bit k (unat w)"
    by (cases "k < LENGTH('w)") (simp_all add: unsigned_take_bit_eq)
  then show ?thesis
    by (simp only: take_bit_eq_mask take_bit_eq_mod [of k "unat w"] flip: take_bit_eq_mask)
qed

lemma unat_and_7F: "unat (b AND 0x7F :: u8) = unat b mod 128"
  using unat_and_mask [of b 7] by (simp add: mask_eq_exp_minus_1)

lemma unat_and_1F: "unat (b AND 0x1F :: u8) = unat b mod 32"
  using unat_and_mask [of b 5] by (simp add: mask_eq_exp_minus_1)

lemma unat_class: "unat (drop_bit 6 b AND 3 :: u8) = unat b div 64"
proof -
  have "unat b < 256" by (rule unat_u8_less)
  moreover have "unat (drop_bit 6 b) = unat b div 64"
    by (simp only: unat_drop_bit_eq drop_bit_eq_div [of 6 "unat b"]) simp
  ultimately show ?thesis
    using unat_and_mask [of "drop_bit 6 b" 2] by (simp add: mask_eq_exp_minus_1 del: drop_bit_eq_div)
qed

lemma bit_unat_iff: "bit (w :: 'w::len word) k \<longleftrightarrow> odd (unat w div 2 ^ k)"
  by (simp add: bit_unsigned_iff bit_iff_odd [of "unat w", symmetric])

lemma and_80_iff: "b AND 0x80 = 0 \<longleftrightarrow> unat (b :: u8) < 128"
proof -
  have "odd (n div 128) \<longleftrightarrow> \<not> n < 128" if "n < 256" for n :: nat
  proof (cases "n < 128")
    case False
    with that have "n div 128 = 1" by (simp add: div_nat_eqI)
    with False show ?thesis by simp
  qed simp
  then show ?thesis
    using and_exp_eq_0_iff_not_bit [of b 7] bit_unat_iff [of b 7] unat_u8_less [of b] by simp
qed

lemma and_20_iff: "b AND 0x20 = 0 \<longleftrightarrow> even (unat (b :: u8) div 32)"
  using and_exp_eq_0_iff_not_bit [of b 5] bit_unat_iff [of b 5] by simp

section \<open>The checks on the arithmetic never fail\<close>

text \<open>
  After the shift the low bits are zero, so adding fewer than those bits hold cannot carry
  out of the word: both \<open>checked_\<close> operations always succeed and the value wraps.
\<close>

lemma shift_add_fits:
  assumes "d < 2 ^ k" "k < LENGTH('w)"
  shows "unat (push_bit k n :: 'w::len word) + d < 2 ^ LENGTH('w)"
proof -
  have split: "(2::nat) ^ LENGTH('w) = 2 ^ k * 2 ^ (LENGTH('w) - k)"
    using assms(2) by (simp add: power_add [symmetric])
  have "unat (push_bit k n :: 'w word) = (2 ^ k * unat n) mod 2 ^ LENGTH('w)"
    by (simp only: unsigned_push_bit_eq push_bit_eq_mult [of k "unat n"] take_bit_eq_mod mult.commute)
  also have "\<dots> = 2 ^ k * (unat n mod 2 ^ (LENGTH('w) - k))"
    by (simp only: split mult_mod_right)
  finally have shifted:
    "unat (push_bit k n :: 'w word) = 2 ^ k * (unat n mod 2 ^ (LENGTH('w) - k))" .
  have "2 ^ k * Suc (unat n mod 2 ^ (LENGTH('w) - k)) \<le> 2 ^ k * 2 ^ (LENGTH('w) - k)"
    by (intro mult_le_mono2 Suc_leI) simp
  with assms(1) show ?thesis by (simp only: split shifted) simp
qed

lemma checked_add_shift:
  assumes "unat d < 2 ^ k" "k < LENGTH('w::len)"
  shows "checked_add (push_bit k n) d = Some (n * 2 ^ k + d :: 'w word)"
  using shift_add_fits [OF assms] by (simp add: checked_add_def push_bit_eq_mult)

lemma tag_step:
  "checked_add (push_bit 7 n) (ucast (b AND 0x7F :: u8)) = Some (n * 128 + word_of_nat (unat b mod 128) :: u32)"
proof -
  have eq: "(ucast (b AND 0x7F :: u8) :: u32) = word_of_nat (unat b mod 128)"
    by (simp add: unat_and_7F [symmetric] unsigned_ucast_eq)
  show ?thesis
    using checked_add_shift [of "word_of_nat (unat b mod 128) :: u32" 7 n]
    by (simp add: eq unat_of_nat)
qed

lemma len_step:
  "checked_add (push_bit 8 n) (ucast (b :: u8)) = Some (n * 256 + ucast b :: u64)"
  using checked_add_shift [of "ucast b :: u64" 8 n] unat_u8_less [of b]
  by (simp add: unsigned_ucast_eq take_bit_nat_eq_self)

section \<open>Tag numbers in base 128\<close>

definition base128 :: "nat list \<Rightarrow> nat" where
  "base128 ds = foldl (\<lambda>n d. n * 128 + d) 0 ds"

fun tag_octets :: "nat list \<Rightarrow> bytes" where
  "tag_octets [] = []"
| "tag_octets [d] = [word_of_nat d]"
| "tag_octets (d # e # ds) = word_of_nat (d + 128) # tag_octets (e # ds)"

definition digits_ok :: "nat list \<Rightarrow> bool" where
  "digits_ok ds \<longleftrightarrow> ds \<noteq> [] \<and> list_all (\<lambda>d. d < 128) ds"

lemma length_tag_octets [simp]: "length (tag_octets ds) = length ds"
  by (induction ds rule: tag_octets.induct) auto

lemma foldl_word_digits:
  "foldl (\<lambda>n d. n * 128 + word_of_nat d) (word_of_nat a :: 'w::len word) ds
   = word_of_nat (foldl (\<lambda>n d. n * 128 + d) a ds)"
proof (induction ds arbitrary: a)
  case (Cons d ds)
  have "(word_of_nat a * 128 + word_of_nat d :: 'w word) = word_of_nat (a * 128 + d)" by simp
  with Cons show ?case by (simp only: foldl.simps)
qed simp

lemma foldl_word_octets:
  "foldl (\<lambda>v b. v * 256 + ucast (b :: u8)) (word_of_nat a :: 'w::len word) cs
   = word_of_nat (foldl (\<lambda>n b. n * 256 + unat b) a cs)"
proof (induction cs arbitrary: a)
  case (Cons b cs)
  have "(word_of_nat a * 256 + ucast b :: 'w word) = word_of_nat (a * 256 + unat b)"
    by (simp add: unsigned_ucast_eq)
  with Cons show ?case by (simp only: foldl.simps)
qed simp

text \<open>Reading the octets of a digit list.\<close>

lemma tag_loop_octets:
  assumes "digits_ok ds"
  shows "tag_loop (pre @ tag_octets ds @ rest) (length pre) n
     = Ok (foldl (\<lambda>n d. n * 128 + word_of_nat d) n ds, length pre + length ds)"
  using assms
proof (induction ds arbitrary: pre n rule: tag_octets.induct)
  case (2 d)
  then show ?case
    by (subst tag_loop.simps)
       (simp add: digits_ok_def index_def checked_shl_def tag_step and_80_iff unat_word_of_nat_u8
         nth_append)
next
  case (3 d e ds)
  from 3(2) have d: "d < 128" and rest_ok: "digits_ok (e # ds)" by (auto simp: digits_ok_def)
  have "tag_loop ((pre @ [word_of_nat (d + 128)]) @ tag_octets (e # ds) @ rest)
          (length (pre @ [word_of_nat (d + 128) :: u8])) (n * 128 + word_of_nat d)
      = Ok (foldl (\<lambda>n d. n * 128 + word_of_nat d) (n * 128 + word_of_nat d) (e # ds),
            length (pre @ [word_of_nat (d + 128) :: u8]) + length (e # ds))"
    by (rule 3(1) [OF rest_ok])
  moreover have "unat (word_of_nat (d + 128) :: u8) = d + 128"
    using d by (simp only: unat_word_of_nat_u8) simp
  ultimately show ?case
    using d
    by (subst tag_loop.simps)
       (simp add: index_def checked_shl_def tag_step and_80_iff nth_append
         del: of_nat_add)
qed (simp add: digits_ok_def)

text \<open>Whatever the loop accepts are the octets of a digit list.\<close>

lemma tag_loop_OkD:
  "tag_loop bs cur n = Ok (m, cur') \<Longrightarrow>
   \<exists>ds rest. digits_ok ds \<and> drop cur bs = tag_octets ds @ rest \<and> cur' = cur + length ds
     \<and> cur' \<le> length bs"
proof (induction bs cur n rule: tag_loop.induct)
  case (1 bs cur n)
  from 1(2) have cur: "cur < length bs"
    by (subst (asm) tag_loop.simps) (auto split: if_splits)
  let ?b = "bs ! cur"
  from cur have drop: "drop cur bs = ?b # drop (Suc cur) bs"
    by (rule Cons_nth_drop_Suc [symmetric])
  show ?case
  proof (cases "unat ?b < 128")
    case True
    then have "tag_octets [unat ?b] = [?b]" by simp
    moreover from 1(2) cur True have "cur' = cur + 1"
      by (subst (asm) tag_loop.simps)
         (auto simp: index_def checked_shl_def tag_step and_80_iff)
    ultimately show ?thesis
      using cur drop True
      by (intro exI [of _ "[unat ?b]"] exI [of _ "drop (Suc cur) bs"]) (simp add: digits_ok_def)
  next
    case False
    from 1(2) cur False
    have "tag_loop bs (cur + 1) (n * 128 + word_of_nat (unat ?b mod 128)) = Ok (m, cur')"
      by (subst (asm) tag_loop.simps)
         (auto simp: index_def checked_shl_def tag_step and_80_iff)
    with 1(1) cur False
    obtain ds rest where ds: "digits_ok ds" "drop (cur + 1) bs = tag_octets ds @ rest"
      "cur' = cur + 1 + length ds" "cur' \<le> length bs"
      by (simp add: index_def and_80_iff) blast
    obtain e es where e: "ds = e # es" using ds(1) by (cases ds) (auto simp: digits_ok_def)
    have lt: "unat ?b < 256" by (rule unat_u8_less)
    have "tag_octets ((unat ?b - 128) # ds) = ?b # tag_octets ds"
      using False by (simp add: e)
    with ds drop lt False show ?thesis
      by (intro exI [of _ "(unat ?b - 128) # ds"] exI [of _ rest]) (auto simp: digits_ok_def)
  qed
qed

lemma tag_loop_not_Panic [simp]: "tag_loop bs cur n \<noteq> Panic"
proof (induction bs cur n rule: tag_loop.induct)
  case (1 bs cur n)
  then show ?case
    by (subst tag_loop.simps) (auto simp: result_simps)
qed

section \<open>Lengths\<close>

lemma len_loop_octets:
  "length cs = k \<Longrightarrow> len_loop k (pre @ cs @ rest) (length pre) v
     = Ok (foldl (\<lambda>v b. v * 256 + ucast b) v cs, length pre + k)"
proof (induction k arbitrary: pre cs v)
  case (Suc k)
  then obtain b bs where cs: "cs = b # bs" "length bs = k" by (cases cs) auto
  have "len_loop k ((pre @ [b]) @ bs @ rest) (length (pre @ [b])) (v * 256 + ucast b)
      = Ok (foldl (\<lambda>v b. v * 256 + ucast b) (v * 256 + ucast b) bs, length (pre @ [b]) + k)"
    by (rule Suc.IH [OF cs(2)])
  then show ?case
    by (simp add: cs checked_shl_def index_def len_step)
qed simp

lemma len_loop_OkD:
  "len_loop k bs cur v = Ok (w, cur') \<Longrightarrow> cur \<le> length bs \<Longrightarrow> cur' = cur + k \<and> cur' \<le> length bs"
  by (induction k arbitrary: cur v) (fastforce simp: result_simps split: if_splits)+

lemma len_loop_not_Panic [simp]: "len_loop k bs cur v \<noteq> Panic"
  by (induction k arbitrary: cur v) (auto simp: result_simps)

lemma unat_len_octets:
  assumes "length cs \<le> 4"
  shows "unat (foldl (\<lambda>v b. v * 256 + ucast b) (0 :: u64) cs) = be_nat cs"
proof -
  have "foldl (\<lambda>v b. v * 256 + ucast b) (0 :: u64) cs = from_be_bytes cs"
    using foldl_word_octets [of 0 cs, where 'w = 64] by (simp add: from_be_bytes_def be_nat_def)
  then show ?thesis
    using assms by (simp add: unat_from_be_bytes)
qed

section \<open>The headers the parser accepts\<close>

text \<open>
  A tag number below 31 sits in the first octet; any other, and also a smaller one padded with
  zero digits, follows in base 128. A length is one octet below 128, or one to four octets
  after their number.
\<close>

datatype tlv_tag = LowTag nat | HighTag "nat list"

datatype tlv_len = ShortLen nat | LongLen bytes

fun tag_ok :: "tlv_tag \<Rightarrow> bool" where
  "tag_ok (LowTag t) \<longleftrightarrow> t < 31"
| "tag_ok (HighTag ds) \<longleftrightarrow> digits_ok ds"

fun tag_value :: "tlv_tag \<Rightarrow> nat" where
  "tag_value (LowTag t) = t"
| "tag_value (HighTag ds) = base128 ds"

fun len_ok :: "tlv_len \<Rightarrow> bool" where
  "len_ok (ShortLen n) \<longleftrightarrow> n < 128"
| "len_ok (LongLen cs) \<longleftrightarrow> 1 \<le> length cs \<and> length cs \<le> 4"

fun len_value :: "tlv_len \<Rightarrow> nat" where
  "len_value (ShortLen n) = n"
| "len_value (LongLen cs) = be_nat cs"

definition first_octet :: "nat \<Rightarrow> bool \<Rightarrow> nat \<Rightarrow> u8" where
  "first_octet class constructed low5 =
     word_of_nat (class * 64 + (if constructed then 32 else 0) + low5)"

fun tag_encode :: "nat \<Rightarrow> bool \<Rightarrow> tlv_tag \<Rightarrow> bytes" where
  "tag_encode class constructed (LowTag t) = [first_octet class constructed t]"
| "tag_encode class constructed (HighTag ds) = first_octet class constructed 31 # tag_octets ds"

fun len_encode :: "tlv_len \<Rightarrow> bytes" where
  "len_encode (ShortLen n) = [word_of_nat n]"
| "len_encode (LongLen cs) = word_of_nat (128 + length cs) # cs"

definition header_encode :: "nat \<Rightarrow> bool \<Rightarrow> tlv_tag \<Rightarrow> tlv_len \<Rightarrow> bytes" where
  "header_encode class constructed tag len = tag_encode class constructed tag @ len_encode len"

lemma unat_first_octet:
  assumes "class < 4" "low5 < 32"
  shows "unat (first_octet class k low5) = class * 64 + (if k then 32 else 0) + low5"
  using assms by (simp only: first_octet_def unat_word_of_nat_u8) simp

lemma first_octet_parts:
  assumes "class < 4" "low5 < 32"
  shows "drop_bit 6 (first_octet class k low5) AND 3 = (word_of_nat class :: u8)"
    and "first_octet class k low5 AND 0x20 = 0 \<longleftrightarrow> \<not> k"
    and "first_octet class k low5 AND 0x1F = word_of_nat low5"
proof -
  have *: "unat (first_octet class k low5) = class * 64 + (if k then 32 else 0) + low5"
    by (rule unat_first_octet [OF assms])
  have sum: "class * 64 + (if k then 32 else 0) + low5
      = low5 + (2 * class + (if k then 1 else 0)) * 32" by simp
  have mod: "(class * 64 + (if k then 32 else 0) + low5) mod 32 = low5"
    unfolding sum mod_mult_self1 using assms(2) by (rule mod_less)
  have div: "(class * 64 + (if k then 32 else 0) + low5) div 32 = 2 * class + (if k then 1 else 0)"
    unfolding sum using assms(2) by simp
  have "unat (word_of_nat class :: u8) = class" "unat (word_of_nat low5 :: u8) = low5"
    using assms by (simp_all add: unat_word_of_nat_u8)
  then show "drop_bit 6 (first_octet class k low5) AND 3 = (word_of_nat class :: u8)"
    and "first_octet class k low5 AND 0x1F = word_of_nat low5"
    using assms mod by (auto intro!: unat_inject simp: unat_class unat_and_1F *)
  show "first_octet class k low5 AND 0x20 = 0 \<longleftrightarrow> \<not> k"
    unfolding and_20_iff * div by simp
qed

lemma octet_bits: "n = n div 64 * 64 + (if odd (n div 32) then 32 else 0) + n mod 32" for n :: nat
proof -
  have a: "n div 32 = 2 * (n div 64) + (if odd (n div 32) then 1 else 0)"
    using div_mult2_eq [of n 32 2] by (auto elim!: oddE)
  have b: "n div 32 * 32 + n mod 32 = n" by simp
  show ?thesis
  proof (cases "odd (n div 32)")
    case True
    with a b have "(2 * (n div 64) + 1) * 32 + n mod 32 = n" by simp
    with True show ?thesis by simp
  next
    case False
    with a b have "(2 * (n div 64)) * 32 + n mod 32 = n" by simp
    with False show ?thesis by simp
  qed
qed

lemma octet_split: "b = first_octet (unat b div 64) (b AND 0x20 \<noteq> 0) (unat (b AND 0x1F))"
proof (rule unat_inject)
  have lt: "unat b < 256" by (rule unat_u8_less)
  then have "unat b div 64 < 4" by auto
  moreover have "unat b mod 32 < 32" by simp
  ultimately show "unat b = unat (first_octet (unat b div 64) (b AND 0x20 \<noteq> 0) (unat (b AND 0x1F)))"
    using octet_bits [of "unat b"] by (simp add: unat_first_octet unat_and_1F and_20_iff)
qed

section \<open>The parser against the encoder\<close>

lemma length_tag_encode: "tag_ok tag \<Longrightarrow> 1 \<le> length (tag_encode class k tag)"
  by (cases tag) auto

lemma header_nonempty [simp]: "header_encode class k tag len \<noteq> []"
  by (cases tag) (simp_all add: header_encode_def)

lemma length_header: "2 \<le> length (header_encode class k tag len)"
  by (cases tag; cases len) (simp_all add: header_encode_def)

text \<open>The part of the parser after the tag.\<close>

definition parse_length :: "bytes \<Rightarrow> nat \<Rightarrow> (u64 \<times> nat, unit) result" where
  "parse_length bs cur =
     (if cur \<ge> length bs then Err ()
      else and_then (index bs cur) (\<lambda>len_first.
        if len_first AND 0x80 = 0 then Ok (ucast len_first, cur + 1)
        else let n = unat (len_first AND 0x7F) in
          if n = 0 \<or> n > 4 then Err () else len_loop n bs (cur + 1) 0))"

definition parse_tag :: "bytes \<Rightarrow> nat \<Rightarrow> (u8 \<times> bool \<times> u32 \<times> nat, unit) result" where
  "parse_tag bs pos =
     (if pos \<ge> length bs then Err ()
      else and_then (index bs pos) (\<lambda>first.
        and_then (if first AND 0x1F < 0x1F then Ok (ucast (first AND 0x1F), pos + 1)
                  else tag_loop bs (pos + 1) 0)
          (\<lambda>(t, cur). Ok (drop_bit 6 first AND 3, first AND 0x20 \<noteq> 0, t, cur))))"

lemma parse_tlv_header_parts:
  "parse_tlv_header bs pos =
     and_then (parse_tag bs pos) (\<lambda>(c, k, t, cur).
     and_then (parse_length bs cur) (\<lambda>(l, cur). Ok (c, k, t, cur - pos, unat l)))"
  unfolding parse_tlv_header_def parse_tag_def parse_length_def Let_def
  by (cases "tag_loop bs (Suc pos) 0")
     (simp_all add: index_def and_then_assoc case_prod_beta if_distrib [of "\<lambda>r. and_then r _"]
       cong: if_cong)

lemma parse_tag_encode:
  assumes "class < 4" "tag_ok tag"
  shows "parse_tag (pre @ tag_encode class k tag @ rest) (length pre)
     = Ok (word_of_nat class, k, word_of_nat (tag_value tag), length pre + length (tag_encode class k tag))"
proof (cases tag)
  case (LowTag t)
  with assms have t: "t < 31" by simp
  then have ut: "unat (word_of_nat t :: u8) = t"
    by (simp only: unat_word_of_nat_u8) simp
  then have "(word_of_nat t :: u8) < 31"
    using t by (simp add: word_less_nat_alt)
  moreover have "(ucast (word_of_nat t :: u8) :: u32) = word_of_nat t"
    by (metis of_nat_unat ut)
  ultimately show ?thesis
    using t assms(1) first_octet_parts [of "class" t k]
    by (simp add: LowTag parse_tag_def index_def)
next
  case (HighTag ds)
  with assms have ds: "digits_ok ds" by simp
  have "(word_of_nat 31 :: u8) = 31" by simp
  moreover have "tag_loop ((pre @ [first_octet class k 31]) @ tag_octets ds @ rest)
      (length (pre @ [first_octet class k 31])) 0
    = Ok (foldl (\<lambda>n d. n * 128 + word_of_nat d) 0 ds, length (pre @ [first_octet class k 31]) + length ds)"
    by (rule tag_loop_octets [OF ds])
  moreover have "foldl (\<lambda>n d. n * 128 + word_of_nat d) (0 :: u32) ds = word_of_nat (base128 ds)"
    using foldl_word_digits [of 0 ds, where 'w = 32] by (simp add: base128_def)
  ultimately show ?thesis
    using assms(1) first_octet_parts [of "class" 31 k]
    by (simp add: HighTag parse_tag_def index_def)
qed

lemma parse_length_encode:
  assumes "len_ok len"
  shows "\<exists>l. parse_length (pre @ len_encode len @ rest) (length pre)
     = Ok (l, length pre + length (len_encode len)) \<and> unat l = len_value len"
proof (cases len)
  case (ShortLen n)
  with assms have n: "n < 128" by simp
  then have "unat (word_of_nat n :: u8) = n"
    by (simp only: unat_word_of_nat_u8) simp
  with n show ?thesis
    by (simp add: ShortLen parse_length_def index_def and_80_iff unsigned_ucast_eq take_bit_nat_eq_self)
next
  case (LongLen cs)
  with assms have cs: "1 \<le> length cs" "length cs \<le> 4" by auto
  have u: "unat (word_of_nat (128 + length cs) :: u8) = 128 + length cs"
    using cs by (simp only: unat_word_of_nat_u8) simp
  let ?b = "word_of_nat (128 + length cs) :: u8"
  have "unat (?b AND 0x7F) = length cs"
    using cs by (simp only: unat_and_7F u) simp
  moreover have "len_loop (length cs) ((pre @ [?b]) @ cs @ rest) (length (pre @ [?b])) 0
      = Ok (foldl (\<lambda>v b. v * 256 + ucast b) 0 cs, length (pre @ [?b]) + length cs)"
    by (rule len_loop_octets) simp
  moreover have "?b AND 0x80 \<noteq> 0" by (simp add: and_80_iff u del: of_nat_add)
  ultimately show ?thesis
    using cs unat_len_octets [OF cs(2)]
    by (auto simp: LongLen parse_length_def index_def Let_def simp del: of_nat_add)
qed

text \<open>Writing a header and parsing it.\<close>

lemma parse_header_encode:
  assumes "class < 4" "tag_ok tag" "len_ok len"
  shows "parse_tlv_header (pre @ header_encode class k tag len @ rest) (length pre)
     = Ok (word_of_nat class, k, word_of_nat (tag_value tag),
           length (header_encode class k tag len), len_value len)"
proof -
  let ?t = "tag_encode class k tag" and ?l = "len_encode len"
  obtain l where "parse_length ((pre @ ?t) @ ?l @ rest) (length (pre @ ?t))
      = Ok (l, length (pre @ ?t) + length ?l)" "unat l = len_value len"
    using parse_length_encode [OF assms(3)] by blast
  then show ?thesis
    using parse_tag_encode [OF assms(1,2), of pre k "?l @ rest"]
    by (simp add: parse_tlv_header_parts header_encode_def)
qed

text \<open>Every header the parser accepts is one of these.\<close>

lemma parse_tag_OkD:
  assumes "parse_tag bs pos = Ok (c, k, t, cur)"
  shows "\<exists>class tag rest. class < 4 \<and> tag_ok tag \<and> drop pos bs = tag_encode class k tag @ rest
     \<and> cur = pos + length (tag_encode class k tag) \<and> cur \<le> length bs"
proof -
  from assms have pos: "pos < length bs" by (auto simp: parse_tag_def split: if_splits)
  let ?b = "bs ! pos"
  let ?cls = "unat ?b div 64"
  have cls: "?cls < 4" using unat_u8_less [of ?b] by auto
  have k: "k \<longleftrightarrow> ?b AND 0x20 \<noteq> 0"
    using assms pos by (auto simp: parse_tag_def index_def result_simps split: if_splits prod.splits)
  have b: "?b = first_octet ?cls k (unat (?b AND 0x1F))"
    unfolding k by (rule octet_split)
  have drop: "drop pos bs = ?b # drop (Suc pos) bs"
    using pos by (rule Cons_nth_drop_Suc [symmetric])
  show ?thesis
  proof (cases "?b AND 0x1F < 0x1F")
    case True
    then have "unat (?b AND 0x1F) < 31" by (simp add: word_less_nat_alt)
    moreover from True assms pos have "cur = pos + 1"
      by (auto simp: parse_tag_def index_def result_simps)
    ultimately show ?thesis
      using cls b drop pos
      by (intro exI [of _ ?cls] exI [of _ "LowTag (unat (?b AND 0x1F))"]
            exI [of _ "drop (Suc pos) bs"]) simp
  next
    case False
    have "unat (?b AND 0x1F) < 32" by (simp add: unat_and_1F)
    moreover have "\<not> unat (?b AND 0x1F) < 31"
      using False by (simp add: word_less_nat_alt)
    ultimately have "unat (?b AND 0x1F) = 31" by linarith
    with b have b31: "?b = first_octet ?cls k 31" by simp
    from False assms pos have "tag_loop bs (pos + 1) 0 = Ok (t, cur)"
      by (auto simp: parse_tag_def index_def result_simps)
    from tag_loop_OkD [OF this] obtain ds rest where
      "digits_ok ds" "drop (pos + 1) bs = tag_octets ds @ rest" "cur = pos + 1 + length ds"
      "cur \<le> length bs" by blast
    with cls drop b31 show ?thesis
      by (intro exI [of _ ?cls] exI [of _ "HighTag ds"] exI [of _ rest]) simp
  qed
qed

lemma parse_length_OkD:
  assumes "parse_length bs cur = Ok (l, cur')"
  shows "\<exists>len rest. len_ok len \<and> drop cur bs = len_encode len @ rest
     \<and> cur' = cur + length (len_encode len) \<and> cur' \<le> length bs"
proof -
  from assms have cur: "cur < length bs" by (auto simp: parse_length_def split: if_splits)
  let ?b = "bs ! cur"
  have drop: "drop cur bs = ?b # drop (Suc cur) bs"
    using cur by (rule Cons_nth_drop_Suc [symmetric])
  show ?thesis
  proof (cases "?b AND 0x80 = 0")
    case True
    with assms cur have "cur' = cur + 1" by (auto simp: parse_length_def index_def)
    with True drop cur show ?thesis
      by (intro exI [of _ "ShortLen (unat ?b)"] exI [of _ "drop (Suc cur) bs"])
         (simp add: and_80_iff)
  next
    case False
    let ?n = "unat (?b AND 0x7F)"
    from False assms cur have n: "?n \<noteq> 0" "?n \<le> 4" and loop: "len_loop ?n bs (cur + 1) 0 = Ok (l, cur')"
      by (auto simp: parse_length_def index_def Let_def split: if_splits)
    from len_loop_OkD [OF loop] cur have cur': "cur' = cur + 1 + ?n" "cur' \<le> length bs" by auto
    let ?cs = "take ?n (drop (Suc cur) bs)"
    have len: "length ?cs = ?n" using cur' by simp
    have "unat ?b < 256" "\<not> unat ?b < 128"
      using False unat_u8_less [of ?b] by (simp_all add: and_80_iff)
    then have "128 + ?n = unat ?b" by (simp add: unat_and_7F le_mod_geq)
    then have b: "word_of_nat (128 + ?n) = ?b" by (simp only:) simp
    have "drop cur bs = len_encode (LongLen ?cs) @ drop ?n (drop (Suc cur) bs)"
      by (simp only: len_encode.simps len b drop append_Cons append_take_drop_id)
    with n len cur' show ?thesis
      by (intro exI [of _ "LongLen ?cs"] exI [of _ "drop ?n (drop (Suc cur) bs)"]) simp
  qed
qed

lemma parse_tlv_header_Ok_iff:
  "parse_tlv_header bs pos = Ok (c, k, t, h, l) \<longleftrightarrow>
     (\<exists>class tag len rest. class < 4 \<and> tag_ok tag \<and> len_ok len
        \<and> drop pos bs = header_encode class k tag len @ rest
        \<and> c = word_of_nat class \<and> t = word_of_nat (tag_value tag)
        \<and> h = length (header_encode class k tag len) \<and> l = len_value len)"
    (is "?parsed \<longleftrightarrow> ?form")
proof
  assume ?form
  then obtain cl tag len rest where f: "cl < 4" "tag_ok tag" "len_ok len"
    and d: "drop pos bs = header_encode cl k tag len @ rest"
    and r: "c = word_of_nat cl" "t = word_of_nat (tag_value tag)"
      "h = length (header_encode cl k tag len)" "l = len_value len" by blast
  from d have "pos < length bs" by (metis append_is_Nil_conv drop_all header_nonempty not_less)
  with d have "bs = take pos bs @ header_encode cl k tag len @ rest" "length (take pos bs) = pos"
    by (metis append_take_drop_id) (simp add: \<open>pos < length bs\<close> less_imp_le)
  with parse_header_encode [OF f, of "take pos bs" k rest] r show ?parsed by simp
next
  assume parsed: ?parsed
  then obtain cur l' cur' where 1: "parse_tag bs pos = Ok (c, k, t, cur)"
    and 2: "parse_length bs cur = Ok (l', cur')"
    by (auto simp: parse_tlv_header_parts result_simps)
  from parse_tag_OkD [OF 1] obtain cl tag rest where t: "cl < 4" "tag_ok tag"
    "drop pos bs = tag_encode cl k tag @ rest" "cur = pos + length (tag_encode cl k tag)" by blast
  from parse_length_OkD [OF 2] obtain len rest' where len: "len_ok len"
    "drop cur bs = len_encode len @ rest'" by blast
  from t have "drop cur bs = rest" by (metis append_eq_conv_conj drop_drop add.commute)
  with t(3) len(2) have d: "drop pos bs = header_encode cl k tag len @ rest'"
    by (simp add: header_encode_def)
  then have "pos < length bs" by (metis append_is_Nil_conv drop_all header_nonempty not_less)
  then have "bs = take pos bs @ header_encode cl k tag len @ rest'" "length (take pos bs) = pos"
    using d by (metis append_take_drop_id) (simp add: \<open>pos < length bs\<close> less_imp_le)
  with parse_header_encode [OF t(1,2) len(1), of "take pos bs" k rest'] parsed
  have "c = word_of_nat cl" "t = word_of_nat (tag_value tag)"
    "h = length (header_encode cl k tag len)" "l = len_value len" by auto
  with t(1,2) len(1) d show ?form by blast
qed

lemma parse_tlv_header_not_Panic [simp]: "parse_tlv_header bs pos \<noteq> Panic"
  by (auto simp: parse_tlv_header_def Let_def result_simps split: if_splits)

lemma parse_tlv_header_bounds:
  assumes "parse_tlv_header bs pos = Ok (c, k, t, h, l)"
  shows "2 \<le> h \<and> pos + h \<le> length bs \<and> l < 2 ^ 32 \<and> unat c < 4"
proof -
  from assms obtain cl tag len rest where *: "cl < 4" "len_ok len"
    "drop pos bs = header_encode cl k tag len @ rest" "c = word_of_nat cl"
    "h = length (header_encode cl k tag len)" "l = len_value len"
    unfolding parse_tlv_header_Ok_iff by blast
  have "length bs - pos = h + length rest" using *(3,5) by (metis length_append length_drop)
  moreover have "2 \<le> h" using *(5) length_header by simp
  moreover have "l < 2 ^ 32"
  proof (cases len)
    case (LongLen cs)
    with *(2) have "(256::nat) ^ length cs \<le> 256 ^ 4" by (intro power_increasing) auto
    with LongLen *(6) be_nat_less [of cs] show ?thesis by simp
  qed (use * in auto)
  moreover have "unat c < 4"
    using *(1,4) by (simp add: unat_word_of_nat_u8)
  ultimately show ?thesis by linarith
qed

section \<open>Whole elements\<close>

text \<open>
  A TLV element with the canonical header: the shortest tag form, and a length in four octets.
  Reading one element off the front of a byte string is what the walk over an authorization
  list does at each step; the interpretation says that elements written one after another are
  read back one by one.
\<close>

record tlv =
  tlv_class :: u8
  tlv_constructed :: bool
  tlv_number :: u32
  tlv_body :: bytes

fun digits128 :: "nat \<Rightarrow> nat list" where
  "digits128 n = (if n < 128 then [n] else digits128 (n div 128) @ [n mod 128])"

declare digits128.simps [simp del]

lemma digits_ok_digits128: "digits_ok (digits128 n)"
proof (induction n rule: digits128.induct)
  case (1 n)
  then show ?case by (subst digits128.simps) (auto simp: digits_ok_def)
qed

lemma base128_digits128: "base128 (digits128 n) = n"
proof (induction n rule: digits128.induct)
  case (1 n)
  then show ?case
    by (subst digits128.simps) (auto simp: base128_def)
qed

definition tag_form :: "nat \<Rightarrow> tlv_tag" where
  "tag_form n = (if n < 31 then LowTag n else HighTag (digits128 n))"

lemma tag_form_ok [simp]: "tag_ok (tag_form n)"
  by (simp add: tag_form_def digits_ok_digits128)

lemma tag_form_value [simp]: "tag_value (tag_form n) = n"
  by (simp add: tag_form_def base128_digits128)

definition tlv_encode :: "tlv \<Rightarrow> bytes" where
  "tlv_encode e = header_encode (unat (tlv_class e)) (tlv_constructed e)
     (tag_form (unat (tlv_number e))) (LongLen (be_bytes 4 (length (tlv_body e)))) @ tlv_body e"

definition split_tlv :: "bytes \<Rightarrow> (tlv \<times> bytes) option" where
  "split_tlv bs =
     (case parse_tlv_header bs 0 of
        Ok (c, k, t, h, l) \<Rightarrow>
          if h + l \<le> length bs
          then Some (\<lparr>tlv_class = c, tlv_constructed = k, tlv_number = t,
                      tlv_body = take l (drop h bs)\<rparr>, drop (h + l) bs)
          else None
      | _ \<Rightarrow> None)"

definition tlv_wf :: "tlv \<Rightarrow> bool" where
  "tlv_wf e \<longleftrightarrow> unat (tlv_class e) < 4 \<and> length (tlv_body e) < 2 ^ 32"

lemma split_tlv_encode:
  assumes "tlv_wf e"
  shows "split_tlv (tlv_encode e @ rest) = Some (e, rest)"
proof -
  let ?h = "header_encode (unat (tlv_class e)) (tlv_constructed e)
     (tag_form (unat (tlv_number e))) (LongLen (be_bytes 4 (length (tlv_body e))))"
  have "be_nat (be_bytes 4 (length (tlv_body e))) = length (tlv_body e)"
    using assms by (simp add: be_nat_be_bytes tlv_wf_def)
  then have "parse_tlv_header (?h @ tlv_body e @ rest) 0
      = Ok (tlv_class e, tlv_constructed e, tlv_number e, length ?h, length (tlv_body e))"
    using assms parse_header_encode [of "unat (tlv_class e)" "tag_form (unat (tlv_number e))"
      "LongLen (be_bytes 4 (length (tlv_body e)))" "[]" "tlv_constructed e" "tlv_body e @ rest"]
    by (simp add: tlv_wf_def)
  then show ?thesis by (simp add: split_tlv_def tlv_encode_def)
qed

interpretation tlv_elements: decodable tlv_encode split_tlv tlv_wf
proof unfold_locales
  show "split_tlv (tlv_encode e @ rest) = Some (e, rest)" if "tlv_wf e" for e rest
    using that by (rule split_tlv_encode)
  show "tlv_encode e \<noteq> []" for e
    by (simp add: tlv_encode_def)
qed

text \<open>The position in the input is only an offset.\<close>

lemma parse_tlv_header_drop:
  "parse_tlv_header (drop p bs) 0 = Ok r \<longleftrightarrow> parse_tlv_header bs p = Ok r"
  by (cases r) (simp add: parse_tlv_header_Ok_iff)

section \<open>Properties\<close>

text \<open>
  C9. The TLV header parser accepts exactly the encodings of a class below 4, a constructed
  flag, a tag number in the low-tag or the base-128 form and a length in the short or in the
  one-to-four-octet form, and returns these values, the tag number reduced to 32 bits; it never
  panics, and what it returns keeps the header inside the input.
\<close>

theorem tlv_header_accepts:
  "parse_tlv_header bs pos \<noteq> Panic
   \<and> (parse_tlv_header bs pos = Ok (c, k, t, h, l) \<longleftrightarrow>
       (\<exists>class tag len rest. class < 4 \<and> tag_ok tag \<and> len_ok len
          \<and> drop pos bs = header_encode class k tag len @ rest
          \<and> c = word_of_nat class \<and> t = word_of_nat (tag_value tag)
          \<and> h = length (header_encode class k tag len) \<and> l = len_value len
          \<and> 2 \<le> h \<and> pos + h \<le> length bs \<and> l < 2 ^ 32))"
proof -
  have "\<exists>class tag len rest. class < 4 \<and> tag_ok tag \<and> len_ok len
          \<and> drop pos bs = header_encode class k tag len @ rest
          \<and> c = word_of_nat class \<and> t = word_of_nat (tag_value tag)
          \<and> h = length (header_encode class k tag len) \<and> l = len_value len
          \<and> 2 \<le> h \<and> pos + h \<le> length bs \<and> l < 2 ^ 32"
    if "parse_tlv_header bs pos = Ok (c, k, t, h, l)"
    using parse_tlv_header_bounds [OF that] that [unfolded parse_tlv_header_Ok_iff] by blast
  then show ?thesis unfolding parse_tlv_header_Ok_iff by auto
qed

text \<open>
  C38. A tag number that does not fit 32 bits is not rejected: \<open>checked_shl\<close> looks at the shift
  amount only, so the parser reads the number modulo \<open>2 ^ 32\<close>. In particular the digits of
  \<open>n + 2 ^ 32\<close> and of \<open>n\<close> are read as the same tag.
\<close>

theorem tag_number_wraps:
  assumes "cls < 4" and "len_ok len"
  shows "\<exists>h. parse_tlv_header (header_encode cls k (HighTag (digits128 (n + 2 ^ 32))) len @ rest) 0
     = Ok (word_of_nat cls, k, word_of_nat n, h, len_value len)"
proof -
  have "(word_of_nat (n + 2 ^ 32) :: u32) = word_of_nat n"
    by (simp add: word_eq_iff_unsigned unat_of_nat)
  then show ?thesis
    using parse_header_encode [of cls "HighTag (digits128 (n + 2 ^ 32))" len "[]" k rest] assms
    by (simp add: digits_ok_digits128 base128_digits128)
qed

theorem tag_number_wraps_witness:
  "\<exists>h. parse_tlv_header (header_encode 2 True (HighTag (digits128 (704 + 2 ^ 32))) (ShortLen 0) @ []) 0
     = Ok (2, True, 704, h, 0)"
  using tag_number_wraps [where cls = 2 and n = 704 and len = "ShortLen 0" and k = True and rest = "[]"] by simp

end
