(* ===== verification/Android_KeyDescription.thy ===== *)
theory Android_KeyDescription
  imports Android_Errors Android_Tlv Sample
begin

text \<open>
  The decoder of the attestation extension (\<open>rust/attest-android/src/key_description.rs\<close>).
  A DER reader is the input it has left and every decoder returns the rest; the primitive
  readers are those of the \<open>der\<close> crate. The walk over an authorization list, the two's
  complement integers and the package identification are modelled whole. Slice positions are
  natural numbers: they are bounded by the input and a 32-bit length, far below a 64-bit
  \<open>usize\<close>.
\<close>

section \<open>Data\<close>

definition OID_ANDROID_KEY_ATTESTATION :: oid where
  "OID_ANDROID_KEY_ATTESTATION = [1, 3, 6, 1, 4, 1, 11129, 2, 1, 17]"

record root_of_trust_block =
  verified_boot_key :: bytes
  device_locked :: bool
  boot_state :: verified_boot_state
  verified_boot_hash :: "bytes option"

record authorization_list =
  creation_date_time :: "u64 option"
  root_of_trust :: "root_of_trust_block option"
  os_version :: "u32 option"
  os_patch_level :: "u32 option"
  application_id :: "bytes option"

definition authorization_list_default :: authorization_list where
  "authorization_list_default = \<lparr>creation_date_time = None, root_of_trust = None,
     os_version = None, os_patch_level = None, application_id = None\<rparr>"

record key_description =
  attestation_version :: i32
  attestation_security_level :: security_level
  keymint_version :: i32
  keymint_security_level :: security_level
  attestation_challenge :: bytes
  unique_id :: bytes
  software_enforced :: authorization_list
  hardware_enforced :: authorization_list

section \<open>Reading\<close>

text \<open>A call of the \<open>der\<close> crate whose error the caller passes on unchanged.\<close>

definition der :: "der_error + 'a \<Rightarrow> ('a, der_error) result" where
  "der r = map_err (\<lambda>e. e) r"

text \<open>
  The big-endian content of an integer copied to the right end of a buffer of \<open>n\<close> octets that
  was filled with the sign.
\<close>

definition is_negative :: "bytes \<Rightarrow> bool" where
  "is_negative bs = (case bs of [] \<Rightarrow> False | b # _ \<Rightarrow> b AND 0x80 \<noteq> 0)"

definition right_align :: "nat \<Rightarrow> u8 \<Rightarrow> bytes \<Rightarrow> (bytes, 'e) result" where
  "right_align n fill bs =
     (if length bs \<le> n then Ok (replicate (n - length bs) fill @ bs) else Panic)"

definition decode_i32 :: "crates \<Rightarrow> bytes \<Rightarrow> (i32 \<times> bytes, der_error) result" where
  "decode_i32 X reader =
     and_then (der (der_decode_int X reader)) (\<lambda>(bs, reader).
     if length bs > 4 then Err Overflow else
     and_then (right_align 4 (if is_negative bs then 0xFF else 0) bs) (\<lambda>buf.
     Ok (from_be_bytes buf, reader)))"

definition decode_u64 :: "crates \<Rightarrow> bytes \<Rightarrow> (u64 \<times> bytes, der_error) result" where
  "decode_u64 X reader =
     and_then (der (der_decode_int X reader)) (\<lambda>(bs, reader).
     if is_negative bs then Err (ValueError TInteger) else
     if length bs > 8 then Err Overflow else
     and_then (right_align 8 0 bs) (\<lambda>buf.
     Ok (from_be_bytes buf, reader)))"

definition decode_enumerated :: "crates \<Rightarrow> bytes \<Rightarrow> (i32 \<times> bytes, der_error) result" where
  "decode_enumerated X reader =
     and_then (der (der_decode_header X reader)) (\<lambda>(header, reader).
     if header_tag header \<noteq> TEnumerated
       then Err (TagUnexpected TEnumerated (header_tag header)) else
     and_then (der (der_read_slice X reader (header_length header))) (\<lambda>(body, reader).
     if length body > 4 then Err Overflow else
     and_then (right_align 4 (if is_negative body then 0xFF else 0) body) (\<lambda>buf.
     Ok (from_be_bytes buf, reader))))"

definition decode_root_of_trust ::
    "crates \<Rightarrow> bytes \<Rightarrow> (root_of_trust_block \<times> bytes, der_error) result" where
  "decode_root_of_trust X reader =
     and_then (der (der_decode_header X reader)) (\<lambda>(header, reader).
     if header_tag header \<noteq> TSequence
       then Err (TagUnexpected TSequence (header_tag header)) else
     and_then (der (der_read_slice X reader (header_length header))) (\<lambda>(body, reader).
     and_then (der (slice_reader_new X body)) (\<lambda>br.
     and_then (der (der_decode_octet_string X br)) (\<lambda>(key, br).
     and_then (der (der_decode_bool X br)) (\<lambda>(locked, br).
     and_then (map_error (\<lambda>_. ValueError TEnumerated) (decode_enumerated X br)) (\<lambda>(state_i, br).
     and_then (ok_or (ValueError TEnumerated) (verified_boot_state_from_i32 state_i)) (\<lambda>state.
     and_then (if der_is_finished X br then Ok None
               else and_then (der (der_decode_octet_string X br)) (\<lambda>(hash, _). Ok (Some hash)))
       (\<lambda>hash.
     Ok (\<lparr>verified_boot_key = key, device_locked = locked, boot_state = state,
          verified_boot_hash = hash\<rparr>, reader)))))))))"

section \<open>Authorization lists\<close>

text \<open>What the walk does with the content of one context-specific element.\<close>

definition decode_field ::
    "crates \<Rightarrow> u32 \<Rightarrow> bytes \<Rightarrow> authorization_list \<Rightarrow> (authorization_list, der_error) result" where
  "decode_field X tag_num ir out =
     (if tag_num = 701 then
        and_then (map_error (\<lambda>_. ValueError TInteger) (decode_u64 X ir)) (\<lambda>(n, _).
          Ok (out\<lparr>creation_date_time := Some n\<rparr>))
      else if tag_num = 704 then
        and_then (decode_root_of_trust X ir) (\<lambda>(rot, _). Ok (out\<lparr>root_of_trust := Some rot\<rparr>))
      else if tag_num = 705 then
        and_then (map_error (\<lambda>_. ValueError TInteger) (decode_i32 X ir)) (\<lambda>(n, _).
          Ok (out\<lparr>os_version := Some n\<rparr>))
      else if tag_num = 706 then
        and_then (map_error (\<lambda>_. ValueError TInteger) (decode_i32 X ir)) (\<lambda>(n, _).
          Ok (out\<lparr>os_patch_level := Some n\<rparr>))
      else if tag_num = 709 then
        and_then (der (der_decode_octet_string X ir)) (\<lambda>(v, _).
          Ok (out\<lparr>application_id := Some v\<rparr>))
      else Ok out)"

definition decode_element ::
    "crates \<Rightarrow> u8 \<Rightarrow> u32 \<Rightarrow> bytes \<Rightarrow> authorization_list \<Rightarrow> (authorization_list, der_error) result" where
  "decode_element X class tag_num inner out =
     (if class = 2
      then and_then (der (slice_reader_new X inner)) (\<lambda>ir. decode_field X tag_num ir out)
      else Ok out)"

text \<open>\<open>while pos < body_bytes.len()\<close>; every header has at least two octets, so it ends.\<close>

function authorization_loop ::
    "crates \<Rightarrow> bytes \<Rightarrow> nat \<Rightarrow> authorization_list \<Rightarrow> (authorization_list, der_error) result" where
  "authorization_loop X body pos out =
     (if pos \<ge> length body then Ok out
      else (case parse_tlv_header body pos of
              Ok (class, constructed, tag_num, header_len, body_len) \<Rightarrow>
                let value_start = pos + header_len; value_end = value_start + body_len in
                if value_end > length body then Err (LengthError TSequence)
                else and_then (slice body value_start value_end) (\<lambda>inner.
                  and_then (decode_element X class tag_num inner out) (\<lambda>out.
                  authorization_loop X body value_end out))
            | Err _ \<Rightarrow> Err (ValueError TSequence)
            | Panic \<Rightarrow> Panic))"
  by pat_completeness auto

termination
  by (relation "measure (\<lambda>(X, body, pos, out). length body - pos)")
     (auto dest!: parse_tlv_header_bounds)

declare authorization_loop.simps [simp del]

definition decode_authorization_list ::
    "crates \<Rightarrow> bytes \<Rightarrow> (authorization_list \<times> bytes, der_error) result" where
  "decode_authorization_list X reader =
     and_then (der (der_decode_header X reader)) (\<lambda>(header, reader).
     if header_tag header \<noteq> TSequence
       then Err (TagUnexpected TSequence (header_tag header)) else
     and_then (der (der_read_slice X reader (header_length header))) (\<lambda>(body, reader).
     and_then (authorization_loop X body 0 authorization_list_default) (\<lambda>out.
     Ok (out, reader))))"

section \<open>The extension\<close>

definition named :: "crates \<Rightarrow> string \<Rightarrow> ('a, der_error) result \<Rightarrow> ('a, android_error) result" where
  "named X name r = map_error (\<lambda>e. AndroidDer (name @ '': '' @ der_display X e)) r"

definition unnamed :: "crates \<Rightarrow> ('a, der_error) result \<Rightarrow> ('a, android_error) result" where
  "unnamed X r = map_error (\<lambda>e. AndroidDer (der_display X e)) r"

definition security_level_of :: "i32 \<Rightarrow> (security_level, android_error) result" where
  "security_level_of i =
     ok_or (AndroidDer (''unknown SecurityLevel '' @ show_int (sint i))) (security_level_from_i32 i)"

definition key_description_from_der :: "crates \<Rightarrow> bytes \<Rightarrow> (key_description, android_error) result" where
  "key_description_from_der X bs =
     and_then (named X ''KeyDescription outer'' (der (slice_reader_new X bs))) (\<lambda>reader.
     and_then (unnamed X (der (der_peek_header X reader))) (\<lambda>outer_header.
     if header_tag outer_header \<noteq> TSequence
       then Err (AndroidDer (''expected SEQUENCE, got '' @ tag_debug X (header_tag outer_header))) else
     and_then (unnamed X (der (der_decode_header X reader))) (\<lambda>(header, reader).
     and_then (named X ''KeyDescription body'' (der (der_read_slice X reader (header_length header))))
       (\<lambda>(body, _).
     and_then (named X ''KeyDescription body reader'' (der (slice_reader_new X body))) (\<lambda>br.
     and_then (named X ''attestationVersion'' (decode_i32 X br)) (\<lambda>(attestation_version, br).
     and_then (named X ''attSecLevel'' (decode_enumerated X br)) (\<lambda>(att_level_i, br).
     and_then (security_level_of att_level_i) (\<lambda>att_level.
     and_then (named X ''keymintVersion'' (decode_i32 X br)) (\<lambda>(keymint_version, br).
     and_then (named X ''kmSecLevel'' (decode_enumerated X br)) (\<lambda>(km_level_i, br).
     and_then (security_level_of km_level_i) (\<lambda>km_level.
     and_then (named X ''attestationChallenge'' (der (der_decode_octet_string X br))) (\<lambda>(chal, br).
     and_then (named X ''uniqueId'' (der (der_decode_octet_string X br))) (\<lambda>(uid, br).
     and_then (named X ''softwareEnforced'' (decode_authorization_list X br)) (\<lambda>(sw, br).
     and_then (named X ''hardwareEnforced'' (decode_authorization_list X br)) (\<lambda>(hw, br).
     Ok \<lparr>attestation_version = attestation_version, attestation_security_level = att_level,
         keymint_version = keymint_version, keymint_security_level = km_level,
         attestation_challenge = chal, unique_id = uid,
         software_enforced = sw, hardware_enforced = hw\<rparr>)))))))))))))))"

section \<open>The package identification\<close>

type_synonym i64 = "64 word"

record package_info =
  package_name :: bytes
  package_version :: i64

record attestation_application_id_block =
  package_infos :: "package_info list"
  signature_digests :: "bytes list"

definition decode_i64_from_int :: "bytes \<Rightarrow> (i64, android_error) result" where
  "decode_i64_from_int bs =
     (if length bs > 8 then Err (AndroidDer ''AAID version > i64'') else
      and_then (right_align 8 (if is_negative bs then 0xFF else 0) bs) (\<lambda>buf.
      Ok (from_be_bytes buf)))"

text \<open>One turn of each of the two loops.\<close>

definition package_step :: "crates \<Rightarrow> bytes \<Rightarrow> (package_info \<times> bytes, android_error) result" where
  "package_step X pr =
     and_then (unnamed X (der (der_decode_header X pr))) (\<lambda>(h, pr).
     if header_tag h \<noteq> TSequence
       then Err (AndroidDer (''AAID PackageInfo expected SEQ got '' @ tag_debug X (header_tag h))) else
     and_then (unnamed X (der (der_read_slice X pr (header_length h)))) (\<lambda>(pbody, pr).
     and_then (unnamed X (der (slice_reader_new X pbody))) (\<lambda>pbr.
     and_then (unnamed X (der (der_decode_octet_string X pbr))) (\<lambda>(name, pbr).
     and_then (unnamed X (der (der_decode_int X pbr))) (\<lambda>(version_int, _).
     and_then (decode_i64_from_int version_int) (\<lambda>version.
     Ok (\<lparr>package_name = name, package_version = version\<rparr>, pr)))))))"

definition digest_step :: "crates \<Rightarrow> bytes \<Rightarrow> (bytes \<times> bytes, android_error) result" where
  "digest_step X sr = unnamed X (der (der_decode_octet_string X sr))"

text \<open>
  \<open>while !r.is_finished()\<close>. Whether the loop ends depends on the reader making progress, so
  the value of a loop that does not end is \<open>None\<close>.
\<close>

partial_function (option) read_until_finished ::
    "crates \<Rightarrow> (bytes \<Rightarrow> ('a \<times> bytes, 'e) result) \<Rightarrow> bytes \<Rightarrow> 'a list \<Rightarrow> ('a list, 'e) result option" where
  "read_until_finished X step r acc =
     (if der_is_finished X r then Some (Ok acc)
      else (case step r of
              Ok (v, r) \<Rightarrow> read_until_finished X step r (acc @ [v])
            | Err e \<Rightarrow> Some (Err e)
            | Panic \<Rightarrow> Some Panic))"

text \<open>The header of a SET and a reader over its content.\<close>

definition open_set ::
    "crates \<Rightarrow> string \<Rightarrow> bytes \<Rightarrow> (bytes \<times> bytes, android_error) result" where
  "open_set X name br =
     and_then (unnamed X (der (der_decode_header X br))) (\<lambda>(h, br).
     if header_tag h \<noteq> TSet
       then Err (AndroidDer (''AAID '' @ name @ '' expected SET got '' @ tag_debug X (header_tag h))) else
     and_then (unnamed X (der (der_read_slice X br (header_length h)))) (\<lambda>(body, br).
     and_then (unnamed X (der (slice_reader_new X body))) (\<lambda>r.
     Ok (r, br))))"

definition open_aaid :: "crates \<Rightarrow> bytes \<Rightarrow> (bytes, android_error) result" where
  "open_aaid X bs =
     and_then (named X ''AAID outer'' (der (slice_reader_new X bs))) (\<lambda>reader.
     and_then (unnamed X (der (der_decode_header X reader))) (\<lambda>(header, reader).
     if header_tag header \<noteq> TSequence
       then Err (AndroidDer (''AAID expected SEQUENCE got '' @ tag_debug X (header_tag header))) else
     and_then (named X ''AAID body'' (der (der_read_slice X reader (header_length header))))
       (\<lambda>(body, _).
     named X ''AAID body reader'' (der (slice_reader_new X body)))))"

fun then_loop :: "('a, 'e) result \<Rightarrow> ('a \<Rightarrow> ('b, 'e) result option) \<Rightarrow> ('b, 'e) result option" where
  "then_loop (Ok x) f = f x"
| "then_loop (Err e) f = Some (Err e)"
| "then_loop Panic f = Some Panic"

definition attestation_application_id ::
    "crates \<Rightarrow> bytes \<Rightarrow> (attestation_application_id_block, android_error) result option" where
  "attestation_application_id X bs =
     then_loop (open_aaid X bs) (\<lambda>br.
     then_loop (open_set X ''packageInfos'' br) (\<lambda>(pr, br).
     Option.bind (read_until_finished X (package_step X) pr []) (\<lambda>infos.
     then_loop infos (\<lambda>infos.
     then_loop (open_set X ''signatureDigests'' br) (\<lambda>(sr, _).
     Option.bind (read_until_finished X (digest_step X) sr []) (\<lambda>digests.
     then_loop digests (\<lambda>digests.
     Some (Ok \<lparr>package_infos = infos, signature_digests = digests\<rparr>))))))))"

section \<open>Integers\<close>

text \<open>The value of a big-endian two's complement number of any length.\<close>

definition twos_complement :: "bytes \<Rightarrow> int" where
  "twos_complement bs = int (be_nat bs) - (if is_negative bs then 256 ^ length bs else 0)"

lemma be_nat_replicate_0: "be_nat (replicate m 0 @ bs) = be_nat bs"
  by (induction m) (simp_all add: be_nat_Cons)

lemma be_nat_replicate_FF:
  "int (be_nat (replicate m 0xFF @ bs)) = 256 ^ (m + length bs) - 256 ^ length bs + int (be_nat bs)"
proof (induction m)
  case (Suc m)
  then show ?case by (simp add: be_nat_Cons power_add)
qed simp

lemma twos_complement_range:
  assumes "length bs \<le> n" "0 < n"
  shows "- (2 ^ (8 * n - 1)) \<le> twos_complement bs \<and> twos_complement bs < 2 ^ (8 * n - 1)"
proof (cases bs)
  case Nil
  then show ?thesis by (simp add: twos_complement_def is_negative_def)
next
  case (Cons b cs)
  have lt: "be_nat cs < 256 ^ length cs" by (rule be_nat_less)
  have b: "unat b < 256" by (rule unat_u8_less)
  have half: "(128::int) * 256 ^ length cs \<le> 2 ^ (8 * n - 1)"
  proof -
    have "(128::int) * 256 ^ length cs = 2 ^ (7 + 8 * length cs)"
      by (simp add: power_add power_mult)
    also have "\<dots> \<le> 2 ^ (8 * n - 1)"
      using assms Cons by (intro power_increasing) auto
    finally show ?thesis .
  qed
  have val: "int (be_nat bs) = int (unat b) * 256 ^ length cs + int (be_nat cs)"
    by (simp add: Cons be_nat_Cons)
  have ltc: "int (be_nat cs) < 256 ^ length cs"
    using lt by (metis of_nat_less_iff of_nat_numeral of_nat_power)
  show ?thesis
  proof (cases "unat b < 128")
    case True
    then have "int (unat b) * 256 ^ length cs + int (be_nat cs) < 128 * 256 ^ length cs"
    proof -
      have "int (unat b) * 256 ^ length cs \<le> 127 * 256 ^ length cs"
        using True by (intro mult_right_mono) (linarith | simp)+
      with ltc show ?thesis by linarith
    qed
    with True val half show ?thesis
      by (simp add: twos_complement_def is_negative_def Cons and_80_iff)
  next
    case False
    have "128 * 256 ^ length cs \<le> int (unat b) * 256 ^ length cs"
      using False by (intro mult_right_mono) (linarith | simp)+
    moreover have "int (unat b) * 256 ^ length cs \<le> 255 * 256 ^ length cs"
      using b by (intro mult_right_mono) (linarith | simp)+
    moreover have "twos_complement bs = int (unat b) * 256 ^ length cs + int (be_nat cs) - 256 * 256 ^ length cs"
      using False val by (simp add: twos_complement_def is_negative_def Cons and_80_iff)
    ultimately show ?thesis using half ltc by linarith
  qed
qed

lemma word_pow_0: "word_of_int (i + 2 ^ LENGTH('w)) = (word_of_int i :: 'w::len word)"
  by (simp add: word_of_int_eq_iff take_bit_eq_mod)

lemma sint_right_align:
  assumes "length bs \<le> n" "LENGTH('w::len) = 8 * n"
  shows "sint (from_be_bytes (replicate (n - length bs) (if is_negative bs then 0xFF else 0) @ bs) :: 'w word)
     = twos_complement bs"
proof -
  let ?buf = "replicate (n - length bs) (if is_negative bs then 0xFF else 0) @ bs :: bytes"
  have n: "0 < n" using assms(2) len_gt_0 [where 'a = 'w] by simp
  have pow: "(256::int) ^ n = 2 ^ LENGTH('w)" by (simp add: assms(2) power_mult)
  have "int (be_nat ?buf) = twos_complement bs + (if is_negative bs then 2 ^ LENGTH('w) else 0)"
    using assms(1) pow
    by (simp add: be_nat_replicate_0 be_nat_replicate_FF twos_complement_def)
  moreover have "(from_be_bytes ?buf :: 'w word) = word_of_int (int (be_nat ?buf))"
    by (simp only: from_be_bytes_def of_int_of_nat_eq)
  ultimately have buf: "(from_be_bytes ?buf :: 'w word) = word_of_int (twos_complement bs)"
    by (cases "is_negative bs") (simp_all del: of_nat_add add: word_pow_0)
  have "signed_take_bit (LENGTH('w) - 1) (twos_complement bs) = twos_complement bs"
    using twos_complement_range [OF assms(1) n] assms(2)
    by (intro signed_take_bit_int_eq_self) simp_all
  then show ?thesis by (simp only: buf sint_sbintrunc')
qed

lemma sint_inject: "sint a = sint b \<Longrightarrow> a = b"
  by (simp add: signed_word_eqI)

lemma der_Ok_iff [result_simps]: "der r = Ok v \<longleftrightarrow> r = Inr v"
  by (simp add: der_def map_err_Ok_iff)

lemma der_not_Panic [simp]: "der r \<noteq> Panic"
  by (simp add: der_def)

lemma right_align_Ok_iff [result_simps]:
  "right_align n fill bs = Ok v \<longleftrightarrow> length bs \<le> n \<and> v = replicate (n - length bs) fill @ bs"
  by (auto simp: right_align_def)

lemma right_align_Panic_iff [result_simps]: "right_align n fill bs = Panic \<longleftrightarrow> n < length bs"
  by (auto simp: right_align_def)

text \<open>A sign-extended buffer determines its word.\<close>

lemma sign_extend_iff:
  assumes "length bs \<le> n" "LENGTH('w::len) = 8 * n"
  shows "v = (from_be_bytes (replicate (n - length bs) (if is_negative bs then 0xFF else 0) @ bs) :: 'w word)
    \<longleftrightarrow> sint v = twos_complement bs"
  using sint_right_align [OF assms] sint_inject by metis

lemma decode_i32_Ok_iff:
  "decode_i32 X reader = Ok (v, rest) \<longleftrightarrow>
     (\<exists>bs. der_decode_int X reader = Inr (bs, rest) \<and> length bs \<le> 4 \<and> sint v = twos_complement bs)"
proof -
  have "decode_i32 X reader = Ok (v, rest) \<longleftrightarrow>
     (\<exists>bs. der_decode_int X reader = Inr (bs, rest) \<and> length bs \<le> 4
        \<and> v = from_be_bytes (replicate (4 - length bs) (if is_negative bs then 0xFF else 0) @ bs))"
    by (auto simp: decode_i32_def result_simps not_less split: prod.splits
        split del: if_split)
  then show ?thesis
    using sign_extend_iff [where 'w = 32 and n = 4] by (simp cong: conj_cong split del: if_split)
qed

lemma decode_enumerated_Ok_iff:
  "decode_enumerated X reader = Ok (v, rest) \<longleftrightarrow>
     (\<exists>h mid body. der_decode_header X reader = Inr (h, mid) \<and> header_tag h = TEnumerated
        \<and> der_read_slice X mid (header_length h) = Inr (body, rest)
        \<and> length body \<le> 4 \<and> sint v = twos_complement body)"
proof -
  have "decode_enumerated X reader = Ok (v, rest) \<longleftrightarrow>
     (\<exists>h mid body. der_decode_header X reader = Inr (h, mid) \<and> header_tag h = TEnumerated
        \<and> der_read_slice X mid (header_length h) = Inr (body, rest) \<and> length body \<le> 4
        \<and> v = from_be_bytes (replicate (4 - length body) (if is_negative body then 0xFF else 0) @ body))"
    by (auto simp: decode_enumerated_def result_simps not_less split: prod.splits
        split del: if_split)
  then show ?thesis
    using sign_extend_iff [where 'w = 32 and n = 4] by (simp cong: conj_cong split del: if_split)
qed

lemma decode_u64_Ok_iff:
  "decode_u64 X reader = Ok (v, rest) \<longleftrightarrow>
     (\<exists>bs. der_decode_int X reader = Inr (bs, rest) \<and> \<not> is_negative bs \<and> length bs \<le> 8
        \<and> unat v = be_nat bs)"
proof -
  have eq: "v = (from_be_bytes (replicate (8 - length bs) 0 @ bs) :: u64) \<longleftrightarrow> unat v = be_nat bs"
    if "length bs \<le> 8" for bs
  proof -
    have "unat (from_be_bytes (replicate (8 - length bs) 0 @ bs) :: u64) = be_nat bs"
      using that by (simp add: unat_from_be_bytes be_nat_replicate_0)
    then show ?thesis by (metis unat_inject)
  qed
  have "decode_u64 X reader = Ok (v, rest) \<longleftrightarrow>
     (\<exists>bs. der_decode_int X reader = Inr (bs, rest) \<and> \<not> is_negative bs \<and> length bs \<le> 8
        \<and> v = from_be_bytes (replicate (8 - length bs) 0 @ bs))"
    by (auto simp: decode_u64_def result_simps not_less split: prod.splits)
  then show ?thesis by (simp add: eq cong: conj_cong)
qed

lemma decode_i64_Ok_iff:
  "decode_i64_from_int bs = Ok v \<longleftrightarrow> length bs \<le> 8 \<and> sint v = twos_complement bs"
proof -
  have "decode_i64_from_int bs = Ok v \<longleftrightarrow> length bs \<le> 8
      \<and> v = from_be_bytes (replicate (8 - length bs) (if is_negative bs then 0xFF else 0) @ bs)"
    by (auto simp: decode_i64_from_int_def result_simps not_less split del: if_split)
  then show ?thesis
    using sign_extend_iff [where 'w = 64 and n = 8] by (simp cong: conj_cong split del: if_split)
qed

section \<open>Absence of panics\<close>

lemma decode_i32_not_Panic [simp]: "decode_i32 X reader \<noteq> Panic"
  by (auto simp: decode_i32_def result_simps split: prod.splits if_splits)

lemma decode_u64_not_Panic [simp]: "decode_u64 X reader \<noteq> Panic"
  by (auto simp: decode_u64_def result_simps split: prod.splits if_splits)

lemma decode_enumerated_not_Panic [simp]: "decode_enumerated X reader \<noteq> Panic"
  by (auto simp: decode_enumerated_def result_simps split: prod.splits if_splits)

lemma decode_i64_not_Panic [simp]: "decode_i64_from_int bs \<noteq> Panic"
  by (auto simp: decode_i64_from_int_def result_simps)

lemma decode_root_of_trust_not_Panic [simp]: "decode_root_of_trust X reader \<noteq> Panic"
  by (auto simp: decode_root_of_trust_def result_simps split: prod.splits if_splits)

lemma decode_element_not_Panic [simp]: "decode_element X cls n inner out \<noteq> Panic"
  by (auto simp: decode_element_def decode_field_def result_simps split: prod.splits if_splits)

lemma authorization_loop_not_Panic [simp]: "authorization_loop X body pos out \<noteq> Panic"
proof (induction X body pos out rule: authorization_loop.induct)
  case (1 X body pos out)
  show ?case
  proof (cases "parse_tlv_header body pos")
    case (Ok r)
    obtain cls k t h l where r: "r = (cls, k, t, h, l)" by (cases r)
    with Ok 1 show ?thesis
      by (subst authorization_loop.simps) (auto simp: Let_def result_simps)
  qed (subst authorization_loop.simps; simp)+
qed

lemma decode_authorization_list_not_Panic [simp]: "decode_authorization_list X reader \<noteq> Panic"
  by (auto simp: decode_authorization_list_def result_simps split: prod.splits if_splits)

lemma key_description_not_Panic [simp]: "key_description_from_der X bs \<noteq> Panic"
  by (auto simp: key_description_from_der_def named_def unnamed_def security_level_of_def
      result_simps split: prod.splits if_splits)

section \<open>The walk as a fold over elements\<close>

text \<open>A body as the list of its elements, if it is one.\<close>

lemma split_tlv_shorter: "split_tlv bs = Some (e, rest) \<Longrightarrow> length rest < length bs"
  by (auto simp: split_tlv_def split: result.splits if_splits prod.splits
      dest!: parse_tlv_header_bounds)

function tlv_items :: "bytes \<Rightarrow> tlv list option" where
  "tlv_items bs =
     (if bs = [] then Some []
      else (case split_tlv bs of
              None \<Rightarrow> None
            | Some (e, rest) \<Rightarrow> map_option ((#) e) (tlv_items rest)))"
  by pat_completeness auto

termination
  by (relation "measure length") (auto dest: split_tlv_shorter)

declare tlv_items.simps [simp del]

fun decode_elements ::
    "crates \<Rightarrow> tlv list \<Rightarrow> authorization_list \<Rightarrow> (authorization_list, der_error) result" where
  "decode_elements X [] out = Ok out"
| "decode_elements X (e # es) out =
     and_then (decode_element X (tlv_class e) (tlv_number e) (tlv_body e) out)
       (decode_elements X es)"

lemma tlv_items_encode:
  "list_all tlv_wf es \<Longrightarrow> tlv_items (concat (map tlv_encode es)) = Some es"
proof (induction es)
  case Nil
  show ?case by (simp add: tlv_items.simps)
next
  case (Cons e es)
  have "concat (map tlv_encode (e # es)) \<noteq> []"
    using tlv_elements.enc_nonempty [of e] by simp
  moreover have "split_tlv (concat (map tlv_encode (e # es)) @ []) = Some (e, concat (map tlv_encode es) @ [])"
    using Cons.prems by (intro tlv_elements.dec_concat_step) simp
  ultimately show ?case
    using Cons by (subst tlv_items.simps) simp
qed

lemma authorization_loop_Ok_iff:
  "pos \<le> length body \<Longrightarrow> authorization_loop X body pos out = Ok r \<longleftrightarrow>
     (\<exists>es. tlv_items (drop pos body) = Some es \<and> decode_elements X es out = Ok r)"
proof (induction X body pos out rule: authorization_loop.induct)
  case (1 X body pos out)
  show ?case
  proof (cases "pos = length body")
    case True
    then show ?thesis by (simp add: authorization_loop.simps tlv_items.simps)
  next
    case False
    with 1(2) have pos: "pos < length body" by simp
    show ?thesis
    proof (cases "parse_tlv_header body pos")
      case (Ok hdr)
      obtain cls k t h l where hdr: "hdr = (cls, k, t, h, l)" by (cases hdr)
      have here: "parse_tlv_header (drop pos body) 0 = Ok (cls, k, t, h, l)"
        using Ok by (simp add: hdr parse_tlv_header_drop)
      let ?inner = "take l (drop (pos + h) body)"
      let ?e = "\<lparr>tlv_class = cls, tlv_constructed = k, tlv_number = t, tlv_body = ?inner\<rparr>"
      show ?thesis
      proof (cases "pos + h + l \<le> length body")
        case True
        then have split: "split_tlv (drop pos body) = Some (?e, drop (pos + h + l) body)"
          using here by (simp add: split_tlv_def add.commute add.left_commute)
        have step: "authorization_loop X body pos out
            = and_then (decode_element X cls t ?inner out) (authorization_loop X body (pos + h + l))"
          using pos Ok True by (subst authorization_loop.simps) (simp add: hdr slice_simps not_less Let_def)
        have IH: "authorization_loop X body (pos + h + l) out' = Ok r \<longleftrightarrow>
            (\<exists>es. tlv_items (drop (pos + h + l) body) = Some es \<and> decode_elements X es out' = Ok r)"
          for out'
          by (rule 1(1) [OF _ Ok hdr [symmetric] refl refl refl refl refl]) (use pos True in simp_all)
        show ?thesis
          using pos IH
          by (subst tlv_items.simps) (auto simp: step split result_simps)
      next
        case False
        with pos have "\<not> h + l \<le> length (drop pos body)" by simp
        then have "split_tlv (drop pos body) = None"
          using here by (simp add: split_tlv_def)
        then show ?thesis
          using pos Ok False
          by (subst authorization_loop.simps, subst tlv_items.simps) (simp add: hdr not_le)
      qed
    next
      case (Err u)
      then have "parse_tlv_header (drop pos body) 0 \<noteq> Ok r" for r
        by (simp add: parse_tlv_header_drop)
      then have "split_tlv (drop pos body) = None"
        by (simp add: split_tlv_def split: result.split)
      then show ?thesis
        using pos Err by (subst authorization_loop.simps, subst tlv_items.simps) simp
    qed simp
  qed
qed

section \<open>The last element of a tag decides\<close>

text \<open>The value a decoder reads from the content of an element.\<close>

definition read_field :: "crates \<Rightarrow> (bytes \<Rightarrow> ('a \<times> bytes, der_error) result) \<Rightarrow> bytes \<Rightarrow> 'a option" where
  "read_field X dec body =
     (case slice_reader_new X body of
        Inl e \<Rightarrow> None
      | Inr ir \<Rightarrow> (case dec ir of Ok (v, r) \<Rightarrow> Some v | _ \<Rightarrow> None))"

definition is_field :: "u32 \<Rightarrow> tlv \<Rightarrow> bool" where
  "is_field n e \<longleftrightarrow> tlv_class e = 2 \<and> tlv_number e = n"

definition last_field :: "u32 \<Rightarrow> (bytes \<Rightarrow> 'a option) \<Rightarrow> tlv list \<Rightarrow> 'a option \<Rightarrow> 'a option" where
  "last_field n f es old =
     (case filter (is_field n) es of [] \<Rightarrow> old | e # ms \<Rightarrow> f (tlv_body (last (e # ms))))"

lemma last_field_simps:
  "last_field n f [] old = old"
  "last_field n f (e # es) old = last_field n f es (if is_field n e then f (tlv_body e) else old)"
  by (auto simp: last_field_def split: list.split)

text \<open>Every element of context-specific class must decode, also one that a later one replaces.\<close>

definition element_ok :: "crates \<Rightarrow> tlv \<Rightarrow> bool" where
  "element_ok X e \<longleftrightarrow>
     (tlv_class e = 2 \<longrightarrow> (\<exists>ir. slice_reader_new X (tlv_body e) = Inr ir))
     \<and> (is_field 701 e \<longrightarrow> read_field X (decode_u64 X) (tlv_body e) \<noteq> None)
     \<and> (is_field 704 e \<longrightarrow> read_field X (decode_root_of_trust X) (tlv_body e) \<noteq> None)
     \<and> (is_field 705 e \<longrightarrow> read_field X (decode_i32 X) (tlv_body e) \<noteq> None)
     \<and> (is_field 706 e \<longrightarrow> read_field X (decode_i32 X) (tlv_body e) \<noteq> None)
     \<and> (is_field 709 e \<longrightarrow> read_field X (\<lambda>ir. der (der_decode_octet_string X ir)) (tlv_body e) \<noteq> None)"

definition fields_after :: "crates \<Rightarrow> tlv list \<Rightarrow> authorization_list \<Rightarrow> authorization_list" where
  "fields_after X es out =
     \<lparr>creation_date_time = last_field 701 (read_field X (decode_u64 X)) es (creation_date_time out),
      root_of_trust = last_field 704 (read_field X (decode_root_of_trust X)) es (root_of_trust out),
      os_version = last_field 705 (read_field X (decode_i32 X)) es (os_version out),
      os_patch_level = last_field 706 (read_field X (decode_i32 X)) es (os_patch_level out),
      application_id = last_field 709 (read_field X (\<lambda>ir. der (der_decode_octet_string X ir))) es
        (application_id out)\<rparr>"

lemma read_field_Some_iff:
  "read_field X dec body = Some v \<longleftrightarrow>
     (\<exists>ir rest. slice_reader_new X body = Inr ir \<and> dec ir = Ok (v, rest))"
  by (auto simp: read_field_def split: sum.splits result.splits)

lemma read_field_reader:
  "slice_reader_new X body = Inr ir \<Longrightarrow>
   read_field X dec body = (case dec ir of Ok (v, r) \<Rightarrow> Some v | _ \<Rightarrow> None)"
  by (simp add: read_field_def)

lemma decode_element_Ok_iff:
  "decode_element X (tlv_class e) (tlv_number e) (tlv_body e) out = Ok r \<longleftrightarrow>
     element_ok X e \<and> r = fields_after X [e] out"
proof (cases "tlv_class e = 2")
  case False
  then show ?thesis
    by (auto simp: decode_element_def element_ok_def is_field_def fields_after_def last_field_simps)
next
  case True
  show ?thesis
  proof (cases "slice_reader_new X (tlv_body e)")
    case (Inl x)
    with True show ?thesis by (simp add: decode_element_def element_ok_def der_def)
  next
    case (Inr ir)
    note rd = read_field_reader [OF Inr]
    consider "tlv_number e = 701" | "tlv_number e = 704" | "tlv_number e = 705"
      | "tlv_number e = 706" | "tlv_number e = 709"
      | "tlv_number e \<noteq> 701 \<and> tlv_number e \<noteq> 704 \<and> tlv_number e \<noteq> 705 \<and> tlv_number e \<noteq> 706
         \<and> tlv_number e \<noteq> 709" by blast
    then show ?thesis
    proof cases
      case 1
      with True Inr show ?thesis
        by (cases "decode_u64 X ir")
           (auto simp: decode_element_def decode_field_def element_ok_def is_field_def
             fields_after_def last_field_simps rd der_def)
    next
      case 2
      with True Inr show ?thesis
        by (cases "decode_root_of_trust X ir")
           (auto simp: decode_element_def decode_field_def element_ok_def is_field_def
             fields_after_def last_field_simps rd der_def)
    next
      case 3
      with True Inr show ?thesis
        by (cases "decode_i32 X ir")
           (auto simp: decode_element_def decode_field_def element_ok_def is_field_def
             fields_after_def last_field_simps rd der_def)
    next
      case 4
      with True Inr show ?thesis
        by (cases "decode_i32 X ir")
           (auto simp: decode_element_def decode_field_def element_ok_def is_field_def
             fields_after_def last_field_simps rd der_def)
    next
      case 5
      with True Inr show ?thesis
        by (cases "der_decode_octet_string X ir")
           (auto simp: decode_element_def decode_field_def element_ok_def is_field_def
             fields_after_def last_field_simps rd der_def)
    next
      case 6
      with True Inr show ?thesis
        by (auto simp: decode_element_def decode_field_def element_ok_def is_field_def
             fields_after_def last_field_simps rd der_def)
    qed
  qed
qed

lemma fields_after_Cons: "fields_after X es (fields_after X [e] out) = fields_after X (e # es) out"
  by (simp add: fields_after_def last_field_simps)

lemma decode_elements_Ok_iff:
  "decode_elements X es out = Ok r \<longleftrightarrow> list_all (element_ok X) es \<and> r = fields_after X es out"
proof (induction es arbitrary: out)
  case Nil
  then show ?case by (auto simp: fields_after_def last_field_simps)
next
  case (Cons e es)
  then show ?case by (auto simp: result_simps decode_element_Ok_iff fields_after_Cons)
qed

lemma decode_authorization_list_Ok_iff:
  "decode_authorization_list X reader = Ok (r, rest) \<longleftrightarrow>
     (\<exists>h mid body es. der_decode_header X reader = Inr (h, mid) \<and> header_tag h = TSequence
        \<and> der_read_slice X mid (header_length h) = Inr (body, rest)
        \<and> tlv_items body = Some es \<and> list_all (element_ok X) es
        \<and> r = fields_after X es authorization_list_default)"
  by (auto simp: decode_authorization_list_def result_simps authorization_loop_Ok_iff
      decode_elements_Ok_iff split: prod.splits)

section \<open>The loops of the package identification end\<close>

text \<open>Documented behaviour of the \<open>der\<close> crate: reading consumes input.\<close>

definition der_progress :: "crates \<Rightarrow> bool" where
  "der_progress X \<longleftrightarrow>
     (\<forall>bs h rest. der_decode_header X bs = Inr (h, rest) \<longrightarrow> length rest < length bs)
     \<and> (\<forall>bs n c rest. der_read_slice X bs n = Inr (c, rest) \<longrightarrow> length rest \<le> length bs)
     \<and> (\<forall>bs c rest. der_decode_octet_string X bs = Inr (c, rest) \<longrightarrow> length rest < length bs)"

text \<open>A loop whose step shortens the input ends, and panics only where a step does.\<close>

lemma read_until_finished_total:
  assumes "\<And>r v r'. step r = Ok (v, r') \<Longrightarrow> length r' < length r" "\<And>r. step r \<noteq> Panic"
  shows "\<exists>res. read_until_finished X step r acc = Some res \<and> res \<noteq> Panic"
proof (induction "length r" arbitrary: r acc rule: less_induct)
  case less
  show ?case
  proof (cases "step r")
    case (Ok p)
    obtain v r' where p: "p = (v, r')" by (cases p)
    with Ok assms(1) have "length r' < length r" by simp
    then have "\<exists>res. read_until_finished X step r' (acc @ [v]) = Some res \<and> res \<noteq> Panic"
      by (rule less)
    with Ok p show ?thesis by (subst read_until_finished.simps) simp
  next
    case (Err e)
    then show ?thesis by (subst read_until_finished.simps) simp
  next
    case Panic
    with assms(2) show ?thesis by blast
  qed
qed

lemma package_step_shorter:
  "der_progress X \<Longrightarrow> package_step X pr = Ok (v, pr') \<Longrightarrow> length pr' < length pr"
  unfolding der_progress_def
  by (auto simp: package_step_def named_def unnamed_def result_simps split: prod.splits)
     (meson order_le_less_trans)

lemma digest_step_shorter:
  "der_progress X \<Longrightarrow> digest_step X sr = Ok (v, sr') \<Longrightarrow> length sr' < length sr"
  unfolding der_progress_def by (auto simp: digest_step_def unnamed_def result_simps)

lemma package_step_not_Panic: "package_step X pr \<noteq> Panic"
  by (auto simp: package_step_def named_def unnamed_def result_simps split: prod.splits if_splits)

lemma digest_step_not_Panic: "digest_step X sr \<noteq> Panic"
  by (auto simp: digest_step_def unnamed_def result_simps)

lemma open_not_Panic: "open_aaid X bs \<noteq> Panic" "open_set X name br \<noteq> Panic"
  by (auto simp: open_aaid_def open_set_def named_def unnamed_def result_simps
      split: prod.splits if_splits)

lemma then_loop_total:
  "r \<noteq> Panic \<Longrightarrow> (\<And>x. r = Ok x \<Longrightarrow> \<exists>res. f x = Some res \<and> res \<noteq> Panic)
   \<Longrightarrow> \<exists>res. then_loop r f = Some res \<and> res \<noteq> Panic"
  by (cases r) auto

lemma bind_loop_total:
  "\<exists>res. l = Some res \<and> res \<noteq> Panic \<Longrightarrow> (\<And>x. \<exists>res. f x = Some res \<and> res \<noteq> Panic)
   \<Longrightarrow> \<exists>res. Option.bind l (\<lambda>r. then_loop r f) = Some res \<and> res \<noteq> Panic"
  by (elim exE conjE) (simp add: then_loop_total)

lemma attestation_application_id_total:
  assumes "der_progress X"
  shows "\<exists>res. attestation_application_id X aaid = Some res \<and> res \<noteq> Panic"
proof -
  have packages: "\<exists>res. read_until_finished X (package_step X) pr [] = Some res \<and> res \<noteq> Panic" for pr
    by (rule read_until_finished_total)
       (auto simp: package_step_not_Panic intro: package_step_shorter [OF assms])
  have digests: "\<exists>res. read_until_finished X (digest_step X) sr [] = Some res \<and> res \<noteq> Panic" for sr
    by (rule read_until_finished_total)
       (auto simp: digest_step_not_Panic intro: digest_step_shorter [OF assms])
  show ?thesis
    unfolding attestation_application_id_def case_prod_beta
    by (rule then_loop_total, rule open_not_Panic, rule then_loop_total, rule open_not_Panic,
        rule bind_loop_total, rule packages, rule then_loop_total, rule open_not_Panic,
        rule bind_loop_total, rule digests, simp)
qed

lemma sample_progress: "der_progress sample_crates"
  by (auto simp: der_progress_def sample_crates_def sample_slice_def sample_tagged_def
      split: if_splits sum.splits prod.splits elim!: sample_header.elims)

section \<open>Properties\<close>

text \<open>
  A DER integer of at most four octets is decoded to the \<open>i32\<close> that is its two's
  complement value, an ENUMERATED likewise, and a \<open>u64\<close> is accepted exactly when it is not
  negative and has at most eight octets, with its magnitude as value; longer ones are errors.
\<close>

lemma integers_decode:
  "(decode_i32 X reader = Ok (v, rest) \<longleftrightarrow>
      (\<exists>bs. der_decode_int X reader = Inr (bs, rest) \<and> length bs \<le> 4 \<and> sint v = twos_complement bs))
   \<and> (decode_enumerated X reader = Ok (w, rest) \<longleftrightarrow>
      (\<exists>h mid body. der_decode_header X reader = Inr (h, mid) \<and> header_tag h = TEnumerated
         \<and> der_read_slice X mid (header_length h) = Inr (body, rest)
         \<and> length body \<le> 4 \<and> sint w = twos_complement body))
   \<and> (decode_u64 X reader = Ok (u, rest) \<longleftrightarrow>
      (\<exists>bs. der_decode_int X reader = Inr (bs, rest) \<and> \<not> is_negative bs \<and> length bs \<le> 8
         \<and> unat u = be_nat bs))
   \<and> (decode_i64_from_int bs = Ok z \<longleftrightarrow> length bs \<le> 8 \<and> sint z = twos_complement bs)"
  by (simp only: decode_i32_Ok_iff decode_enumerated_Ok_iff decode_u64_Ok_iff decode_i64_Ok_iff)

text \<open>
  C8. An authorization list decodes exactly when it is a SEQUENCE whose body splits into TLV
  elements and every context-specific element with a known tag holds a value of its type; each
  field is then the value of the last element with its tag (701, 704, 705, 706, 709), or absent
  when there is none.
\<close>

theorem authorization_list_accepts:
  "decode_authorization_list X reader = Ok (r, rest) \<longleftrightarrow>
     (\<exists>h mid body es. der_decode_header X reader = Inr (h, mid) \<and> header_tag h = TSequence
        \<and> der_read_slice X mid (header_length h) = Inr (body, rest)
        \<and> tlv_items body = Some es \<and> list_all (element_ok X) es
        \<and> creation_date_time r = last_field 701 (read_field X (decode_u64 X)) es None
        \<and> root_of_trust r = last_field 704 (read_field X (decode_root_of_trust X)) es None
        \<and> os_version r = last_field 705 (read_field X (decode_i32 X)) es None
        \<and> os_patch_level r = last_field 706 (read_field X (decode_i32 X)) es None
        \<and> application_id r
            = last_field 709 (read_field X (\<lambda>ir. der (der_decode_octet_string X ir))) es None)"
  unfolding decode_authorization_list_Ok_iff fields_after_def authorization_list_default_def
  by (cases r) auto

text \<open>
  C37. The decoders of the extension return. On every input, and whatever the functions of the
  \<open>der\<close> crate answer, decoding a key description, an authorization list or a root of trust gives a
  value or an error and never panics. The decoder of the package identification, whose two loops
  run until the reader is finished, ends on every input with a value or an error, provided that
  the crate's reading functions consume input when they succeed (\<open>der_progress\<close>).
\<close>

theorem extension_decoders_return:
  "key_description_from_der X bs \<noteq> Panic \<and> decode_authorization_list X bs \<noteq> Panic
    \<and> decode_root_of_trust X bs \<noteq> Panic
    \<and> (der_progress X \<longrightarrow> (\<exists>res. attestation_application_id X aaid = Some res \<and> res \<noteq> Panic))"
  using attestation_application_id_total by simp

theorem extension_decoders_return_witness:
  "der_progress sample_crates
   \<and> (\<exists>res. attestation_application_id sample_crates [0x30, 4, 0x31, 0, 0x31, 0] = Some res \<and> res \<noteq> Panic)"
  using extension_decoders_return [of sample_crates] sample_progress by blast

end
