(* ===== verification/Android_StatusList.thy ===== *)
theory Android_StatusList
  imports Android_Errors "HOL-Library.AList"
begin

text \<open>
  The revocation list (\<open>rust/attest-android/src/status_list.rs\<close>): a hand-written parser for
  one JSON shape, and the lookup by serial number. A \<open>&str\<close> is its UTF-8 octets; trimming
  and the UTF-8 check are the ones of the Rust standard library, written out. The hash map is
  an association list with distinct keys. Lower-casing is written out for ASCII; the tables
  for other characters are an argument (\<open>unicode_lower\<close>).
\<close>

section \<open>Text of the standard library\<close>

text \<open>The UTF-8 encodings of the characters that \<open>char::is_whitespace\<close> holds of.\<close>

definition whitespace :: "bytes list" where
  "whitespace =
     [[0x09], [0x0A], [0x0B], [0x0C], [0x0D], [0x20], [0xC2, 0x85], [0xC2, 0xA0], [0xE1, 0x9A, 0x80],
      [0xE2, 0x80, 0x80], [0xE2, 0x80, 0x81], [0xE2, 0x80, 0x82], [0xE2, 0x80, 0x83],
      [0xE2, 0x80, 0x84], [0xE2, 0x80, 0x85], [0xE2, 0x80, 0x86], [0xE2, 0x80, 0x87],
      [0xE2, 0x80, 0x88], [0xE2, 0x80, 0x89], [0xE2, 0x80, 0x8A], [0xE2, 0x80, 0xA8],
      [0xE2, 0x80, 0xA9], [0xE2, 0x80, 0xAF], [0xE2, 0x81, 0x9F], [0xE3, 0x80, 0x80]]"

text \<open>Removing prefixes of a given kind as long as there are any.\<close>

definition drop_prefix :: "bytes list \<Rightarrow> bytes \<Rightarrow> bytes option" where
  "drop_prefix ws bs =
     (case find (\<lambda>w. w \<noteq> [] \<and> take (length w) bs = w) ws of
        None \<Rightarrow> None
      | Some w \<Rightarrow> Some (drop (length w) bs))"

lemma drop_prefix_shorter: "drop_prefix ws bs = Some r \<Longrightarrow> length r < length bs"
  by (auto simp: drop_prefix_def find_Some_iff split: option.splits)
     (metis diff_less drop_eq_Nil length_greater_0_conv not_le take_eq_Nil)

function trim_start :: "bytes list \<Rightarrow> bytes \<Rightarrow> bytes" where
  "trim_start ws bs = (case drop_prefix ws bs of None \<Rightarrow> bs | Some r \<Rightarrow> trim_start ws r)"
  by pat_completeness auto

termination
  by (relation "measure (\<lambda>(ws, bs). length bs)") (auto dest: drop_prefix_shorter)

declare trim_start.simps [simp del]

definition trim_end :: "bytes list \<Rightarrow> bytes \<Rightarrow> bytes" where
  "trim_end ws bs = rev (trim_start (map rev ws) (rev bs))"

definition trim :: "bytes \<Rightarrow> bytes" where
  "trim bs = trim_end whitespace (trim_start whitespace bs)"

text \<open>\<open>char::is_ascii\<close> and \<open>to_lowercase\<close>.\<close>

definition ascii :: "char \<Rightarrow> bool" where
  "ascii c \<longleftrightarrow> of_char c < (128 :: nat)"

definition ascii_lower :: "char \<Rightarrow> char" where
  "ascii_lower c = (let n = of_char c :: nat in if 65 \<le> n \<and> n \<le> 90 then char_of (n + 32) else c)"

definition to_lowercase :: "(string \<Rightarrow> string) \<Rightarrow> string \<Rightarrow> string" where
  "to_lowercase unicode_lower s =
     (if list_all ascii s then map ascii_lower s else unicode_lower s)"

text \<open>
  \<open>std::str::from_utf8\<close>: the position of the first ill-formed sequence and the length of its
  ill-formed part, which is \<open>None\<close> when the input ends inside a character.
\<close>

definition continuation :: "u8 \<Rightarrow> bool" where
  "continuation b \<longleftrightarrow> 0x80 \<le> b \<and> b \<le> 0xBF"

definition second_ok :: "u8 \<Rightarrow> u8 \<Rightarrow> bool" where
  "second_ok first b \<longleftrightarrow>
     (if first = 0xE0 then 0xA0 \<le> b \<and> b \<le> 0xBF
      else if first = 0xED then 0x80 \<le> b \<and> b \<le> 0x9F
      else if first = 0xF0 then 0x90 \<le> b \<and> b \<le> 0xBF
      else if first = 0xF4 then 0x80 \<le> b \<and> b \<le> 0x8F
      else continuation b)"

definition utf8_width :: "u8 \<Rightarrow> nat" where
  "utf8_width b =
     (if b < 0x80 then 1 else if 0xC2 \<le> b \<and> b \<le> 0xDF then 2
      else if 0xE0 \<le> b \<and> b \<le> 0xEF then 3 else if 0xF0 \<le> b \<and> b \<le> 0xF4 then 4 else 0)"

fun tail_error :: "nat \<Rightarrow> nat \<Rightarrow> bytes \<Rightarrow> nat option option" where
  "tail_error 0 seen bs = None"
| "tail_error (Suc k) seen [] = Some None"
| "tail_error (Suc k) seen (b # bs) =
     (if continuation b then tail_error k (seen + 1) bs else Some (Some seen))"

definition char_error :: "u8 \<Rightarrow> bytes \<Rightarrow> nat option option" where
  "char_error first rest =
     (let w = utf8_width first in
      if w = 0 then Some (Some 1)
      else if w = 1 then None
      else (case rest of
              [] \<Rightarrow> Some None
            | b # bs \<Rightarrow> if second_ok first b then tail_error (w - 2) 2 bs else Some (Some 1)))"

function utf8_error :: "nat \<Rightarrow> bytes \<Rightarrow> (nat \<times> nat option) option" where
  "utf8_error i [] = None"
| "utf8_error i (b # bs) =
     (case char_error b bs of
        Some len \<Rightarrow> Some (i, len)
      | None \<Rightarrow> utf8_error (i + max 1 (utf8_width b)) (drop (utf8_width b - 1) bs))"
  by pat_completeness auto

termination by (relation "measure (\<lambda>(i, bs). length bs)") auto

fun utf8_error_display :: "nat \<times> nat option \<Rightarrow> string" where
  "utf8_error_display (i, Some len) =
     ''invalid utf-8 sequence of '' @ show_nat len @ '' bytes from index '' @ show_nat i"
| "utf8_error_display (i, None) = ''incomplete utf-8 byte sequence from index '' @ show_nat i"

definition from_utf8 :: "bytes \<Rightarrow> string + string" where
  "from_utf8 bs =
     (case utf8_error 0 bs of
        Some e \<Rightarrow> Inl (utf8_error_display e)
      | None \<Rightarrow> Inr (str_of_bytes bs))"

section \<open>Scanning\<close>

text \<open>The cursor \<open>pos\<close> is passed on and returned.\<close>

function skip_ws :: "bytes \<Rightarrow> nat \<Rightarrow> nat" where
  "skip_ws bs pos =
     (case get bs pos of
        None \<Rightarrow> pos
      | Some c \<Rightarrow>
          if c = 0x20 \<or> c = 0x0A \<or> c = 0x0D \<or> c = 0x09 then skip_ws bs (pos + 1) else pos)"
  by pat_completeness auto

termination
  by (relation "measure (\<lambda>(bs, pos). length bs - pos)") (auto simp: get_def split: if_splits)

declare skip_ws.simps [simp del]

definition expect_char :: "bytes \<Rightarrow> nat \<Rightarrow> u8 \<Rightarrow> (nat, android_error) result" where
  "expect_char bs pos c =
     (let pos = skip_ws bs pos in
      if get bs pos \<noteq> Some c
      then Err (AndroidDer (''status list JSON: expected '' @ quoted (str_of_bytes [c])
                            @ '' at '' @ show_nat pos))
      else Ok (pos + 1))"

definition peek_char :: "bytes \<Rightarrow> nat \<Rightarrow> u8 option" where
  "peek_char bs pos = get bs pos"

function string_loop :: "bytes \<Rightarrow> nat \<Rightarrow> nat \<Rightarrow> (string \<times> nat, android_error) result" where
  "string_loop bs start pos =
     (case get bs pos of
        None \<Rightarrow> Err (AndroidDer ''status list JSON: unterminated string'')
      | Some c \<Rightarrow>
          if c = 0x5C then string_loop bs start (pos + 2)
          else if c = 0x22 then
            and_then (slice bs start pos) (\<lambda>content.
            and_then (map_err (\<lambda>e. AndroidDer (''status list utf8: '' @ e)) (from_utf8 content))
              (\<lambda>s. Ok (s, pos + 1)))
          else string_loop bs start (pos + 1))"
  by pat_completeness auto

termination
  by (relation "measure (\<lambda>(bs, start, pos). length bs - pos)") (auto simp: get_def split: if_splits)

declare string_loop.simps [simp del]

definition read_string :: "bytes \<Rightarrow> nat \<Rightarrow> (string \<times> nat, android_error) result" where
  "read_string bs pos =
     (let pos = skip_ws bs pos in
      if get bs pos \<noteq> Some 0x22
      then Err (AndroidDer (''status list JSON: expected string at '' @ show_nat pos))
      else string_loop bs (pos + 1) (pos + 1))"

text \<open>The scanners only move forward, and a string takes at least its two quotes.\<close>

lemma skip_ws_ge: "pos \<le> skip_ws bs pos"
proof (induction bs pos rule: skip_ws.induct)
  case (1 bs pos)
  then show ?case by (subst skip_ws.simps) (auto split: option.splits)
qed

lemma expect_char_gt: "expect_char bs pos c = Ok pos' \<Longrightarrow> pos < pos'"
  using skip_ws_ge [of pos bs] by (auto simp: expect_char_def Let_def result_simps)

lemma string_loop_bounds: "string_loop bs start pos = Ok (s, pos') \<Longrightarrow> pos < pos' \<and> pos' \<le> length bs"
proof (induction bs start pos rule: string_loop.induct)
  case (1 bs start pos)
  show ?case
  proof (cases "get bs pos")
    case None
    with 1(3) show ?thesis by (simp add: string_loop.simps)
  next
    case (Some c)
    then have "pos < length bs" by (simp add: get_Some_iff)
    with Some 1 show ?thesis
      by (subst (asm) string_loop.simps [of bs start pos]) (fastforce simp: result_simps split: if_splits)
  qed
qed

lemma read_string_bounds: "read_string bs pos = Ok (s, pos') \<Longrightarrow> pos < pos' \<and> pos' \<le> length bs"
  using skip_ws_ge [of pos bs]
  by (auto simp: read_string_def Let_def result_simps dest!: string_loop_bounds)

section \<open>The parser\<close>

record status_entry =
  entry_status :: string
  entry_reason :: string

record status_list =
  entries :: "(string \<times> status_entry) list"

text \<open>The recursive calls of the two loops depend on what was read before.\<close>

lemma and_then_cong [fundef_cong]:
  "r = r' \<Longrightarrow> (\<And>x. r' = Ok x \<Longrightarrow> f x = g x) \<Longrightarrow> and_then r f = and_then r' g"
  by (cases r') auto

lemma object_loop_progress:
  assumes "read_string bs pos = Ok (key, p1)" "expect_char bs (skip_ws bs p1) c = Ok p2"
    "read_string bs p2 = Ok (val, p3)"
  shows "length bs - skip_ws bs (skip_ws bs p3 + 1) < length bs - pos"
proof -
  have "pos < p1" using read_string_bounds [OF assms(1)] by simp
  moreover have "p1 < p2"
    using expect_char_gt [OF assms(2)] skip_ws_ge [of p1 bs] by simp
  moreover have "p2 < p3" "p3 \<le> length bs" using read_string_bounds [OF assms(3)] by auto
  moreover have "p3 \<le> skip_ws bs p3" "skip_ws bs p3 + 1 \<le> skip_ws bs (skip_ws bs p3 + 1)"
    by (rule skip_ws_ge)+
  ultimately show ?thesis by linarith
qed

text \<open>The \<open>loop\<close> over the members of a status object.\<close>

function object_loop ::
    "bytes \<Rightarrow> nat \<Rightarrow> string \<Rightarrow> string \<Rightarrow> (string \<times> string \<times> nat, android_error) result" where
  "object_loop bs pos status reason =
     and_then (read_string bs pos) (\<lambda>(key, pos).
     and_then (expect_char bs (skip_ws bs pos) 0x3A) (\<lambda>pos.
     and_then (read_string bs pos) (\<lambda>(val, pos).
       let status = (if key = ''status'' then val else status);
           reason = (if key = ''reason'' then val else reason);
           pos = skip_ws bs pos in
       if peek_char bs pos = Some 0x2C
       then object_loop bs (skip_ws bs (pos + 1)) status reason
       else Ok (status, reason, pos))))"
  by pat_completeness auto

termination
  by (relation "measure (\<lambda>(bs, pos, status, reason). length bs - pos)")
     (auto dest: object_loop_progress)

declare object_loop.simps [simp del]

definition read_status_object ::
    "bytes \<Rightarrow> nat \<Rightarrow> (status_entry \<times> nat, android_error) result" where
  "read_status_object bs pos =
     and_then (expect_char bs pos 0x7B) (\<lambda>pos.
     let pos = skip_ws bs pos in
     and_then (if peek_char bs pos \<noteq> Some 0x7D then object_loop bs pos [] []
               else Ok ([], [], pos)) (\<lambda>(status, reason, pos).
     and_then (expect_char bs pos 0x7D) (\<lambda>pos.
     Ok (\<lparr>entry_status = status, entry_reason = reason\<rparr>, pos))))"

lemma object_loop_ge:
  "object_loop bs pos st re = Ok (st', re', pos') \<Longrightarrow> pos \<le> pos'"
proof (induction bs pos st re rule: object_loop.induct)
  case (1 bs pos st re)
  from 1(2) obtain key p1 p2 val p3 where r: "read_string bs pos = Ok (key, p1)"
    "expect_char bs (skip_ws bs p1) 0x3A = Ok p2" "read_string bs p2 = Ok (val, p3)"
    by (subst (asm) object_loop.simps) (auto simp: result_simps split: prod.splits)
  let ?p = "skip_ws bs p3"
  have le: "pos \<le> ?p"
    using read_string_bounds [OF r(1)] expect_char_gt [OF r(2)] skip_ws_ge [of p1 bs]
      read_string_bounds [OF r(3)] skip_ws_ge [of p3 bs] by linarith
  show ?case
  proof (cases "peek_char bs ?p = Some 0x2C")
    case False
    with 1(2) r le show ?thesis
      by (subst (asm) object_loop.simps) (auto simp: Let_def)
  next
    case True
    from 1(2) r True obtain st1 re1 where
      "object_loop bs (skip_ws bs (?p + 1)) st1 re1 = Ok (st', re', pos')"
      "st1 = (if key = ''status'' then val else st)" "re1 = (if key = ''reason'' then val else re)"
      by (subst (asm) object_loop.simps) (auto simp: Let_def)
    with 1(1) r True have "skip_ws bs (?p + 1) \<le> pos'" by simp
    with le skip_ws_ge [of "?p + 1" bs] show ?thesis by linarith
  qed
qed

lemma read_status_object_gt: "read_status_object bs pos = Ok (e, pos') \<Longrightarrow> pos < pos'"
proof -
  assume ok: "read_status_object bs pos = Ok (e, pos')"
  then obtain p1 st re p2 where r: "expect_char bs pos 0x7B = Ok p1"
    "(if peek_char bs (skip_ws bs p1) \<noteq> Some 0x7D then object_loop bs (skip_ws bs p1) [] []
      else Ok ([], [], skip_ws bs p1)) = Ok (st, re, p2)"
    "expect_char bs p2 0x7D = Ok pos'"
    by (auto simp: read_status_object_def Let_def result_simps split: prod.splits)
  from r(2) have "skip_ws bs p1 \<le> p2"
    by (auto split: if_splits dest: object_loop_ge)
  with expect_char_gt [OF r(1)] expect_char_gt [OF r(3)] skip_ws_ge [of p1 bs]
  show ?thesis by linarith
qed

lemma entries_loop_progress:
  assumes "read_string bs pos = Ok (key, p1)" "expect_char bs (skip_ws bs p1) c = Ok p2"
    "read_status_object bs (skip_ws bs p2) = Ok (entry, p3)"
  shows "length bs - skip_ws bs (skip_ws bs p3 + 1) < length bs - pos"
proof -
  have "pos < p1" "p1 \<le> length bs" using read_string_bounds [OF assms(1)] by auto
  moreover have "p1 < p2"
    using expect_char_gt [OF assms(2)] skip_ws_ge [of p1 bs] by simp
  moreover have "p2 < p3"
    using read_status_object_gt [OF assms(3)] skip_ws_ge [of p2 bs] by linarith
  moreover have "p3 \<le> skip_ws bs p3" "skip_ws bs p3 + 1 \<le> skip_ws bs (skip_ws bs p3 + 1)"
    by (rule skip_ws_ge)+
  ultimately show ?thesis by linarith
qed

text \<open>The \<open>loop\<close> over the entries of the list.\<close>

function entries_loop :: "(string \<Rightarrow> string) \<Rightarrow> bytes \<Rightarrow> nat \<Rightarrow> (string \<times> status_entry) list
    \<Rightarrow> ((string \<times> status_entry) list \<times> nat, android_error) result" where
  "entries_loop lower bs pos es =
     and_then (read_string bs pos) (\<lambda>(serial, pos).
     and_then (expect_char bs (skip_ws bs pos) 0x3A) (\<lambda>pos.
     and_then (read_status_object bs (skip_ws bs pos)) (\<lambda>(entry, pos).
       let es = AList.update (to_lowercase lower serial) entry es;
           pos = skip_ws bs pos in
       if peek_char bs pos = Some 0x2C
       then entries_loop lower bs (skip_ws bs (pos + 1)) es
       else Ok (es, pos))))"
  by pat_completeness auto

termination
  by (relation "measure (\<lambda>(lower, bs, pos, es). length bs - pos)")
     (auto dest: entries_loop_progress)

declare entries_loop.simps [simp del]

definition status_list_from_json ::
    "(string \<Rightarrow> string) \<Rightarrow> string \<Rightarrow> (status_list, android_error) result" where
  "status_list_from_json lower json =
     (let bs = trim (trim_start [[0xEF, 0xBB, 0xBF]] (as_bytes json)) in
      and_then (expect_char bs 0 0x7B) (\<lambda>pos.
      and_then (read_string bs (skip_ws bs pos)) (\<lambda>(key, pos).
      if key \<noteq> ''entries''
        then Err (AndroidDer (''status list expected top-level '' @ quoted ''entries''
                              @ '', got '' @ quoted key)) else
      and_then (expect_char bs (skip_ws bs pos) 0x3A) (\<lambda>pos.
      and_then (expect_char bs (skip_ws bs pos) 0x7B) (\<lambda>pos.
      let pos = skip_ws bs pos in
      and_then (if peek_char bs pos \<noteq> Some 0x7D then entries_loop lower bs pos []
                else Ok ([], pos)) (\<lambda>(es, pos).
      and_then (expect_char bs pos 0x7D) (\<lambda>pos.
      and_then (expect_char bs (skip_ws bs pos) 0x7D) (\<lambda>pos.
      Ok \<lparr>entries = es\<rparr>))))))))"

definition lookup_serial :: "status_list \<Rightarrow> string \<Rightarrow> status_entry option" where
  "lookup_serial l serial_hex_lower = map_of (entries l) serial_hex_lower"

definition status_list_len :: "status_list \<Rightarrow> nat" where
  "status_list_len l = length (entries l)"

definition status_list_is_empty :: "status_list \<Rightarrow> bool" where
  "status_list_is_empty l \<longleftrightarrow> entries l = []"

section \<open>Absence of panics\<close>

lemma expect_char_not_Panic [simp]: "expect_char bs pos c \<noteq> Panic"
  by (simp add: expect_char_def Let_def)

lemma string_loop_not_Panic: "start \<le> pos \<Longrightarrow> string_loop bs start pos \<noteq> Panic"
proof (induction bs start pos rule: string_loop.induct)
  case (1 bs start pos)
  then show ?case
    by (subst string_loop.simps) (auto simp: result_simps get_Some_iff split: option.splits)
qed

lemma read_string_not_Panic [simp]: "read_string bs pos \<noteq> Panic"
  by (auto simp: read_string_def Let_def string_loop_not_Panic)

lemma if_then_Ok_Panic_iff: "(if b then r else Ok x) = Panic \<longleftrightarrow> b \<and> r = Panic"
  by auto

lemma object_loop_not_Panic [simp]: "object_loop bs pos st re \<noteq> Panic"
proof (induction bs pos st re rule: object_loop.induct)
  case (1 bs pos st re)
  then show ?case
    by (subst object_loop.simps)
       (auto simp: result_simps Let_def if_then_Ok_Panic_iff split: prod.splits split del: if_split)
qed

lemma read_status_object_not_Panic [simp]: "read_status_object bs pos \<noteq> Panic"
  by (auto simp: read_status_object_def Let_def result_simps split: prod.splits if_splits)

lemma entries_loop_not_Panic [simp]: "entries_loop lower bs pos es \<noteq> Panic"
proof (induction lower bs pos es rule: entries_loop.induct)
  case (1 lower bs pos es)
  then show ?case
    by (subst entries_loop.simps)
       (auto simp: result_simps Let_def if_then_Ok_Panic_iff split: prod.splits split del: if_split)
qed

lemma status_list_not_Panic: "status_list_from_json lower json \<noteq> Panic"
  by (auto simp: status_list_from_json_def Let_def result_simps split: prod.splits if_splits)

section \<open>Printing and parsing\<close>

text \<open>
  The reference printer: plain strings (ASCII, no quote, no backslash), and the same white
  space \<open>sp\<close> before every token. What the scanners do is stated over the input that is left,
  \<open>drop pos bs\<close>.
\<close>

definition json_ws :: "u8 \<Rightarrow> bool" where
  "json_ws c \<longleftrightarrow> c = 0x20 \<or> c = 0x0A \<or> c = 0x0D \<or> c = 0x09"

definition plain :: "string \<Rightarrow> bool" where
  "plain s \<longleftrightarrow> list_all (\<lambda>c. ascii c \<and> c \<noteq> CHR 0x22 \<and> c \<noteq> CHR 0x5C) s"

definition json_string :: "string \<Rightarrow> bytes" where
  "json_string s = 0x22 # as_bytes s @ [0x22]"

definition print_member :: "bytes \<Rightarrow> string \<Rightarrow> string \<Rightarrow> bytes" where
  "print_member sp key v = sp @ json_string key @ sp @ [0x3A] @ sp @ json_string v"

definition print_status :: "bytes \<Rightarrow> status_entry \<Rightarrow> bytes" where
  "print_status sp e =
     sp @ [0x7B] @ print_member sp ''status'' (entry_status e) @ sp @ [0x2C]
     @ print_member sp ''reason'' (entry_reason e) @ sp @ [0x7D]"

definition print_entry :: "bytes \<Rightarrow> string \<times> status_entry \<Rightarrow> bytes" where
  "print_entry sp ke = sp @ json_string (fst ke) @ sp @ [0x3A] @ print_status sp (snd ke)"

fun print_entries :: "bytes \<Rightarrow> (string \<times> status_entry) list \<Rightarrow> bytes" where
  "print_entries sp [] = []"
| "print_entries sp [ke] = print_entry sp ke"
| "print_entries sp (ke # ke' # kes) = print_entry sp ke @ sp @ [0x2C] @ print_entries sp (ke' # kes)"

definition print_status_list :: "bytes \<Rightarrow> (string \<times> status_entry) list \<Rightarrow> bytes" where
  "print_status_list sp kes =
     sp @ [0x7B] @ sp @ json_string ''entries'' @ sp @ [0x3A] @ sp @ [0x7B]
     @ print_entries sp kes @ sp @ [0x7D] @ sp @ [0x7D]"

definition plain_entry :: "string \<times> status_entry \<Rightarrow> bool" where
  "plain_entry ke \<longleftrightarrow> plain (fst ke) \<and> plain (entry_status (snd ke)) \<and> plain (entry_reason (snd ke))"

text \<open>Reading at a position.\<close>

lemma get_drop: "get bs pos = (case drop pos bs of [] \<Rightarrow> None | c # cs \<Rightarrow> Some c)"
proof (cases "pos < length bs")
  case True
  then show ?thesis by (simp add: get_def Cons_nth_drop_Suc [symmetric])
qed (simp add: get_def)

lemma drop_SucI: "drop p bs = c # cs \<Longrightarrow> drop (Suc p) bs = cs"
  by (metis drop_Suc list.sel(3) tl_drop)

lemma skip_ws_drop:
  assumes "drop p bs = sp @ rest" "list_all json_ws sp" "rest = [] \<or> \<not> json_ws (hd rest)"
  shows "drop (skip_ws bs p) bs = rest"
  using assms(1,2)
proof (induction sp arbitrary: p)
  case Nil
  then show ?case
    using assms(3) by (subst skip_ws.simps) (auto simp: get_drop json_ws_def split: list.split)
next
  case (Cons c sp)
  then have "drop (Suc p) bs = sp @ rest" by (auto dest: drop_SucI)
  moreover have "skip_ws bs p = skip_ws bs (Suc p)"
    using Cons.prems by (subst skip_ws.simps) (auto simp: get_drop json_ws_def)
  ultimately show ?case using Cons by simp
qed

lemma skip_ws_idem [simp]: "skip_ws bs (skip_ws bs p) = skip_ws bs p"
proof (induction bs p rule: skip_ws.induct)
  case (1 bs p)
  show ?case
  proof (cases "\<exists>c. get bs p = Some c \<and> (c = 0x20 \<or> c = 0x0A \<or> c = 0x0D \<or> c = 0x09)")
    case True
    then obtain c where "get bs p = Some c" "c = 0x20 \<or> c = 0x0A \<or> c = 0x0D \<or> c = 0x09" by blast
    moreover from this have "skip_ws bs p = skip_ws bs (p + 1)"
      by (subst skip_ws.simps) simp
    ultimately show ?thesis using 1 by simp
  next
    case False
    then have "skip_ws bs p = p"
      by (subst skip_ws.simps) (auto split: option.split)
    then show ?thesis by simp
  qed
qed

lemma expect_char_skip [simp]: "expect_char bs (skip_ws bs p) c = expect_char bs p c"
  by (simp add: expect_char_def)

lemma read_string_skip [simp]: "read_string bs (skip_ws bs p) = read_string bs p"
  by (simp add: read_string_def)

lemma expect_char_at:
  assumes "drop p bs = sp @ c # rest" "list_all json_ws sp" "\<not> json_ws c"
  shows "\<exists>p'. expect_char bs p c = Ok p' \<and> drop p' bs = rest"
proof -
  have "drop (skip_ws bs p) bs = c # rest"
    using assms by (intro skip_ws_drop) auto
  then show ?thesis
    by (simp add: expect_char_def get_drop drop_SucI)
qed

lemma ascii_u8: "ascii c \<Longrightarrow> (of_char c :: u8) < 0x80"
  by (simp add: ascii_def word_less_nat_alt of_char_u8)

lemma from_utf8_plain: "list_all ascii s \<Longrightarrow> from_utf8 (as_bytes s) = Inr s"
proof -
  assume s: "list_all ascii s"
  have "utf8_error i (as_bytes s) = None" for i
    using s
  proof (induction s arbitrary: i)
    case (Cons c s)
    then have "utf8_width (of_char c) = 1" by (simp add: utf8_width_def ascii_u8)
    with Cons show ?case by (simp add: as_bytes_def char_error_def)
  qed (simp add: as_bytes_def)
  then show ?thesis by (simp add: from_utf8_def)
qed

lemma of_char_u8_eq_iff: "(of_char c :: u8) = of_char d \<longleftrightarrow> c = d"
  by (metis of_char_u8 of_char_eq_iff)

lemma not_json_ws [simp]:
  "\<not> json_ws 0x22" "\<not> json_ws 0x3A" "\<not> json_ws 0x7B" "\<not> json_ws 0x7D" "\<not> json_ws 0x2C"
  by (simp_all add: json_ws_def)

lemma special_chars: "of_char (CHR 0x22) = (0x22 :: u8)" "of_char (CHR 0x5C) = (0x5C :: u8)"
  by (simp_all add: unat_inject of_char_u8)

lemma string_loop_at:
  assumes "plain s" "start \<le> p" "drop p bs = as_bytes s @ 0x22 # rest"
    "drop start bs = pre @ as_bytes s @ 0x22 # rest" "p = start + length pre"
  shows "string_loop bs start p
     = and_then (map_err (\<lambda>e. AndroidDer (''status list utf8: '' @ e)) (from_utf8 (pre @ as_bytes s)))
         (\<lambda>t. Ok (t, p + length s + 1))"
  using assms
proof (induction s arbitrary: p pre)
  case Nil
  then have "p \<le> length bs"
    by (metis drop_eq_Nil le_cases list.distinct(1) append_Nil as_bytes_def list.simps(8))
  moreover have "take (p - start) (drop start bs) = pre"
    using Nil.prems(4,5) by simp
  ultimately show ?case
    using Nil.prems
    by (subst string_loop.simps) (simp add: get_drop slice_def as_bytes_def)
next
  case (Cons c s)
  have c: "(of_char c :: u8) \<noteq> 0x22" "(of_char c :: u8) \<noteq> 0x5C"
  proof -
    have "c \<noteq> CHR 0x22" "c \<noteq> CHR 0x5C" using Cons.prems(1) by (simp_all add: plain_def)
    then show "(of_char c :: u8) \<noteq> 0x22" "(of_char c :: u8) \<noteq> 0x5C"
      by (metis of_char_u8_eq_iff special_chars)+
  qed
  have "string_loop bs start p = string_loop bs start (Suc p)"
    using Cons.prems(3) c by (subst string_loop.simps) (simp add: get_drop as_bytes_def)
  also have "\<dots> = and_then (map_err (\<lambda>e. AndroidDer (''status list utf8: '' @ e))
        (from_utf8 ((pre @ [of_char c]) @ as_bytes s))) (\<lambda>t. Ok (t, Suc p + length s + 1))"
  proof (rule Cons.IH)
    show "plain s" using Cons.prems(1) by (simp add: plain_def)
    show "drop (Suc p) bs = as_bytes s @ 0x22 # rest"
      using Cons.prems(3) by (intro drop_SucI) (simp add: as_bytes_def)
    show "drop start bs = (pre @ [of_char c]) @ as_bytes s @ 0x22 # rest"
      using Cons.prems(4) by (simp add: as_bytes_def)
  qed (use Cons.prems in simp_all)
  finally show ?case by (simp add: as_bytes_def)
qed

lemma plain_ascii: "plain s \<Longrightarrow> list_all ascii s"
  by (simp add: plain_def list_all_iff)

lemma read_string_at:
  assumes "drop p bs = sp @ json_string s @ rest" "list_all json_ws sp" "plain s"
  shows "\<exists>p'. read_string bs p = Ok (s, p') \<and> drop p' bs = rest"
proof -
  let ?q = "skip_ws bs p"
  have q: "drop ?q bs = 0x22 # as_bytes s @ 0x22 # rest"
    using assms by (intro skip_ws_drop) (auto simp: json_string_def)
  then have q': "drop (Suc ?q) bs = as_bytes s @ 0x22 # rest" by (rule drop_SucI)
  have "string_loop bs (Suc ?q) (Suc ?q) = Ok (s, Suc ?q + length s + 1)"
    using string_loop_at [OF assms(3) le_refl q', of "[]"] q' plain_ascii [OF assms(3)]
    by (simp add: from_utf8_plain)
  moreover have "drop (length s + 1) (drop (Suc ?q) bs) = rest"
    by (simp add: q')
  ultimately show ?thesis
    using q by (simp add: read_string_def get_drop add.commute add.left_commute)
qed

lemma peek_at:
  assumes "drop p bs = sp @ c # rest" "list_all json_ws sp" "\<not> json_ws c"
  shows "peek_char bs (skip_ws bs p) = Some c" "drop (Suc (skip_ws bs p)) bs = rest"
proof -
  have "drop (skip_ws bs p) bs = c # rest"
    using assms by (intro skip_ws_drop) auto
  then show "peek_char bs (skip_ws bs p) = Some c" "drop (Suc (skip_ws bs p)) bs = rest"
    by (simp_all add: peek_char_def get_drop drop_SucI)
qed

lemma json_string_first:
  "list_all json_ws sp \<Longrightarrow> drop p bs = sp @ json_string s @ rest \<Longrightarrow>
   peek_char bs (skip_ws bs p) = Some 0x22"
  by (rule peek_at(1) [of p bs sp "0x22" "as_bytes s @ [0x22] @ rest"]) (simp_all add: json_string_def)

lemma member_at:
  assumes "drop p bs = print_member sp key v @ rest" "list_all json_ws sp" "plain key" "plain v"
  shows "\<exists>p1 p2 p3. read_string bs p = Ok (key, p1) \<and> expect_char bs p1 0x3A = Ok p2
     \<and> read_string bs p2 = Ok (v, p3) \<and> drop p3 bs = rest"
proof -
  have "drop p bs = sp @ json_string key @ (sp @ 0x3A # (sp @ json_string v @ rest))"
    using assms(1) by (simp add: print_member_def)
  from read_string_at [OF this assms(2,3)] obtain p1 where
    1: "read_string bs p = Ok (key, p1)" "drop p1 bs = sp @ 0x3A # (sp @ json_string v @ rest)" by blast
  from expect_char_at [OF 1(2) assms(2)] obtain p2 where
    2: "expect_char bs p1 0x3A = Ok p2" "drop p2 bs = sp @ json_string v @ rest" by auto
  from read_string_at [OF 2(2) assms(2,4)] 1 2 show ?thesis by blast
qed

lemma plain_keys: "plain ''status''" "plain ''reason''" "plain ''entries''"
  by (simp_all add: plain_def ascii_def)

lemma status_at:
  assumes "drop p bs = print_status sp e @ rest" "list_all json_ws sp"
    "plain (entry_status e)" "plain (entry_reason e)"
  shows "\<exists>p'. read_status_object bs p = Ok (e, p') \<and> drop p' bs = rest"
proof -
  let ?second = "print_member sp ''reason'' (entry_reason e) @ sp @ 0x7D # rest"
  let ?first = "print_member sp ''status'' (entry_status e) @ sp @ 0x2C # ?second"
  have "drop p bs = sp @ 0x7B # ?first" using assms(1) by (simp add: print_status_def)
  from expect_char_at [OF this assms(2)] obtain p0 where
    0: "expect_char bs p 0x7B = Ok p0" "drop p0 bs = ?first" by auto
  have peek0: "peek_char bs (skip_ws bs p0) = Some 0x22"
    using assms(2) 0(2) unfolding print_member_def by (simp add: json_string_first)
  from member_at [OF 0(2) assms(2) plain_keys(1) assms(3)] obtain p1 p2 p3 where
    1: "read_string bs p0 = Ok (''status'', p1)" "expect_char bs p1 0x3A = Ok p2"
      "read_string bs p2 = Ok (entry_status e, p3)" "drop p3 bs = sp @ 0x2C # ?second" by blast
  note comma = peek_at [OF 1(4) assms(2)]
  let ?p = "Suc (skip_ws bs p3)"
  have "drop ?p bs = ?second" using comma(2) by simp
  from member_at [OF this assms(2) plain_keys(2) assms(4)] obtain q1 q2 q3 where
    2: "read_string bs ?p = Ok (''reason'', q1)" "expect_char bs q1 0x3A = Ok q2"
      "read_string bs q2 = Ok (entry_reason e, q3)" "drop q3 bs = sp @ 0x7D # rest" by blast
  note brace = peek_at [OF 2(4) assms(2)]
  have "object_loop bs (skip_ws bs ?p) (entry_status e) [] = Ok (entry_status e, entry_reason e, skip_ws bs q3)"
    using 2 brace by (subst object_loop.simps) (simp add: Let_def)
  then have "object_loop bs (skip_ws bs p0) [] [] = Ok (entry_status e, entry_reason e, skip_ws bs q3)"
    using 1 comma by (subst object_loop.simps) (simp add: Let_def)
  moreover from expect_char_at [OF 2(4) assms(2)] obtain p' where
    "expect_char bs q3 0x7D = Ok p'" "drop p' bs = rest" by auto
  ultimately show ?thesis
    using 0(1) peek0 by (simp add: read_status_object_def Let_def)
qed

lemma read_status_object_skip [simp]: "read_status_object bs (skip_ws bs p) = read_status_object bs p"
  by (simp add: read_status_object_def)

text \<open>The entries are inserted in order, so the last entry of a serial number counts.\<close>

definition insert_entries :: "(string \<times> status_entry) list \<Rightarrow> (string \<times> status_entry) list
    \<Rightarrow> (string \<times> status_entry) list" where
  "insert_entries kes es = fold (\<lambda>(k, e). AList.update (map ascii_lower k) e) kes es"

lemma entry_at:
  assumes "drop p bs = print_entry sp ke @ rest" "list_all json_ws sp" "plain_entry ke"
  shows "\<exists>p1 p2 p3. read_string bs p = Ok (fst ke, p1) \<and> expect_char bs p1 0x3A = Ok p2
     \<and> read_status_object bs p2 = Ok (snd ke, p3) \<and> drop p3 bs = rest"
proof -
  have "drop p bs = sp @ json_string (fst ke) @ (sp @ 0x3A # (print_status sp (snd ke) @ rest))"
    using assms(1) by (simp add: print_entry_def)
  from read_string_at [OF this assms(2)] assms(3) obtain p1 where
    1: "read_string bs p = Ok (fst ke, p1)" "drop p1 bs = sp @ 0x3A # (print_status sp (snd ke) @ rest)"
    by (auto simp: plain_entry_def)
  from expect_char_at [OF 1(2) assms(2)] obtain p2 where
    2: "expect_char bs p1 0x3A = Ok p2" "drop p2 bs = print_status sp (snd ke) @ rest" by auto
  from status_at [OF 2(2) assms(2)] assms(3) 1 2 show ?thesis by (auto simp: plain_entry_def)
qed

lemma entries_loop_skip: "entries_loop lower bs (skip_ws bs p) es = entries_loop lower bs p es"
  by (subst (1 2) entries_loop.simps) simp

lemma entries_at:
  assumes "kes \<noteq> []" "list_all plain_entry kes" "list_all json_ws sp"
    "drop p bs = print_entries sp kes @ sp @ 0x7D # rest"
  shows "\<exists>p'. entries_loop lower bs p es = Ok (insert_entries kes es, p')
     \<and> drop p' bs = 0x7D # rest"
  using assms
proof (induction sp kes arbitrary: p es rule: print_entries.induct)
  case (2 sp ke)
  then have "drop p bs = print_entry sp ke @ (sp @ 0x7D # rest)" by simp
  from entry_at [OF this] 2 obtain p1 p2 p3 where
    r: "read_string bs p = Ok (fst ke, p1)" "expect_char bs p1 0x3A = Ok p2"
      "read_status_object bs p2 = Ok (snd ke, p3)" "drop p3 bs = sp @ 0x7D # rest" by auto
  have "to_lowercase lower (fst ke) = map ascii_lower (fst ke)"
    using 2 by (simp add: to_lowercase_def plain_entry_def plain_ascii)
  then have "entries_loop lower bs p es = Ok (insert_entries [ke] es, skip_ws bs p3)"
    using r peek_at [OF r(4) 2(3)]
    by (subst entries_loop.simps) (simp add: Let_def insert_entries_def case_prod_beta)
  moreover have "drop (skip_ws bs p3) bs = 0x7D # rest"
    using r(4) 2(3) by (intro skip_ws_drop) auto
  ultimately show ?case by blast
next
  case (3 sp ke ke' kes)
  let ?tail = "print_entries sp (ke' # kes) @ sp @ 0x7D # rest"
  from 3 have "drop p bs = print_entry sp ke @ (sp @ 0x2C # ?tail)" by simp
  from entry_at [OF this] 3 obtain p1 p2 p3 where
    r: "read_string bs p = Ok (fst ke, p1)" "expect_char bs p1 0x3A = Ok p2"
      "read_status_object bs p2 = Ok (snd ke, p3)" "drop p3 bs = sp @ 0x2C # ?tail" by auto
  note comma = peek_at [OF r(4) 3(4)]
  have low: "to_lowercase lower (fst ke) = map ascii_lower (fst ke)"
    using 3 by (simp add: to_lowercase_def plain_entry_def plain_ascii)
  let ?es = "AList.update (map ascii_lower (fst ke)) (snd ke) es"
  have "drop (Suc (skip_ws bs p3)) bs = ?tail" using comma(2) by simp
  with 3 obtain p' where IH: "entries_loop lower bs (Suc (skip_ws bs p3)) ?es
      = Ok (insert_entries (ke' # kes) ?es, p')" "drop p' bs = 0x7D # rest"
    by fastforce
  have "entries_loop lower bs p es = entries_loop lower bs (Suc (skip_ws bs p3)) ?es"
    using r comma low by (subst entries_loop.simps) (simp add: Let_def entries_loop_skip)
  with IH show ?case by (simp add: insert_entries_def case_prod_beta)
qed simp

lemma trim_start_none: "drop_prefix ws bs = None \<Longrightarrow> trim_start ws bs = bs"
  by (subst trim_start.simps) simp

lemma trim_start_json_ws:
  "list_all json_ws sp \<Longrightarrow> trim_start whitespace (sp @ 0x7B # bs) = 0x7B # bs"
proof (induction sp)
  case Nil
  show ?case by (simp add: trim_start_none drop_prefix_def whitespace_def)
next
  case (Cons c sp)
  then have "drop_prefix whitespace (c # sp @ 0x7B # bs) = Some (sp @ 0x7B # bs)"
  proof -
    consider "c = 0x20" | "c = 0x0A" | "c = 0x0D" | "c = 0x09"
      using Cons.prems by (auto simp: json_ws_def)
    then show ?thesis by cases (simp_all add: drop_prefix_def whitespace_def)
  qed
  with Cons show ?case by (subst trim_start.simps) simp
qed

lemma trim_end_brace: "trim_end whitespace (bs @ [0x7D]) = bs @ [0x7D]"
  by (simp add: trim_end_def trim_start_none drop_prefix_def whitespace_def)

lemma no_bom:
  "list_all json_ws sp \<Longrightarrow> trim_start [[0xEF, 0xBB, 0xBF]] (sp @ 0x7B # bs) = sp @ 0x7B # bs"
  by (cases sp) (auto simp: trim_start_none drop_prefix_def json_ws_def)

lemma print_entries_first:
  assumes "kes \<noteq> []" "list_all json_ws sp" "drop p bs = print_entries sp kes @ rest"
  shows "peek_char bs (skip_ws bs p) = Some 0x22"
proof -
  obtain ke kes' where "kes = ke # kes'" using assms(1) by (cases kes) auto
  then obtain more where "drop p bs = sp @ json_string (fst ke) @ more"
    using assms(3) by (cases kes') (auto simp: print_entry_def)
  then show ?thesis using assms(2) by (intro json_string_first)
qed

lemma status_list_roundtrip:
  assumes "list_all plain_entry kes" "list_all json_ws sp"
  shows "status_list_from_json lower (str_of_bytes (print_status_list sp kes))
     = Ok \<lparr>entries = insert_entries kes []\<rparr>"
proof -
  let ?tail = "sp @ 0x7D # sp @ [0x7D]"
  let ?list = "print_entries sp kes @ ?tail"
  let ?bs = "0x7B # sp @ json_string ''entries'' @ sp @ 0x3A # sp @ 0x7B # ?list"
  have printed: "print_status_list sp kes = sp @ ?bs" by (simp add: print_status_list_def)
  have "?bs = (0x7B # sp @ json_string ''entries'' @ sp @ 0x3A # sp @ 0x7B # print_entries sp kes
      @ sp @ 0x7D # sp) @ [0x7D]" by simp
  then have trimmed: "trim (trim_start [[0xEF, 0xBB, 0xBF]] (sp @ ?bs)) = ?bs"
    unfolding trim_def no_bom [OF assms(2)] trim_start_json_ws [OF assms(2)] by (metis trim_end_brace)
  have "drop 0 ?bs = [] @ 0x7B # (sp @ json_string ''entries'' @ (sp @ 0x3A # (sp @ 0x7B # ?list)))"
    by simp
  from expect_char_at [OF this] obtain p0 where
    0: "expect_char ?bs 0 0x7B = Ok p0" "drop p0 ?bs = sp @ json_string ''entries'' @ (sp @ 0x3A # (sp @ 0x7B # ?list))"
    by auto
  from read_string_at [OF 0(2) assms(2) plain_keys(3)] obtain p1 where
    1: "read_string ?bs p0 = Ok (''entries'', p1)" "drop p1 ?bs = sp @ 0x3A # (sp @ 0x7B # ?list)" by blast
  from expect_char_at [OF 1(2) assms(2)] obtain p2 where
    2: "expect_char ?bs p1 0x3A = Ok p2" "drop p2 ?bs = sp @ 0x7B # ?list" by auto
  from expect_char_at [OF 2(2) assms(2)] obtain p3 where
    3: "expect_char ?bs p2 0x7B = Ok p3" "drop p3 ?bs = ?list" by auto
  have "\<exists>p4. (if peek_char ?bs (skip_ws ?bs p3) \<noteq> Some 0x7D
        then entries_loop lower ?bs (skip_ws ?bs p3) [] else Ok ([], skip_ws ?bs p3))
      = Ok (insert_entries kes [], p4) \<and> drop p4 ?bs = 0x7D # sp @ [0x7D]"
  proof (cases "kes = []")
    case True
    with 3(2) have d: "drop p3 ?bs = sp @ 0x7D # (sp @ [0x7D])" by simp
    have "drop (skip_ws ?bs p3) ?bs = 0x7D # sp @ [0x7D]"
      using d assms(2) by (intro skip_ws_drop) auto
    with True peek_at(1) [OF d assms(2)] show ?thesis by (simp add: insert_entries_def)
  next
    case False
    from print_entries_first [OF this assms(2) 3(2)] entries_at [OF this assms(1,2), of p3 ?bs "sp @ [0x7D]" lower "[]"] 3(2)
    show ?thesis by (simp add: entries_loop_skip)
  qed
  then obtain p4 where 4: "(if peek_char ?bs (skip_ws ?bs p3) \<noteq> Some 0x7D
        then entries_loop lower ?bs (skip_ws ?bs p3) [] else Ok ([], skip_ws ?bs p3))
      = Ok (insert_entries kes [], p4)" "drop p4 ?bs = [] @ 0x7D # (sp @ [0x7D])" by auto
  from expect_char_at [OF 4(2)] obtain p5 where
    5: "expect_char ?bs p4 0x7D = Ok p5" "drop p5 ?bs = sp @ 0x7D # []" by auto
  from expect_char_at [OF 5(2) assms(2)] obtain p6 where
    6: "expect_char ?bs p5 0x7D = Ok p6" by auto
  show ?thesis
    unfolding status_list_from_json_def as_bytes_str_of_bytes printed trimmed Let_def
    using 0(1) 1(1) 2(1) 3(1) 4(1) 5(1) 6 by simp
qed

section \<open>The keys of a parsed list\<close>

definition keys_ok :: "(string \<Rightarrow> string) \<Rightarrow> (string \<times> status_entry) list \<Rightarrow> bool" where
  "keys_ok lower es \<longleftrightarrow> distinct (map fst es) \<and> fst ` set es \<subseteq> range (to_lowercase lower)"

lemma keys_ok_update:
  "keys_ok lower es \<Longrightarrow> keys_ok lower (AList.update (to_lowercase lower s) e es)"
  by (simp add: keys_ok_def distinct_update dom_update)

lemma entries_loop_keys:
  "entries_loop lower bs pos es = Ok (es', pos') \<Longrightarrow> keys_ok lower es \<Longrightarrow> keys_ok lower es'"
proof (induction lower bs pos es rule: entries_loop.induct)
  case (1 lower bs pos es)
  from 1(2) obtain s p1 p2 e p3 where r: "read_string bs pos = Ok (s, p1)"
    "expect_char bs (skip_ws bs p1) 0x3A = Ok p2" "read_status_object bs (skip_ws bs p2) = Ok (e, p3)"
    by (subst (asm) entries_loop.simps) (auto simp: result_simps split: prod.splits)
  let ?es = "AList.update (to_lowercase lower s) e es"
  have ok: "keys_ok lower ?es" using 1(3) by (rule keys_ok_update)
  show ?case
  proof (cases "peek_char bs (skip_ws bs p3) = Some 0x2C")
    case False
    with 1(2) r ok show ?thesis
      by (subst (asm) entries_loop.simps) (auto simp: Let_def)
  next
    case True
    with 1(2) r have "entries_loop lower bs (skip_ws bs (skip_ws bs p3 + 1)) ?es = Ok (es', pos')"
      by (subst (asm) entries_loop.simps) (auto simp: Let_def)
    from 1(1) [OF r(1) refl r(2) r(3) refl refl refl True this ok] show ?thesis .
  qed
qed

lemma insert_entries_lookup:
  "map_of (insert_entries kes es) s =
     (case map_of (rev (map (\<lambda>(k, e). (map ascii_lower k, e)) kes)) s of
        Some e \<Rightarrow> Some e
      | None \<Rightarrow> map_of es s)"
proof (induction kes arbitrary: es)
  case Nil
  then show ?case by (simp add: insert_entries_def)
next
  case (Cons ke kes)
  obtain k e where ke: "ke = (k, e)" by (cases ke)
  have "insert_entries (ke # kes) es = insert_entries kes (AList.update (map ascii_lower k) e es)"
    by (simp add: insert_entries_def ke)
  with Cons show ?case
    by (simp add: ke update_conv' map_add_def split: option.splits)
qed

section \<open>Properties\<close>

text \<open>
  Parsing a revocation list never panics, on any string, and always ends. The keys of a
  parsed list are distinct and each is the lower-case form of a serial number in the text.
\<close>

lemma status_list_keys:
  "status_list_from_json lower json \<noteq> Panic
   \<and> (case status_list_from_json lower json of
        Ok l \<Rightarrow> distinct (map fst (entries l)) \<and> fst ` set (entries l) \<subseteq> range (to_lowercase lower)
      | _ \<Rightarrow> True)"
proof -
  have "keys_ok lower (entries l)" if "status_list_from_json lower json = Ok l" for l
    using that
    by (auto simp: status_list_from_json_def Let_def result_simps keys_ok_def [of lower "[]"]
        split: prod.splits if_splits dest!: entries_loop_keys)
  then show ?thesis
    using status_list_not_Panic by (auto simp: keys_ok_def split: result.split)
qed

lemma ascii_lower_idem: "ascii_lower (ascii_lower c) = ascii_lower c"
proof (cases "65 \<le> (of_char c :: nat) \<and> (of_char c :: nat) \<le> 90")
  case True
  then have "(of_char (ascii_lower c) :: nat) = of_char c + 32"
    by (simp add: ascii_lower_def Let_def)
  with True show ?thesis by (simp add: ascii_lower_def [of "ascii_lower c"] Let_def)
next
  case False
  then have "ascii_lower c = c" by (auto simp: ascii_lower_def Let_def)
  then show ?thesis by simp
qed

text \<open>
  C10. Printing revocation entries as JSON, with any white space before the tokens, and parsing
  the text gives the list that has, for each key in lower case, the status and reason of the last
  entry with that key up to the case of its letters. So the list is to be asked in lower case: a
  text without capital letters is found exactly when some entry has it up to case, and a text with
  a capital ASCII letter is never found, even when an entry has it literally. The keys, statuses
  and reasons must be ASCII without quotation marks and backslashes (\<open>plain_entry\<close>), since the
  parser does not decode escapes.
\<close>

theorem status_list_parse_print:
  assumes "list_all plain_entry kes" and "list_all json_ws sp"
  shows "\<exists>l. status_list_from_json lower (str_of_bytes (print_status_list sp kes)) = Ok l
     \<and> (\<forall>s. lookup_serial l s = map_of (rev (map (\<lambda>(k, e). (map ascii_lower k, e)) kes)) s)
     \<and> (\<forall>s. lookup_serial l (map ascii_lower s) \<noteq> None
            \<longleftrightarrow> (\<exists>k e. (k, e) \<in> set kes \<and> map ascii_lower k = map ascii_lower s))
     \<and> (\<forall>s. map ascii_lower s \<noteq> s \<longrightarrow> lookup_serial l s = None)"
proof -
  let ?m = "map_of (rev (map (\<lambda>(k, e). (map ascii_lower k, e)) kes))"
  have found: "?m s \<noteq> None \<longleftrightarrow> (\<exists>k e. (k, e) \<in> set kes \<and> map ascii_lower k = s)" for s
    by (force simp: map_of_eq_None_iff)
  have "?m s = None" if "map ascii_lower s \<noteq> s" for s
  proof (rule ccontr)
    assume "?m s \<noteq> None"
    then have "\<exists>k e. (k, e) \<in> set kes \<and> map ascii_lower k = s" by (simp only: found)
    then obtain k where "s = map ascii_lower k" by auto
    with that show False by (simp add: ascii_lower_idem)
  qed
  moreover have "\<exists>l. status_list_from_json lower (str_of_bytes (print_status_list sp kes)) = Ok l
     \<and> (\<forall>s. lookup_serial l s = ?m s)"
    using status_list_roundtrip [OF assms]
    by (auto simp: lookup_serial_def insert_entries_lookup split: option.split)
  ultimately show ?thesis using found by (metis (no_types, lifting))
qed

lemma lower_dead:
  "ascii_lower (CHR ''D'') = CHR ''d''" "ascii_lower (CHR ''E'') = CHR ''e''"
  "ascii_lower (CHR ''A'') = CHR ''a''"
  by code_simp+

theorem status_list_parse_print_witness:
  "\<exists>l. status_list_from_json id (str_of_bytes (print_status_list [0x20, 0x0A]
         [(''DEAD'', \<lparr>entry_status = ''SUSPENDED'', entry_reason = ''SOFTWARE_FLAW''\<rparr>)])) = Ok l
     \<and> lookup_serial l ''dead'' = Some \<lparr>entry_status = ''SUSPENDED'', entry_reason = ''SOFTWARE_FLAW''\<rparr>
     \<and> lookup_serial l ''DEAD'' = None"
  using status_list_parse_print [of
      "[(''DEAD'', \<lparr>entry_status = ''SUSPENDED'', entry_reason = ''SOFTWARE_FLAW''\<rparr>)]" "[0x20, 0x0A]" id]
  by (auto simp: plain_entry_def plain_def ascii_def json_ws_def lower_dead)

end
