(* ===== verification/Android_Roots.thy ===== *)
theory Android_Roots
  imports Android_Errors X509 Sample
begin

text \<open>
  Trust roots and chain validation of \<open>attest-android\<close> (\<open>rust/attest-android/src/roots.rs\<close>).
  The pinned roots are files of the repository's assets, so the list of their encodings is an
  argument of the validator. The checks shared with \<open>attest-apple\<close> come from \<open>X509\<close>; the
  signature check also knows RSA, and the chain may end in a pinned root or below one. The
  interpretation \<open>android_chain\<close> gives callers the contract \<open>chain_validator\<close>.
\<close>

section \<open>The checks\<close>

definition OID_EC_PUBLIC_KEY :: oid where
  "OID_EC_PUBLIC_KEY = [1, 2, 840, 10045, 2, 1]"

definition OID_RSA_ENCRYPTION :: oid where
  "OID_RSA_ENCRYPTION = [1, 2, 840, 113549, 1, 1, 1]"

definition OID_SHA256_WITH_RSA :: oid where
  "OID_SHA256_WITH_RSA = [1, 2, 840, 113549, 1, 1, 11]"

definition android_check_validity :: "certificate \<Rightarrow> u64 \<Rightarrow> (unit, android_error) result" where
  "android_check_validity cert now_ms = check_validity_with AndroidDer cert now_ms"

definition android_check_is_ca :: "crates \<Rightarrow> certificate \<Rightarrow> (unit, android_error) result" where
  "android_check_is_ca X cert = check_is_ca_with AndroidDer X cert"

definition android_verify_p256 ::
    "crates \<Rightarrow> bytes \<Rightarrow> bytes \<Rightarrow> bytes \<Rightarrow> (unit, android_error) result" where
  "android_verify_p256 X pk msg sig = verify_p256_with AndroidDer AndroidUntrustedChain X pk msg sig"

definition android_verify_p384 ::
    "crates \<Rightarrow> bytes \<Rightarrow> bytes \<Rightarrow> bytes \<Rightarrow> (unit, android_error) result" where
  "android_verify_p384 X pk msg sig = verify_p384_with AndroidDer AndroidUntrustedChain X pk msg sig"

definition android_verify_p384_sha256 ::
    "crates \<Rightarrow> bytes \<Rightarrow> bytes \<Rightarrow> bytes \<Rightarrow> (unit, android_error) result" where
  "android_verify_p384_sha256 X pk msg sig =
     verify_p384_sha256_with AndroidDer AndroidUntrustedChain X pk msg sig"

definition verify_rsa_pkcs1v15_sha256 ::
    "crates \<Rightarrow> bytes \<Rightarrow> bytes \<Rightarrow> bytes \<Rightarrow> (unit, android_error) result" where
  "verify_rsa_pkcs1v15_sha256 X spki_bit_string msg sig =
     and_then (map_err (\<lambda>e. AndroidDer (''rsa pkcs1 decode: '' @ e))
                (rsa_key_from_pkcs1 X spki_bit_string)) (\<lambda>pk.
     and_then (map_err (\<lambda>e. AndroidDer (''rsa sig decode: '' @ e))
                (rsa_signature_from_bytes X sig)) (\<lambda>signature.
     if rsa_verify_sha256 X pk msg signature then Ok () else Err AndroidUntrustedChain))"

definition android_verify_signature ::
    "crates \<Rightarrow> certificate \<Rightarrow> certificate \<Rightarrow> (unit, android_error) result" where
  "android_verify_signature X cert issuer =
     (let issuer_spki = public_key_info (tbs issuer) in
      and_then (ok_or (AndroidDer ''issuer public key not byte-aligned'')
                 (bit_string_as_bytes X (subject_public_key issuer_spki))) (\<lambda>issuer_pk_bytes.
      let sig_alg_oid = signature_algorithm_oid cert in
      and_then (map_err (\<lambda>e. AndroidDer (''tbs encode: '' @ e)) (tbs_to_der X (tbs cert))) (\<lambda>tbs_bytes.
      and_then (ok_or (AndroidDer ''signature not byte-aligned'')
                 (bit_string_as_bytes X (signature cert))) (\<lambda>sig_bytes.
      let issuer_alg = algorithm_oid issuer_spki in
      if issuer_alg = OID_EC_PUBLIC_KEY then
        and_then (ok_or (AndroidDer ''issuer SPKI missing named-curve parameter'')
                   (Option.bind (algorithm_parameters issuer_spki)
                     (\<lambda>any. case any_as_oid X any of Inl e \<Rightarrow> None | Inr oid \<Rightarrow> Some oid))) (\<lambda>curve_oid.
        if curve_oid = OID_SECP256R1 \<and> sig_alg_oid = OID_ECDSA_SHA256
          then android_verify_p256 X issuer_pk_bytes tbs_bytes sig_bytes
        else if curve_oid = OID_SECP384R1 \<and> sig_alg_oid = OID_ECDSA_SHA384
          then android_verify_p384 X issuer_pk_bytes tbs_bytes sig_bytes
        else if curve_oid = OID_SECP384R1 \<and> sig_alg_oid = OID_ECDSA_SHA256
          then android_verify_p384_sha256 X issuer_pk_bytes tbs_bytes sig_bytes
        else Err (AndroidDer (''unsupported EC curve/sig combination: curve='' @ oid_display X curve_oid
                              @ '' sig='' @ oid_display X sig_alg_oid)))
      else if issuer_alg = OID_RSA_ENCRYPTION then
        (if sig_alg_oid = OID_SHA256_WITH_RSA
          then verify_rsa_pkcs1v15_sha256 X issuer_pk_bytes tbs_bytes sig_bytes
          else Err (AndroidDer (''unsupported RSA sig: '' @ oid_display X sig_alg_oid)))
      else Err (AndroidDer (''unsupported issuer SPKI algorithm: '' @ oid_display X issuer_alg))))))"

definition root_matches_top :: "crates \<Rightarrow> certificate \<Rightarrow> certificate \<Rightarrow> bool" where
  "root_matches_top X root top_cert =
     (case (certificate_to_der X root, certificate_to_der X top_cert) of
        (Inr a, Inr b) \<Rightarrow> a = b
      | _ \<Rightarrow> False)"

text \<open>\<open>r.ok();\<close> as a statement: the result is dropped, only a panic would be noticed.\<close>

fun discard :: "('a, 'e) result \<Rightarrow> (unit, 'd) result" where
  "discard (Ok x) = Ok ()"
| "discard (Err e) = Ok ()"
| "discard Panic = Panic"

text \<open>The loop over the pinned roots; its value is the variable \<open>anchored\<close>.\<close>

fun anchor_loop ::
    "crates \<Rightarrow> certificate list \<Rightarrow> certificate \<Rightarrow> u64 \<Rightarrow> (bool, android_error) result" where
  "anchor_loop X [] top_cert clock_ms = Ok False"
| "anchor_loop X (root # roots) top_cert clock_ms =
     (if root_matches_top X root top_cert then Ok True
      else (case android_verify_signature X top_cert root of
              Ok u \<Rightarrow> and_then (android_check_validity root clock_ms) (\<lambda>_. Ok True)
            | Err e \<Rightarrow> anchor_loop X roots top_cert clock_ms
            | Panic \<Rightarrow> Panic))"

definition parse_pinned_roots :: "crates \<Rightarrow> bytes list \<Rightarrow> (certificate list, android_error) result" where
  "parse_pinned_roots X pinned_roots_der =
     collect_results (\<lambda>d. map_err (\<lambda>e. AndroidDer (''pinned root parse: '' @ e))
                           (certificate_from_der X d)) pinned_roots_der"

definition android_validate_chain ::
    "crates \<Rightarrow> bytes list \<Rightarrow> bytes list \<Rightarrow> u64 \<Rightarrow> (certificate, android_error) result" where
  "android_validate_chain X pinned_roots_der chain clock_ms =
     (if chain = [] then Err EmptyChain else
      and_then (parse_chain_with AndroidDer X chain) (\<lambda>certs.
      and_then (for_each (\<lambda>cert. android_check_validity cert clock_ms) certs) (\<lambda>_.
      and_then (for_each (\<lambda>cert. discard (android_check_is_ca X cert)) (drop 1 certs)) (\<lambda>_.
      and_then (check_inner_chain (android_verify_signature X) certs) (\<lambda>_.
      and_then (parse_pinned_roots X pinned_roots_der) (\<lambda>roots.
      and_then (expect (get certs (length certs - 1))) (\<lambda>top_cert.
      and_then (anchor_loop X roots top_cert clock_ms) (\<lambda>anchored.
      if \<not> anchored then Err AndroidUntrustedChain else
      expect (get certs 0)))))))))"

section \<open>What is accepted\<close>

definition rsa_signature_ok :: "crates \<Rightarrow> oid \<Rightarrow> bytes \<Rightarrow> bytes \<Rightarrow> bytes \<Rightarrow> bool" where
  "rsa_signature_ok X sig_alg pk msg sig \<longleftrightarrow> sig_alg = OID_SHA256_WITH_RSA \<and>
     (\<exists>k s. rsa_key_from_pkcs1 X pk = Inr k \<and> rsa_signature_from_bytes X sig = Inr s
        \<and> rsa_verify_sha256 X k msg s)"

text \<open>
  The signature of \<open>cert\<close> verifies under the key of \<open>issuer\<close>, an elliptic-curve key with a
  named curve or an RSA key.
\<close>

definition android_signed_by :: "crates \<Rightarrow> certificate \<Rightarrow> certificate \<Rightarrow> bool" where
  "android_signed_by X cert issuer \<longleftrightarrow>
     (\<exists>pk msg sig.
        bit_string_as_bytes X (subject_public_key (public_key_info (tbs issuer))) = Some pk
        \<and> tbs_to_der X (tbs cert) = Inr msg
        \<and> bit_string_as_bytes X (signature cert) = Some sig
        \<and> (algorithm_oid (public_key_info (tbs issuer)) = OID_EC_PUBLIC_KEY
             \<and> (\<exists>params curve. algorithm_parameters (public_key_info (tbs issuer)) = Some params
                  \<and> any_as_oid X params = Inr curve
                  \<and> ec_signature_ok X curve (signature_algorithm_oid cert) pk msg sig)
           \<or> algorithm_oid (public_key_info (tbs issuer)) = OID_RSA_ENCRYPTION
             \<and> rsa_signature_ok X (signature_algorithm_oid cert) pk msg sig))"

lemma ec_rsa_differ: "OID_EC_PUBLIC_KEY \<noteq> OID_RSA_ENCRYPTION"
  by (simp add: OID_EC_PUBLIC_KEY_def OID_RSA_ENCRYPTION_def)

lemma verify_rsa_Ok_iff [result_simps]:
  "verify_rsa_pkcs1v15_sha256 X pk msg sig = Ok u \<longleftrightarrow>
     (\<exists>k s. rsa_key_from_pkcs1 X pk = Inr k \<and> rsa_signature_from_bytes X sig = Inr s
        \<and> rsa_verify_sha256 X k msg s)"
  by (auto simp: verify_rsa_pkcs1v15_sha256_def result_simps split: if_splits)

lemma verify_rsa_not_Panic [simp]: "verify_rsa_pkcs1v15_sha256 X pk msg sig \<noteq> Panic"
  by (auto simp: verify_rsa_pkcs1v15_sha256_def result_simps split: if_splits)

lemma android_verify_signature_not_Panic [simp]: "android_verify_signature X cert issuer \<noteq> Panic"
  by (auto simp: android_verify_signature_def Let_def android_verify_p256_def android_verify_p384_def
      android_verify_p384_sha256_def verify_with_defs result_simps split: if_splits)

lemma android_verify_signature_Ok_iff [result_simps]:
  "android_verify_signature X cert issuer = Ok u \<longleftrightarrow> android_signed_by X cert issuer"
proof -
  let ?pk = "bit_string_as_bytes X (subject_public_key (public_key_info (tbs issuer)))"
  let ?params = "algorithm_parameters (public_key_info (tbs issuer))"
  let ?sig = "bit_string_as_bytes X (signature cert)"
  have differ: "OID_SECP256R1 \<noteq> OID_SECP384R1" "OID_ECDSA_SHA256 \<noteq> OID_ECDSA_SHA384"
    by (simp_all add: oid_defs)
  show ?thesis
    using differ differ [symmetric] ec_rsa_differ ec_rsa_differ [symmetric]
    by (cases ?pk; cases ?params; cases "any_as_oid X (the ?params)"; cases "tbs_to_der X (tbs cert)"; cases ?sig)
       (auto simp: android_verify_signature_def android_signed_by_def ec_signature_ok_def
         rsa_signature_ok_def Let_def android_verify_p256_def android_verify_p384_def
         android_verify_p384_sha256_def verify_with_defs result_simps)
qed

lemma discard_ca [simp]: "discard (android_check_is_ca X cert) = Ok ()"
  by (cases "android_check_is_ca X cert") (auto simp: android_check_is_ca_def)

lemma for_each_Ok: "for_each (\<lambda>x. Ok ()) xs = Ok ()"
  by (induction xs) simp_all

text \<open>
  A certificate is anchored when, of the pinned roots, the first that equals it or has signed
  it is either equal to it or in its validity window.
\<close>

definition android_anchored :: "crates \<Rightarrow> bytes list \<Rightarrow> certificate \<Rightarrow> u64 \<Rightarrow> bool" where
  "android_anchored X pinned_roots_der cert t \<longleftrightarrow>
     (\<exists>before root after.
        list_all2 (\<lambda>d c. parse_cert X d = Some c) pinned_roots_der (before @ root # after)
        \<and> list_all (\<lambda>r. \<not> root_matches_top X r cert \<and> \<not> android_signed_by X cert r) before
        \<and> (root_matches_top X root cert \<or> android_signed_by X cert root \<and> valid_at root t))"

lemma anchor_loop_Ok_True_iff:
  "anchor_loop X roots cert t = Ok True \<longleftrightarrow>
     (\<exists>before root after. roots = before @ root # after
        \<and> list_all (\<lambda>r. \<not> root_matches_top X r cert \<and> \<not> android_signed_by X cert r) before
        \<and> (root_matches_top X root cert \<or> android_signed_by X cert root \<and> valid_at root t))"
    (is "_ \<longleftrightarrow> (\<exists>before root after. roots = _ \<and> ?none before \<and> ?hit root)")
proof (induction roots)
  case Nil
  then show ?case by simp
next
  case (Cons r roots)
  have split: "(\<exists>before root after. r # roots = before @ root # after \<and> ?none before \<and> ?hit root)
      \<longleftrightarrow> ?hit r \<or> (\<not> root_matches_top X r cert \<and> \<not> android_signed_by X cert r
            \<and> (\<exists>before root after. roots = before @ root # after \<and> ?none before \<and> ?hit root))"
    (is "?l \<longleftrightarrow> ?r")
  proof
    assume ?l
    then obtain before root after where
      b: "r # roots = before @ root # after" "?none before" "?hit root" by blast
    then show ?r by (cases before) auto
  next
    assume ?r
    then show ?l
    proof
      assume "?hit r"
      then show ?l by (intro exI [of _ "[]"] exI [of _ r] exI [of _ roots]) simp
    next
      assume "\<not> root_matches_top X r cert \<and> \<not> android_signed_by X cert r
            \<and> (\<exists>before root after. roots = before @ root # after \<and> ?none before \<and> ?hit root)"
      then obtain before root after where "roots = before @ root # after" "?none before" "?hit root"
        "\<not> root_matches_top X r cert" "\<not> android_signed_by X cert r" by blast
      then show ?l by (intro exI [of _ "r # before"] exI [of _ root] exI [of _ after]) simp
    qed
  qed
  have "android_signed_by X cert r \<longleftrightarrow> android_verify_signature X cert r = Ok ()"
    by (simp add: android_verify_signature_Ok_iff)
  then show ?case
    unfolding split Cons [symmetric]
    by (cases "android_verify_signature X cert r")
       (auto simp: android_check_validity_def and_then_Ok_iff check_validity_Ok_iff)
qed

lemma parse_pinned_roots_Ok_iff:
  "parse_pinned_roots X ders = Ok roots \<longleftrightarrow>
     list_all2 (\<lambda>d c. parse_cert X d = Some c) ders roots"
  by (simp add: parse_pinned_roots_def collect_results_Ok_iff map_err_Ok_iff)

lemma parse_pinned_roots_not_Panic [simp]: "parse_pinned_roots X ders \<noteq> Panic"
  by (auto simp: parse_pinned_roots_def dest: collect_results_Panic)

lemma android_validate_Ok_iff:
  "android_validate_chain X pinned_roots_der chain t = Ok leaf \<longleftrightarrow>
     (\<exists>certs. chain \<noteq> [] \<and> list_all2 (\<lambda>d c. parse_cert X d = Some c) chain certs
        \<and> (\<forall>c \<in> set certs. valid_at c t)
        \<and> successively (android_signed_by X) certs
        \<and> android_anchored X pinned_roots_der (last certs) t
        \<and> leaf = hd certs)"
proof -
  have nonempty: "certs \<noteq> []" if "chain \<noteq> []"
    "list_all2 (\<lambda>d c. parse_cert X d = Some c) chain certs" for certs
    using that by auto
  have "android_validate_chain X pinned_roots_der chain t = Ok leaf \<longleftrightarrow>
     (\<exists>certs. chain \<noteq> [] \<and> list_all2 (\<lambda>d c. parse_cert X d = Some c) chain certs
        \<and> (\<forall>c \<in> set certs. valid_at c t)
        \<and> successively (android_signed_by X) certs
        \<and> (\<exists>roots. list_all2 (\<lambda>d c. parse_cert X d = Some c) pinned_roots_der roots
             \<and> anchor_loop X roots (last certs) t = Ok True)
        \<and> leaf = hd certs)"
    unfolding android_validate_chain_def android_check_validity_def
    by (auto simp: parse_chain_Ok_iff inner_chain_Ok_iff parse_pinned_roots_Ok_iff result_simps
        for_each_Ok simp del: parse_cert_Some_iff)
       (blast dest: nonempty)+
  then show ?thesis
    unfolding anchor_loop_Ok_True_iff android_anchored_def by blast
qed

lemma anchor_loop_Panic:
  "anchor_loop X roots cert t = Panic \<Longrightarrow> \<exists>r \<in> set roots. \<not> times_representable r"
  by (induction roots)
     (auto simp: android_check_validity_def and_then_Panic_iff check_validity_Panic_iff
       split: if_splits result.splits)

lemma android_validate_not_Panic:
  assumes "crate_times_ok X"
  shows "android_validate_chain X pinned_roots_der chain t \<noteq> Panic"
proof
  assume panic: "android_validate_chain X pinned_roots_der chain t = Panic"
  have roots: "times_representable r"
    if "parse_pinned_roots X pinned_roots_der = Ok roots" "r \<in> set roots" for roots r
    using that assms
    by (auto simp: parse_pinned_roots_Ok_iff crate_times_ok_def list_all2_conv_all_nth in_set_conv_nth)
  show False
    using panic assms
    by (auto simp: android_validate_chain_def android_check_validity_def result_simps for_each_Ok
        get_last_None get_first_None
        dest!: for_each_Panic inner_chain_Panic anchor_loop_Panic
        dest: parse_chain_nonempty parse_chain_times [OF _ assms] roots)
qed

interpretation android_chain: chain_validator
  "android_validate_chain X pinned_roots_der" "parse_cert X" "android_signed_by X"
  "android_anchored X pinned_roots_der"
  for X :: crates and pinned_roots_der :: "bytes list"
proof unfold_locales
  fix chain t leaf
  assume "android_validate_chain X pinned_roots_der chain t = Ok leaf"
  then show "\<exists>certs. list_all2 (\<lambda>d c. parse_cert X d = Some c) chain certs \<and> certs \<noteq> []
      \<and> leaf = hd certs \<and> (\<forall>c \<in> set certs. valid_at c t)
      \<and> successively (android_signed_by X) certs
      \<and> android_anchored X pinned_roots_der (last certs) t"
    by (auto simp: android_validate_Ok_iff dest: list_all2_same_Nil)
qed

section \<open>Properties\<close>

lemma sample_android_chain:
  "android_validate_chain sample_crates [[20]] [[24], [21]] 5000 = Ok sample_android_leaf"
  by (simp add: android_validate_chain_def parse_chain_with_def sample_crates_def
      android_check_validity_def check_validity_with_def sample_cert_defs system_time_from_secs_def
      android_check_is_ca_def check_is_ca_with_def find_extension_def check_inner_chain_def index_def
      get_def android_verify_signature_def oid_defs android_verify_p256_def verify_with_defs
      verify_steps_def OID_EC_PUBLIC_KEY_def root_matches_top_def parse_pinned_roots_def)

text \<open>
  C4. Android's chain validation accepts exactly the chains that are not empty, parse, are
  inside their validity window, are signed each by the next, and end in a certificate for
  which the first matching pinned root either is that certificate or has signed it and is
  itself in its validity window; and then it returns the leaf.
\<close>

theorem android_validate_chain_accepts:
  "android_validate_chain X pinned_roots_der chain t = Ok leaf \<longleftrightarrow>
     (\<exists>certs before root after.
        chain \<noteq> [] \<and> list_all2 (\<lambda>d c. parse_cert X d = Some c) chain certs
        \<and> list_all (\<lambda>c. valid_at c t) certs \<and> successively (android_signed_by X) certs
        \<and> list_all2 (\<lambda>d c. parse_cert X d = Some c) pinned_roots_der (before @ root # after)
        \<and> list_all (\<lambda>r. \<not> root_matches_top X r (last certs)
              \<and> \<not> android_signed_by X (last certs) r) before
        \<and> (root_matches_top X root (last certs)
            \<or> android_signed_by X (last certs) root \<and> valid_at root t)
        \<and> leaf = hd certs)"
  unfolding android_validate_Ok_iff android_anchored_def list_all_iff by blast

lemma for_each_discard:
  "for_each (\<lambda>cert. discard (android_check_is_ca X cert)) certs = Ok ()"
  by (simp add: for_each_Ok)

lemma crates_update_check:
  "android_verify_signature (X\<lparr>basic_constraints_from_der := f\<rparr>) = android_verify_signature X"
  "root_matches_top (X\<lparr>basic_constraints_from_der := f\<rparr>) = root_matches_top X"
  by (intro ext, simp add: android_verify_signature_def root_matches_top_def Let_def
      android_verify_p256_def android_verify_p384_def android_verify_p384_sha256_def
      verify_rsa_pkcs1v15_sha256_def verify_with_defs cong del: if_weak_cong)+

lemma anchor_loop_update:
  "anchor_loop (X\<lparr>basic_constraints_from_der := f\<rparr>) roots = anchor_loop X roots"
  by (intro ext, induction roots) (simp_all add: crates_update_check split: result.split)

text \<open>
  The CA flag of an issuer has no influence on the result: the outcome of
  \<open>check_is_ca\<close> is dropped, so the validator returns the same whatever the
  \<open>BasicConstraints\<close> of the certificates say. A leaf issued by a certificate without any
  \<open>BasicConstraints\<close> is accepted, where the Apple validator rejects the same chain.
\<close>

lemma android_ignores_ca_flag:
  "android_validate_chain (X\<lparr>basic_constraints_from_der := f\<rparr>) pinned_roots_der chain t
     = android_validate_chain X pinned_roots_der chain t
   \<and> android_validate_chain sample_crates [[20]] [[25], [22], [21]] 5000
       = Ok (sample_cert 25 [55] [] [52] [])
   \<and> \<not> is_ca sample_crates sample_plain"
proof -
  have "android_validate_chain sample_crates [[20]] [[25], [22], [21]] 5000
       = Ok (sample_cert 25 [55] [] [52] [])"
    by (simp add: android_validate_chain_def parse_chain_with_def sample_crates_def
      android_check_validity_def check_validity_with_def sample_cert_defs system_time_from_secs_def
      android_check_is_ca_def check_is_ca_with_def find_extension_def check_inner_chain_def index_def
      get_def android_verify_signature_def oid_defs android_verify_p256_def verify_with_defs
      verify_steps_def OID_EC_PUBLIC_KEY_def root_matches_top_def parse_pinned_roots_def)
  moreover have "\<not> is_ca sample_crates sample_plain"
    by (simp add: is_ca_def find_extension_def sample_cert_defs)
  ultimately show ?thesis
    by (simp add: android_validate_chain_def for_each_discard crates_update_check anchor_loop_update
        parse_chain_with_def parse_pinned_roots_def)
qed

text \<open>
  An accepted leaf is the certificate of the first element of the chain, is valid at the
  clock, and is connected by a path of verified signatures to a certificate anchored in the
  pinned roots.
\<close>

lemma android_leaf_trusted:
  assumes "android_validate_chain X pinned_roots_der chain t = Ok leaf"
  shows "parse_cert X (hd chain) = Some leaf \<and> valid_at leaf t
     \<and> (\<exists>top_cert. (android_signed_by X)\<^sup>*\<^sup>* leaf top_cert
          \<and> android_anchored X pinned_roots_der top_cert t)"
  using android_chain.leaf_is_first [OF assms] android_chain.leaf_valid [OF assms]
    android_chain.trust_path [OF assms] by blast

end
