(* ===== verification/Android_Verify.thy ===== *)
theory Android_Verify
  imports Attestation_Core Android_KeyDescription Android_StatusList Android_Roots
begin

text \<open>
  The entry point of \<open>attest-android\<close> (\<open>rust/attest-android/src/lib.rs\<close>): the policy, the
  revocation check of every certificate, the decision on security levels and boot state, and
  the outcome with the hash of the length-prefixed chain.
\<close>

section \<open>Policy\<close>

record policy =
  min_security_level :: security_level
  require_verified_boot :: bool
  allowed_self_signed_keys :: "bytes list"
  require_device_locked :: bool
  policy_status_list :: "status_list option"

definition policy_default :: policy where
  "policy_default = \<lparr>min_security_level = TrustedEnvironment, require_verified_boot = True,
     allowed_self_signed_keys = [], require_device_locked = True, policy_status_list = None\<rparr>"

section \<open>The steps\<close>

text \<open>The loop that prints a serial number, with its flag \<open>leading\<close>.\<close>

fun serial_loop :: "bool \<Rightarrow> bytes \<Rightarrow> string" where
  "serial_loop leading [] = []"
| "serial_loop leading (b # bs) =
     (if leading \<and> b = 0 then serial_loop leading bs else hex_byte b @ serial_loop False bs)"

definition serial_hex :: "bytes \<Rightarrow> string" where
  "serial_hex serial =
     (let hex = serial_loop True serial in if hex = [] then ''0'' else hex)"

definition check_status :: "crates \<Rightarrow> bytes \<Rightarrow> status_list \<Rightarrow> (unit, android_error) result" where
  "check_status X d l =
     and_then (map_err (\<lambda>e. AndroidDer (''cert parse for status: '' @ e)) (certificate_from_der X d))
       (\<lambda>cert.
     let hex = serial_hex (serial_number (tbs cert)) in
     (case lookup_serial l hex of
        Some entry \<Rightarrow> Err (Revoked hex (entry_status entry) (entry_reason entry))
      | None \<Rightarrow> Ok ()))"

definition extract_attestation_extension :: "certificate \<Rightarrow> (bytes, android_error) result" where
  "extract_attestation_extension leaf =
     and_then (ok_or MissingAttestationExtension (extensions (tbs leaf))) (\<lambda>exts.
     and_then (ok_or MissingAttestationExtension
                (find (\<lambda>e. extn_id e = OID_ANDROID_KEY_ATTESTATION) exts)) (\<lambda>ext.
     Ok (extn_value ext)))"

text \<open>\<open>(c.len() as u32).to_be_bytes()\<close> and then the certificate.\<close>

definition chunk :: "bytes \<Rightarrow> bytes" where
  "chunk c = be_bytes 4 (unat (word_of_nat (length c) :: u32)) @ c"

definition canonical_chain_hash_input :: "bytes list \<Rightarrow> bytes" where
  "canonical_chain_hash_input chain = concat (map chunk chain)"

text \<open>Step 5, both levels against the minimum.\<close>

definition check_levels :: "policy \<Rightarrow> key_description \<Rightarrow> (unit, android_error) result" where
  "check_levels p kd =
     (if \<not> meets (attestation_security_level kd) (min_security_level p)
        then Err (InsufficientSecurityLevel (attestation_security_level kd) (min_security_level p))
      else if \<not> meets (keymint_security_level kd) (min_security_level p)
        then Err (InsufficientSecurityLevel (keymint_security_level kd) (min_security_level p))
      else Ok ())"

text \<open>Step 6, the boot state of the hardware-enforced root of trust.\<close>

definition check_boot :: "policy \<Rightarrow> root_of_trust_block option \<Rightarrow> (unit, android_error) result" where
  "check_boot p rot_option =
     (case rot_option of
        Some rot \<Rightarrow>
          if require_device_locked p \<and> \<not> device_locked rot then Err DeviceUnlocked
          else if boot_state rot = Verified then Ok ()
          else if \<not> require_verified_boot p \<and> allowed_self_signed_keys p = [] then Ok ()
          else if boot_state rot = SelfSigned \<and> \<not> require_verified_boot p
             \<and> list_ex (\<lambda>k. k = verified_boot_key rot) (allowed_self_signed_keys p) then Ok ()
          else Err (UnacceptableBootState (boot_state rot))
      | None \<Rightarrow>
          if require_verified_boot p then Err (UnacceptableBootState Failed) else Ok ())"

definition to_der_vec :: "crates \<Rightarrow> subject_public_key_info \<Rightarrow> (bytes, android_error) result" where
  "to_der_vec X spki = map_err (\<lambda>e. AndroidDer (''SPKI encode: '' @ e)) (spki_to_der X spki)"

lemma to_der_vec_Ok_iff [result_simps]: "to_der_vec X spki = Ok d \<longleftrightarrow> spki_to_der X spki = Inr d"
  by (simp add: to_der_vec_def result_simps)

lemma to_der_vec_not_Panic [simp]: "to_der_vec X spki \<noteq> Panic"
  by (simp add: to_der_vec_def)

definition verify_attestation :: "crates \<Rightarrow> bytes list \<Rightarrow> bytes list \<Rightarrow> bytes \<Rightarrow> policy \<Rightarrow> u64
    \<Rightarrow> (outcome, android_error) result" where
  "verify_attestation X pinned_roots_der chain chal p clock_ms =
     and_then (android_validate_chain X pinned_roots_der chain clock_ms) (\<lambda>leaf.
     and_then (case policy_status_list p of
                 Some l \<Rightarrow> for_each (\<lambda>d. check_status X d l) chain
               | None \<Rightarrow> Ok ()) (\<lambda>_.
     and_then (extract_attestation_extension leaf) (\<lambda>ext_value.
     and_then (key_description_from_der X ext_value) (\<lambda>kd.
     if attestation_challenge kd \<noteq> chal then Err ChallengeMismatch else
     and_then (check_levels p kd) (\<lambda>_.
     and_then (check_boot p (root_of_trust (hardware_enforced kd))) (\<lambda>_.
     and_then (to_der_vec X (public_key_info (tbs leaf))) (\<lambda>spki_der.
     Ok \<lparr>source = ANDROID_KEY_ATTEST, attested_value = spki_der, challenge = chal,
         timestamp_ms = clock_ms,
         detail_hash = sha256 X (canonical_chain_hash_input chain)\<rparr>)))))))"

section \<open>Length-prefixed certificates\<close>

definition chunk_ok :: "bytes \<Rightarrow> bool" where
  "chunk_ok c \<longleftrightarrow> length c < 2 ^ 32"

definition read_chunk :: "bytes \<Rightarrow> (bytes \<times> bytes) option" where
  "read_chunk bs =
     (let n = be_nat (take 4 bs) in
      if 4 + n \<le> length bs then Some (take n (drop 4 bs), drop (4 + n) bs) else None)"

interpretation chain_chunks: decodable chunk read_chunk chunk_ok
proof unfold_locales
  fix c rest
  assume "chunk_ok c"
  then have len: "be_nat (be_bytes 4 (unat (word_of_nat (length c) :: u32))) = length c"
    by (simp add: chunk_ok_def be_nat_be_bytes unat_of_nat)
  then show "read_chunk (chunk c @ rest) = Some (c, rest)"
    by (simp add: read_chunk_def chunk_def Let_def)
next
  show "chunk c \<noteq> []" for c
    by (metis append_is_Nil_conv chunk_def length_be_bytes list.size(3) zero_neq_numeral)
qed

section \<open>Serial numbers in hexadecimal\<close>

text \<open>The hexadecimal numeral of a number, without leading zeros.\<close>

fun hex_nat :: "nat \<Rightarrow> string" where
  "hex_nat n = (if n < 16 then [hex_digit n] else hex_nat (n div 16) @ [hex_digit (n mod 16)])"

declare hex_nat.simps [simp del]

lemma serial_loop_False: "serial_loop False bs = concat (map hex_byte bs)"
  by (induction bs) simp_all

lemma serial_loop_True:
  "serial_loop True bs = concat (map hex_byte (dropWhile (\<lambda>b. b = 0) bs))"
  by (induction bs) (simp_all add: serial_loop_False)

lemma be_nat_dropWhile: "be_nat (dropWhile (\<lambda>b. b = 0) bs) = be_nat bs"
  by (induction bs) (simp_all add: be_nat_Cons)

lemma be_nat_pos: "b \<noteq> 0 \<Longrightarrow> 0 < be_nat (b # bs)"
  by (simp add: be_nat_Cons unat_gt_0)

lemma hex_nat_byte:
  "0 < m \<Longrightarrow> d < 256 \<Longrightarrow> hex_nat (m * 256 + d) = hex_nat m @ [hex_digit (d div 16), hex_digit (d mod 16)]"
proof -
  assume m: "0 < m" and d: "d < 256"
  have 1: "(m * 256 + d) div 16 = m * 16 + d div 16"
  proof -
    have "(d + (m * 16) * 16) div 16 = m * 16 + d div 16"
      using div_mult_self1 [of 16 d "m * 16"] by (simp only: zero_neq_numeral [symmetric])
    then show ?thesis by (simp add: add.commute)
  qed
  have 2: "(m * 256 + d) mod 16 = d mod 16"
    using mod_mult_self1 [of d "m * 16" 16] by (simp add: ac_simps)
  have 3: "(m * 16 + d div 16) div 16 = m" "(m * 16 + d div 16) mod 16 = d div 16"
    using d by auto
  have "hex_nat (m * 256 + d) = hex_nat (m * 16 + d div 16) @ [hex_digit (d mod 16)]"
    using m by (subst hex_nat.simps) (simp add: 1 2)
  also have "hex_nat (m * 16 + d div 16) = hex_nat m @ [hex_digit (d div 16)]"
    using m d by (subst hex_nat.simps) (simp add: less_mult_imp_div_less)
  finally show ?thesis by simp
qed

lemma hex_bytes:
  assumes "b \<noteq> 0"
  shows "concat (map hex_byte (b # bs)) =
     (if unat b < 16 then CHR ''0'' # hex_nat (be_nat (b # bs)) else hex_nat (be_nat (b # bs)))"
proof (induction bs rule: rev_induct)
  case Nil
  have "unat b < 256" by (rule unat_u8_less)
  then have "unat b div 16 < 16" by auto
  moreover have "hex_digit 0 = CHR ''0''" by code_simp
  ultimately show ?case
    by (auto simp: hex_byte_def be_nat_Cons hex_nat.simps)
next
  case (snoc c bs)
  have "be_nat (b # bs @ [c]) = be_nat (b # bs) * 256 + unat c"
    using be_nat_snoc [of "b # bs" c] by simp
  then have "hex_nat (be_nat (b # bs @ [c]))
      = hex_nat (be_nat (b # bs)) @ [hex_digit (unat c div 16), hex_digit (unat c mod 16)]"
    using hex_nat_byte [OF be_nat_pos [OF assms] unat_u8_less] by (simp only:)
  moreover have "concat (map hex_byte (b # bs @ [c]))
      = concat (map hex_byte (b # bs)) @ [hex_digit (unat c div 16), hex_digit (unat c mod 16)]"
    by (simp add: hex_byte_def)
  ultimately show ?case by (simp only: snoc) simp
qed

lemma hex_nat_nonempty: "hex_nat n \<noteq> []"
  by (subst hex_nat.simps) simp

lemma length_hex_bytes: "length (concat (map hex_byte bs)) = 2 * length bs"
  by (induction bs) (simp_all add: hex_byte_def)

lemma serial_hex_eq:
  "serial_hex bs =
     (if be_nat bs = 0 then ''0''
      else if odd (length (hex_nat (be_nat bs))) then CHR ''0'' # hex_nat (be_nat bs)
      else hex_nat (be_nat bs))"
proof (cases "dropWhile (\<lambda>b. b = 0) bs")
  case Nil
  then have "be_nat bs = 0" by (metis be_nat_Nil be_nat_dropWhile)
  then show ?thesis
    unfolding serial_hex_def serial_loop_True Nil by simp
next
  case (Cons b cs)
  then have b: "b \<noteq> 0"
    using hd_dropWhile [of "\<lambda>b. b = 0" bs] by (simp add: Cons)
  have n: "be_nat bs = be_nat (b # cs)"
    using be_nat_dropWhile [of bs] unfolding Cons by (rule sym)
  have hex: "serial_loop True bs = concat (map hex_byte (b # cs))"
    by (simp only: serial_loop_True Cons)
  have "length (concat (map hex_byte (b # cs))) = 2 * length (b # cs)"
    by (rule length_hex_bytes)
  then have len: "length (if unat b < 16 then CHR ''0'' # hex_nat (be_nat (b # cs))
      else hex_nat (be_nat (b # cs))) = 2 * length (b # cs)"
    by (simp only: hex_bytes [OF b])
  have "odd (length (hex_nat (be_nat (b # cs)))) \<longleftrightarrow> unat b < 16"
  proof (cases "unat b < 16")
    case True
    with len have "Suc (length (hex_nat (be_nat (b # cs)))) = 2 * length (b # cs)" by simp
    then have "even (Suc (length (hex_nat (be_nat (b # cs)))))" by (metis dvd_triv_left)
    with True show ?thesis by simp
  next
    case False
    with len have "length (hex_nat (be_nat (b # cs))) = 2 * length (b # cs)" by simp
    with False show ?thesis by simp
  qed
  then show ?thesis
    using be_nat_pos [OF b, of cs]
    unfolding serial_hex_def hex n hex_bytes [OF b] Let_def by (simp add: hex_nat_nonempty)
qed

section \<open>What is accepted\<close>

text \<open>The serial number of every certificate of the chain is absent from the list.\<close>

definition not_revoked :: "crates \<Rightarrow> status_list \<Rightarrow> bytes list \<Rightarrow> bool" where
  "not_revoked X l chain \<longleftrightarrow>
     list_all (\<lambda>d. case parse_cert X d of
                    None \<Rightarrow> False
                  | Some c \<Rightarrow> lookup_serial l (serial_hex (serial_number (tbs c))) = None) chain"

text \<open>The acceptance matrix for the boot state.\<close>

fun boot_ok :: "policy \<Rightarrow> root_of_trust_block option \<Rightarrow> bool" where
  "boot_ok p None \<longleftrightarrow> \<not> require_verified_boot p"
| "boot_ok p (Some rot) \<longleftrightarrow>
     (device_locked rot \<or> \<not> require_device_locked p)
     \<and> (boot_state rot = Verified
        \<or> \<not> require_verified_boot p
          \<and> (allowed_self_signed_keys p = []
             \<or> boot_state rot = SelfSigned
               \<and> verified_boot_key rot \<in> set (allowed_self_signed_keys p)))"

definition levels_ok :: "policy \<Rightarrow> key_description \<Rightarrow> bool" where
  "levels_ok p kd \<longleftrightarrow> min_security_level p \<le> attestation_security_level kd
     \<and> min_security_level p \<le> keymint_security_level kd"

lemma check_status_Ok_iff [result_simps]:
  "check_status X d l = Ok u \<longleftrightarrow>
     (case parse_cert X d of
        None \<Rightarrow> False
      | Some c \<Rightarrow> lookup_serial l (serial_hex (serial_number (tbs c))) = None)"
  by (auto simp: check_status_def parse_cert_def Let_def map_err_Ok_iff and_then_Ok_iff
      split: sum.split option.splits)

lemma check_status_not_Panic [simp]: "check_status X d l \<noteq> Panic"
  by (auto simp: check_status_def Let_def result_simps split: option.splits)

lemma check_levels_Ok_iff [result_simps]: "check_levels p kd = Ok u \<longleftrightarrow> levels_ok p kd"
  by (auto simp: check_levels_def levels_ok_def meets_iff)

lemma check_levels_not_Panic [simp]: "check_levels p kd \<noteq> Panic"
  by (simp add: check_levels_def)

lemma check_boot_Ok_iff [result_simps]: "check_boot p rot = Ok u \<longleftrightarrow> boot_ok p rot"
  by (cases rot) (auto simp: check_boot_def list_ex_iff split: if_splits)

lemma check_boot_not_Panic [simp]: "check_boot p rot \<noteq> Panic"
  by (simp add: check_boot_def split: option.split)

lemma extract_attestation_extension_Ok_iff [result_simps]:
  "extract_attestation_extension leaf = Ok v \<longleftrightarrow>
     (\<exists>ext. find_extension OID_ANDROID_KEY_ATTESTATION leaf = Some ext \<and> v = extn_value ext)"
  by (auto simp: extract_attestation_extension_def find_extension_def result_simps bind_eq_Some_conv)

lemma extract_attestation_extension_not_Panic [simp]: "extract_attestation_extension leaf \<noteq> Panic"
  by (auto simp: extract_attestation_extension_def result_simps)

lemma status_check_Ok_iff:
  "(case st of Some l \<Rightarrow> for_each (\<lambda>d. check_status X d l) chain | None \<Rightarrow> Ok ()) = Ok u \<longleftrightarrow>
     (case st of Some l \<Rightarrow> not_revoked X l chain | None \<Rightarrow> True)"
  by (auto simp: not_revoked_def list_all_iff result_simps split: option.split)

lemma status_check_not_Panic:
  "(case st of Some l \<Rightarrow> for_each (\<lambda>d. check_status X d l) chain | None \<Rightarrow> Ok ()) \<noteq> Panic"
  by (auto split: option.split dest!: for_each_Panic)

lemma verify_attestation_Ok_iff:
  "verify_attestation X pinned chain chal p t = Ok out \<longleftrightarrow>
     (\<exists>leaf ext kd spki.
        android_validate_chain X pinned chain t = Ok leaf
        \<and> (case policy_status_list p of Some l \<Rightarrow> not_revoked X l chain | None \<Rightarrow> True)
        \<and> find_extension OID_ANDROID_KEY_ATTESTATION leaf = Some ext
        \<and> key_description_from_der X (extn_value ext) = Ok kd
        \<and> attestation_challenge kd = chal
        \<and> levels_ok p kd \<and> boot_ok p (root_of_trust (hardware_enforced kd))
        \<and> spki_to_der X (public_key_info (tbs leaf)) = Inr spki
        \<and> out = \<lparr>source = ANDROID_KEY_ATTEST, attested_value = spki, challenge = chal,
                 timestamp_ms = t, detail_hash = sha256 X (canonical_chain_hash_input chain)\<rparr>)"
  by (auto simp: verify_attestation_def status_check_Ok_iff result_simps)

lemma verify_attestation_not_Panic:
  "crate_times_ok X \<Longrightarrow> verify_attestation X pinned chain chal p t \<noteq> Panic"
  by (auto simp: verify_attestation_def result_simps status_check_not_Panic android_validate_not_Panic)

section \<open>A sample chain\<close>

lemma sample_walk:
  "authorization_loop sample_crates [0x82, 1, 0] 0 authorization_list_default
     = Ok authorization_list_default"
  "authorization_loop sample_crates [] 0 authorization_list_default = Ok authorization_list_default"
proof -
  have "parse_tlv_header [0x82, 1, 0] 0 = Ok (2, False, 2, 2, 1)"
    by (simp add: parse_tlv_header_def index_def)
  then show "authorization_loop sample_crates [0x82, 1, 0] 0 authorization_list_default
     = Ok authorization_list_default"
    by (subst authorization_loop.simps)
       (simp add: slice_def decode_element_def decode_field_def sample_crates_def der_def
         authorization_loop.simps)
  show "authorization_loop sample_crates [] 0 authorization_list_default
     = Ok authorization_list_default"
    by (simp add: authorization_loop.simps)
qed

definition sample_extension :: bytes where
  "sample_extension =
     [0x30, 24, 2, 1, 3, 10, 1, 1, 2, 1, 4, 10, 1, 1, 4, 1, 9, 4, 0, 0x30, 0, 0x30, 3, 0x82, 1, 0]"

definition sample_kd :: key_description where
  "sample_kd = \<lparr>attestation_version = 3, attestation_security_level = TrustedEnvironment,
     keymint_version = 4, keymint_security_level = TrustedEnvironment,
     attestation_challenge = [9], unique_id = [],
     software_enforced = authorization_list_default,
     hardware_enforced = authorization_list_default\<rparr>"

lemma sample_key_description: "key_description_from_der sample_crates sample_extension = Ok sample_kd"
proof -
  note defs = named_def unnamed_def der_def decode_i32_def decode_enumerated_def right_align_def
    is_negative_def from_be_bytes_def be_nat_def replicate_numeral sample_slice_def sample_tagged_def
    security_level_of_def security_level_from_i32.simps decode_authorization_list_def
  have sel:
    "slice_reader_new sample_crates = Inr"
    "der_peek_header sample_crates bs = (case sample_header bs of Inl e \<Rightarrow> Inl e | Inr (h, _) \<Rightarrow> Inr h)"
    "der_decode_header sample_crates = sample_header"
    "der_read_slice sample_crates = sample_slice"
    "der_decode_int sample_crates = sample_tagged TInteger"
    "der_decode_octet_string sample_crates = sample_tagged TOctetString" for bs
    by (simp_all add: sample_crates_def)
  show ?thesis
    by (simp add: key_description_from_der_def sample_extension_def sel defs sample_walk sample_kd_def)
qed

lemma sample_find:
  "find_extension OID_ANDROID_KEY_ATTESTATION sample_android_leaf
     = Some \<lparr>extn_id = OID_ANDROID_KEY_ATTESTATION, extn_value = sample_extension\<rparr>"
  by (simp add: find_extension_def sample_cert_defs OID_ANDROID_KEY_ATTESTATION_def
      sample_extension_def)

definition sample_policy :: policy where
  "sample_policy = policy_default\<lparr>require_verified_boot := False,
     allowed_self_signed_keys := [[1, 2, 3]]\<rparr>"

definition sample_android_outcome :: outcome where
  "sample_android_outcome = \<lparr>source = ANDROID_KEY_ATTEST, attested_value = [0x30, 54],
     challenge = [9], timestamp_ms = 5000,
     detail_hash = sample_hash (canonical_chain_hash_input [[24], [21]])\<rparr>"

lemma sample_attestation_under:
  assumes "min_security_level p \<le> TrustedEnvironment" "\<not> require_verified_boot p"
    and "policy_status_list p = None"
  shows "verify_attestation sample_crates [[20]] [[24], [21]] [9] p 5000 = Ok sample_android_outcome"
proof -
  have "levels_ok p sample_kd" "boot_ok p (root_of_trust (hardware_enforced sample_kd))"
    using assms by (simp_all add: levels_ok_def sample_kd_def authorization_list_default_def)
  moreover have "spki_to_der sample_crates (public_key_info (tbs sample_android_leaf)) = Inr [0x30, 54]"
    by (simp add: sample_crates_def sample_cert_defs)
  moreover have "attestation_challenge sample_kd = [9]" "sha256 sample_crates = sample_hash"
    by (simp_all add: sample_kd_def sample_crates_def)
  ultimately show ?thesis
    using sample_android_chain sample_find sample_key_description assms(3)
    by (simp add: verify_attestation_Ok_iff sample_android_outcome_def)
qed

lemma sample_attestation:
  "verify_attestation sample_crates [[20]] [[24], [21]] [9] sample_policy 5000 = Ok sample_android_outcome"
  by (rule sample_attestation_under) (simp_all add: sample_policy_def policy_default_def)

section \<open>Properties\<close>

text \<open>
  The numeral under which the code looks a serial number up: hexadecimal without leading zeros,
  with one zero in front when the number of digits is odd.
\<close>

definition even_numeral :: "nat \<Rightarrow> string" where
  "even_numeral n = (if n = 0 then ''0'' else if odd (length (hex_nat n)) then CHR ''0'' # hex_nat n else hex_nat n)"

lemma serial_hex_numeral: "serial_hex bs = even_numeral (be_nat bs)"
  by (simp add: serial_hex_eq even_numeral_def)

lemma not_revoked_numeral:
  "not_revoked X l chain \<longleftrightarrow>
     (\<forall>d. d \<in> set chain \<longrightarrow> (\<exists>c. parse_cert X d = Some c
        \<and> lookup_serial l (even_numeral (be_nat (serial_number (tbs c)))) = None))"
proof -
  have "(case parse_cert X d of None \<Rightarrow> False | Some c \<Rightarrow> P c) \<longleftrightarrow> (\<exists>c. parse_cert X d = Some c \<and> P c)" for d P
    by (cases "parse_cert X d") (simp_all del: parse_cert_Some_iff)
  then show ?thesis
    unfolding not_revoked_def list_all_iff serial_hex_numeral Ball_def by (simp only:)
qed

text \<open>
  C1. The acceptance condition of \<open>verify_attestation\<close>. It returns an outcome exactly when the chain
  validates; every certificate of the chain parses and the revocation list, if one is given, has
  no entry under the serial number's hexadecimal numeral padded to an even number of digits (an
  entry under the unpadded numeral is not looked at, see \<open>odd_serial_never_revoked\<close>); the leaf has
  an attestation extension that decodes; its challenge is the given one; both security levels
  reach the minimum; and the boot state passes. If the hardware-enforced list has a root of
  trust, it must be locked if the policy requires that, and Verified, or, when
  \<open>require_verified_boot\<close> is off, in any state if no boot keys are listed and otherwise
  SelfSigned with a listed key. If it has none, \<open>require_verified_boot\<close> must be off, and neither
  the lock nor the listed keys are asked for. The outcome carries the leaf's public key.
\<close>

theorem verify_attestation_accepts:
  "verify_attestation X pinned chain chal p t = Ok out \<longleftrightarrow>
     (\<exists>leaf ext kd spki.
        android_validate_chain X pinned chain t = Ok leaf
        \<and> (\<forall>l d. policy_status_list p = Some l \<and> d \<in> set chain \<longrightarrow>
              (\<exists>c. parse_cert X d = Some c
                 \<and> lookup_serial l (even_numeral (be_nat (serial_number (tbs c)))) = None))
        \<and> find_extension OID_ANDROID_KEY_ATTESTATION leaf = Some ext
        \<and> key_description_from_der X (extn_value ext) = Ok kd
        \<and> attestation_challenge kd = chal
        \<and> min_security_level p \<le> attestation_security_level kd
        \<and> min_security_level p \<le> keymint_security_level kd
        \<and> (case root_of_trust (hardware_enforced kd) of
             None \<Rightarrow> \<not> require_verified_boot p
           | Some rot \<Rightarrow>
               (device_locked rot \<or> \<not> require_device_locked p)
               \<and> (boot_state rot = Verified
                  \<or> \<not> require_verified_boot p
                    \<and> (allowed_self_signed_keys p = []
                       \<or> boot_state rot = SelfSigned
                         \<and> verified_boot_key rot \<in> set (allowed_self_signed_keys p))))
        \<and> spki_to_der X (public_key_info (tbs leaf)) = Inr spki
        \<and> out = \<lparr>source = ANDROID_KEY_ATTEST, attested_value = spki, challenge = chal,
                 timestamp_ms = t, detail_hash = sha256 X (canonical_chain_hash_input chain)\<rparr>)"
proof -
  have "boot_ok p rot \<longleftrightarrow>
      (case rot of
         None \<Rightarrow> \<not> require_verified_boot p
       | Some rot \<Rightarrow>
           (device_locked rot \<or> \<not> require_device_locked p)
           \<and> (boot_state rot = Verified
              \<or> \<not> require_verified_boot p
                \<and> (allowed_self_signed_keys p = []
                   \<or> boot_state rot = SelfSigned
                     \<and> verified_boot_key rot \<in> set (allowed_self_signed_keys p))))" for rot
    by (cases rot) simp_all
  moreover have "(case st of Some l \<Rightarrow> not_revoked X l chain | None \<Rightarrow> True) \<longleftrightarrow>
      (\<forall>l d. st = Some l \<and> d \<in> set chain \<longrightarrow>
        (\<exists>c. parse_cert X d = Some c
           \<and> lookup_serial l (even_numeral (be_nat (serial_number (tbs c)))) = None))" for st
    by (cases st) (simp_all add: not_revoked_numeral del: parse_cert_Some_iff)
  ultimately show ?thesis
    unfolding verify_attestation_Ok_iff levels_ok_def by (simp only: conj_assoc)
qed

theorem verify_attestation_accepts_witness:
  "\<exists>leaf ext kd. android_validate_chain sample_crates [[20]] [[24], [21]] 5000 = Ok leaf
     \<and> find_extension OID_ANDROID_KEY_ATTESTATION leaf = Some ext
     \<and> key_description_from_der sample_crates (extn_value ext) = Ok kd
     \<and> attestation_challenge kd = [9] \<and> min_security_level sample_policy \<le> keymint_security_level kd"
  using verify_attestation_accepts [THEN iffD1, OF sample_attestation] by blast

text \<open>
  C35. The lock requirement is not enforced on a device that reports nothing. If the
  hardware-enforced list of the extension has no root of trust, the verifier returns the same
  result, acceptance and every error included, whatever the policy says about the lock and about
  the boot keys it allows. So with \<open>require_verified_boot\<close> off, a policy that demands a locked device
  with a listed boot key accepts a device that reports neither.
\<close>

theorem lock_requirement_skipped:
  assumes "android_validate_chain X pinned chain t = Ok leaf"
    and "find_extension OID_ANDROID_KEY_ATTESTATION leaf = Some ext"
    and "key_description_from_der X (extn_value ext) = Ok kd"
    and "root_of_trust (hardware_enforced kd) = None"
  shows "verify_attestation X pinned chain chal (p\<lparr>require_device_locked := locked, allowed_self_signed_keys := ks\<rparr>) t
    = verify_attestation X pinned chain chal p t"
proof -
  have ext: "extract_attestation_extension leaf = Ok (extn_value ext)"
    using assms(2) by (simp add: result_simps)
  have "check_levels (p\<lparr>require_device_locked := locked, allowed_self_signed_keys := ks\<rparr>) kd = check_levels p kd"
    by (simp add: check_levels_def)
  moreover have "check_boot (p\<lparr>require_device_locked := locked, allowed_self_signed_keys := ks\<rparr>) None = check_boot p None"
    by (simp add: check_boot_def)
  ultimately show ?thesis
    by (simp add: verify_attestation_def assms(1,3,4) ext)
qed

theorem lock_requirement_skipped_witness:
  "verify_attestation sample_crates [[20]] [[24], [21]] [9]
     (sample_policy\<lparr>require_device_locked := True, allowed_self_signed_keys := [[7, 7]]\<rparr>) 5000
   = Ok sample_android_outcome"
proof -
  have "root_of_trust (hardware_enforced sample_kd) = None"
    by (simp add: sample_kd_def authorization_list_default_def)
  with sample_key_description
  have kd: "key_description_from_der sample_crates
      (extn_value \<lparr>extn_id = OID_ANDROID_KEY_ATTESTATION, extn_value = sample_extension\<rparr>) = Ok sample_kd" by simp
  show ?thesis
    unfolding lock_requirement_skipped [OF sample_android_chain sample_find kd \<open>root_of_trust _ = None\<close>]
    by (rule sample_attestation)
qed

text \<open>
  A certificate passes the revocation check exactly when it parses and the list has no
  entry under the printed form of its serial number. That form is the hexadecimal numeral of
  the number without leading zero octets, so it starts with a zero digit whenever the numeral
  has an odd number of digits: a list keyed by numerals without leading zeros never finds such
  a serial number.
\<close>

lemma revocation_check_key:
  "(check_status X d l = Ok () \<longleftrightarrow>
      (\<exists>c. parse_cert X d = Some c \<and> lookup_serial l (serial_hex (serial_number (tbs c))) = None))
   \<and> serial_hex serial =
       (if be_nat serial = 0 then ''0''
        else if odd (length (hex_nat (be_nat serial))) then CHR ''0'' # hex_nat (be_nat serial)
        else hex_nat (be_nat serial))"
proof (intro conjI)
  show "check_status X d l = Ok () \<longleftrightarrow>
      (\<exists>c. parse_cert X d = Some c \<and> lookup_serial l (serial_hex (serial_number (tbs c))) = None)"
    unfolding check_status_Ok_iff by (cases "parse_cert X d") (simp_all del: parse_cert_Some_iff)
qed (rule serial_hex_eq)

text \<open>
  C34. A revoked certificate is let through: if the hexadecimal numeral of its serial number
  has an odd number of digits, then a revocation list keyed by numerals without leading zeros
  never stops it, even when it has an entry under exactly that numeral.
\<close>

theorem odd_serial_never_revoked:
  assumes "parse_cert X d = Some c"
    and "odd (length (hex_nat (be_nat (serial_number (tbs c)))))"
    and "list_all (\<lambda>(k, e). k \<noteq> [] \<and> hd k \<noteq> CHR ''0'') (entries l)"
  shows "check_status X d l = Ok ()"
proof -
  have absent: "lookup_serial l (CHR ''0'' # ds) = None" for ds
  proof (rule ccontr)
    assume "lookup_serial l (CHR ''0'' # ds) \<noteq> None"
    then obtain e where "(CHR ''0'' # ds, e) \<in> set (entries l)"
      by (auto simp: lookup_serial_def dest: map_of_SomeD)
    with assms(3) show False by (fastforce simp: list_all_iff)
  qed
  then show ?thesis
    using assms(1,2) by (simp add: check_status_Ok_iff serial_hex_eq del: parse_cert_Some_iff)
qed

definition sample_revocations :: status_list where
  "sample_revocations = \<lparr>entries = [(''a'', \<lparr>entry_status = ''REVOKED'', entry_reason = ''KEY_COMPROMISE''\<rparr>)]\<rparr>"

theorem odd_serial_never_revoked_witness:
  "check_status sample_crates [10] sample_revocations = Ok ()
   \<and> parse_cert sample_crates [10] = Some sample_odd_serial
   \<and> lookup_serial sample_revocations (hex_nat (be_nat (serial_number (tbs sample_odd_serial))))
       = Some \<lparr>entry_status = ''REVOKED'', entry_reason = ''KEY_COMPROMISE''\<rparr>"
proof -
  have digit: "hex_digit 10 = CHR ''a''" by code_simp
  have n: "be_nat (serial_number (tbs sample_odd_serial)) = 10"
    by (simp add: sample_odd_serial_def sample_cert_def be_nat_def)
  have hex: "hex_nat 10 = ''a''" by (subst hex_nat.simps) (simp add: digit)
  have cert: "parse_cert sample_crates [10] = Some sample_odd_serial"
    by (simp add: sample_crates_def)
  have "check_status sample_crates [10] sample_revocations = Ok ()"
    by (rule odd_serial_never_revoked [OF cert]) (simp_all add: n hex sample_revocations_def)
  with cert n hex show ?thesis by (simp add: lookup_serial_def sample_revocations_def)
qed

text \<open>
  C24. The detail hash binds the chain: two accepted attestations with the same detail hash
  come from the same list of certificates, unless their length-prefixed encodings are a SHA-256
  collision (certificates shorter than four gibibytes).
\<close>

theorem detail_hash_binds_chain:
  assumes "verify_attestation X r1 chain1 c1 p1 t1 = Ok o1"
    and "verify_attestation X r2 chain2 c2 p2 t2 = Ok o2"
    and "list_all chunk_ok (chain1 @ chain2)" and "detail_hash o1 = detail_hash o2"
  shows "chain1 = chain2
    \<or> (canonical_chain_hash_input chain1 \<noteq> canonical_chain_hash_input chain2
       \<and> sha256 X (canonical_chain_hash_input chain1) = sha256 X (canonical_chain_hash_input chain2))"
proof -
  have "sha256 X (canonical_chain_hash_input chain1) = sha256 X (canonical_chain_hash_input chain2)"
    using assms(1,2,4) by (auto simp: verify_attestation_Ok_iff)
  moreover have "canonical_chain_hash_input chain1 = canonical_chain_hash_input chain2 \<Longrightarrow> chain1 = chain2"
    unfolding canonical_chain_hash_input_def using assms(3)
    by (intro chain_chunks.concat_inject) (auto simp: list_all_iff)
  ultimately show ?thesis by blast
qed

theorem detail_hash_binds_chain_witness:
  "detail_hash sample_android_outcome = sample_hash (canonical_chain_hash_input [[24], [21]])
   \<and> list_all chunk_ok [[24], [21]]"
  using detail_hash_binds_chain [OF sample_attestation sample_attestation]
  by (simp add: sample_android_outcome_def chunk_ok_def)

text \<open>
  A policy that asks for less: no higher level, no further requirement, and no shorter list of
  allowed keys, where the empty list stands for every key.
\<close>

definition weaker :: "policy \<Rightarrow> policy \<Rightarrow> bool" where
  "weaker q p \<longleftrightarrow>
     min_security_level q \<le> min_security_level p
     \<and> (require_device_locked p \<or> \<not> require_device_locked q)
     \<and> (require_verified_boot p \<or> \<not> require_verified_boot q)
     \<and> (require_verified_boot p \<or> allowed_self_signed_keys q = []
        \<or> allowed_self_signed_keys p \<noteq> []
          \<and> set (allowed_self_signed_keys p) \<subseteq> set (allowed_self_signed_keys q))
     \<and> (policy_status_list q = None \<or> policy_status_list q = policy_status_list p)"

lemma boot_ok_weaker: "boot_ok p rot \<Longrightarrow> weaker q p \<Longrightarrow> boot_ok q rot"
  by (cases rot) (auto simp: weaker_def)

text \<open>
  C26. Policies are monotone: what is accepted under a policy is accepted, with the same outcome,
  under every policy that asks for less. An empty list of allowed keys asks for nothing, so
  putting a first key on the list makes a policy stricter.
\<close>

theorem weaker_policy_accepts:
  assumes "weaker q p" and "verify_attestation X pinned chain chal p t = Ok out"
  shows "verify_attestation X pinned chain chal q t = Ok out"
proof -
  have "levels_ok q kd" if "levels_ok p kd" for kd
    using that assms(1) by (auto simp: levels_ok_def weaker_def)
  moreover have "(case policy_status_list q of Some l \<Rightarrow> not_revoked X l chain | None \<Rightarrow> True)"
    if "case policy_status_list p of Some l \<Rightarrow> not_revoked X l chain | None \<Rightarrow> True"
    using that assms(1) by (auto simp: weaker_def split: option.splits)
  ultimately show ?thesis
    using assms(2) boot_ok_weaker [OF _ assms(1)] unfolding verify_attestation_Ok_iff by blast
qed

theorem weaker_policy_accepts_witness:
  "verify_attestation sample_crates [[20]] [[24], [21]] [9]
     (sample_policy\<lparr>min_security_level := Software, require_device_locked := False,
        allowed_self_signed_keys := [[1, 2, 3], [4]]\<rparr>) 5000
   = Ok sample_android_outcome"
proof (rule weaker_policy_accepts [OF _ sample_attestation])
  show "weaker (sample_policy\<lparr>min_security_level := Software, require_device_locked := False,
      allowed_self_signed_keys := [[1, 2, 3], [4]]\<rparr>) sample_policy"
    by (simp add: weaker_def sample_policy_def policy_default_def less_eq_security_level_def)
qed

end
