(* ===== verification/Bcs.thy ===== *)
theory Bcs
  imports Framing
begin

text \<open>
  The part of the BCS format that the payloads use, as its specification documents it: a
  struct is the concatenation of its fields, and a byte vector is its length in ULEB128
  followed by its bytes. Both the \<open>bcs\<close> crate and the Move library implement this format;
  they are outside the repository, and this definition is what the hypotheses about them
  refer to.
\<close>

fun uleb128 :: "nat \<Rightarrow> bytes" where
  "uleb128 n = (if n < 128 then [word_of_nat n] else word_of_nat (n mod 128 + 128) # uleb128 (n div 128))"

declare uleb128.simps [simp del]

fun read_uleb128 :: "bytes \<Rightarrow> (nat \<times> bytes) option" where
  "read_uleb128 [] = None"
| "read_uleb128 (b # bs) =
     (if unat b < 128 then Some (unat b, bs)
      else (case read_uleb128 bs of
              None \<Rightarrow> None
            | Some (n, rest) \<Rightarrow> Some (unat b - 128 + 128 * n, rest)))"

definition bcs_vec :: "bytes \<Rightarrow> bytes" where
  "bcs_vec c = uleb128 (length c) @ c"

definition read_bcs_vec :: "bytes \<Rightarrow> (bytes \<times> bytes) option" where
  "read_bcs_vec bs =
     (case read_uleb128 bs of
        None \<Rightarrow> None
      | Some (n, rest) \<Rightarrow> if n \<le> length rest then Some (take n rest, drop n rest) else None)"

definition bcs_struct :: "bytes list \<Rightarrow> bytes" where
  "bcs_struct parts = concat (map bcs_vec parts)"

lemma read_uleb128_uleb128: "read_uleb128 (uleb128 n @ rest) = Some (n, rest)"
proof (induction n rule: uleb128.induct)
  case (1 n)
  show ?case
  proof (cases "n < 128")
    case True
    then have "unat (word_of_nat n :: u8) = n" by (simp only: unat_word_of_nat_u8) simp
    with True show ?thesis by (simp add: uleb128.simps [of n])
  next
    case False
    have "n mod 128 + 128 < 256" by simp
    then have "unat (word_of_nat (n mod 128 + 128) :: u8) = n mod 128 + 128"
      by (simp only: unat_word_of_nat_u8 mod_less)
    with False 1 show ?thesis
      by (simp add: uleb128.simps [of n] del: of_nat_add)
  qed
qed

lemma uleb128_nonempty: "uleb128 n \<noteq> []"
  by (simp add: uleb128.simps)

interpretation bcs_fields: decodable bcs_vec read_bcs_vec "\<lambda>c. True"
proof unfold_locales
  show "read_bcs_vec (bcs_vec c @ rest) = Some (c, rest)" for c rest
    by (simp add: read_bcs_vec_def bcs_vec_def read_uleb128_uleb128)
  show "bcs_vec c \<noteq> []" for c
    by (simp add: bcs_vec_def uleb128_nonempty)
qed

text \<open>A struct of byte vectors is determined by its encoding.\<close>

lemma bcs_struct_inject: "bcs_struct xs = bcs_struct ys \<Longrightarrow> xs = ys"
  unfolding bcs_struct_def by (rule bcs_fields.concat_inject) simp_all

end
