(* ===== verification/Enclave_Server.thy ===== *)
theory Enclave_Server
  imports Apple_Verify Android_Verify Bcs
begin

text \<open>
  The request handlers of the enclave (\<open>rust/enclave-server/src/main.rs\<close>). A handler is a
  function of the environment, the server's state and the deserialized request; its value is
  the response body or an error. The environment holds what lies outside the repository: the
  crates of the verifiers and the pinned roots, \<open>hex\<close>, \<open>bcs\<close>, the wall clock, and the Nitro
  security module with what it answers to this request. The structs that are serialized with
  BCS have byte vectors as their only fields, so \<open>bcs_to_bytes\<close> takes the list of the fields.
\<close>

section \<open>Environment, state and errors\<close>

datatype nsm_response = NsmAttestation bytes | NsmOther string

record environment =
  env_crates :: crates
  apple_root_der :: bytes
  google_roots_der :: "bytes list"
  hex_decode :: "string \<Rightarrow> string + bytes"
  hex_encode :: "bytes \<Rightarrow> string"
  bcs_to_bytes :: "bytes list \<Rightarrow> string + bytes"
  unicode_lower :: "string \<Rightarrow> string"
  package_version :: string
  clock_since_epoch :: "nat option"
  nsm_init :: int
  nsm_process_request :: "int \<Rightarrow> bytes \<Rightarrow> bytes \<Rightarrow> nsm_response"

record app_state =
  signing_key :: bytes
  verifying_key :: bytes

datatype attest_error =
    InvalidHex string string
  | VerifyFailed apple_error
  | AndroidVerifyFailed android_error
  | Bcs string
  | NsmInit
  | Nsm string

fun attest_error_display :: "attest_error \<Rightarrow> string" where
  "attest_error_display (InvalidHex field e) = ''invalid hex in field `'' @ field @ ''`: '' @ e"
| "attest_error_display (VerifyFailed e) = ''attest-apple verify failed: '' @ apple_error_display e"
| "attest_error_display (AndroidVerifyFailed e) =
     ''attest-android verify failed: '' @ android_error_display e"
| "attest_error_display (Bcs e) = ''bcs encode failed: '' @ e"
| "attest_error_display NsmInit = ''NSM init failed (not running inside a Nitro enclave?)''"
| "attest_error_display (Nsm e) = ''NSM request failed: '' @ e"

text \<open>\<open>IntoResponse\<close>: the status code and the text of the \<open>error\<close> member.\<close>

definition into_response :: "attest_error \<Rightarrow> nat \<times> string" where
  "into_response e = (400, attest_error_display e)"

section \<open>Clock and security module\<close>

text \<open>\<open>duration_since(UNIX_EPOCH).map(|d| d.as_millis() as u64).unwrap_or(0)\<close>\<close>

definition stamp_ms :: "environment \<Rightarrow> u64" where
  "stamp_ms E = (case clock_since_epoch E of Some ms \<Rightarrow> word_of_nat ms | None \<Rightarrow> 0)"

definition request_nsm_attestation ::
    "environment \<Rightarrow> bytes \<Rightarrow> bytes \<Rightarrow> (bytes, attest_error) result" where
  "request_nsm_attestation E public_key user_data =
     (let fd = nsm_init E in
      if fd < 0 then Err NsmInit else
      (case nsm_process_request E fd public_key user_data of
         NsmAttestation document \<Rightarrow> Ok document
       | NsmOther other \<Rightarrow> Err (Nsm (''unexpected NSM response: '' @ other))))"

text \<open>Where the target is not Linux, there is no module to ask.\<close>

definition request_nsm_attestation_elsewhere :: "bytes \<Rightarrow> bytes \<Rightarrow> (bytes, attest_error) result" where
  "request_nsm_attestation_elsewhere public_key user_data = Err NsmInit"

lemma elsewhere_like_no_device:
  "nsm_init E < 0 \<Longrightarrow> request_nsm_attestation E pk ud = request_nsm_attestation_elsewhere pk ud"
  by (simp add: request_nsm_attestation_def request_nsm_attestation_elsewhere_def)

definition decode_hex ::
    "environment \<Rightarrow> string \<Rightarrow> string \<Rightarrow> (bytes, attest_error) result" where
  "decode_hex E field s = map_err (InvalidHex field) (hex_decode E s)"

text \<open>The hash that binds a payload: \<open>Sha256::digest(bcs::to_bytes(&payload)?)\<close>.\<close>

definition payload_hash :: "environment \<Rightarrow> bytes list \<Rightarrow> (bytes, attest_error) result" where
  "payload_hash E parts =
     and_then (map_err Bcs (bcs_to_bytes E parts)) (\<lambda>payload_bcs.
     Ok (sha256 (env_crates E) payload_bcs))"

section \<open>GET /health and GET /attestation\<close>

record health_body =
  health_public_key_hex :: string
  health_version :: string
  health_sources :: "string list"

definition health :: "environment \<Rightarrow> app_state \<Rightarrow> health_body" where
  "health E state = \<lparr>health_public_key_hex = hex_encode E (verifying_key state),
     health_version = package_version E,
     health_sources = [APPLE_APP_ATTEST, APPLE_APP_ATTEST_ASSERTION, ANDROID_KEY_ATTEST]\<rparr>"

record attestation_doc_body =
  document_hex :: string

text \<open>The error carries its status code.\<close>

definition attestation_doc ::
    "environment \<Rightarrow> app_state \<Rightarrow> (attestation_doc_body, nat \<times> string) result" where
  "attestation_doc E state =
     and_then (map_error (\<lambda>e. (case e of NsmInit \<Rightarrow> 501 | _ \<Rightarrow> 500, attest_error_display e))
                (request_nsm_attestation E (verifying_key state) [])) (\<lambda>doc.
     Ok \<lparr>document_hex = hex_encode E doc\<rparr>)"

section \<open>POST /attest/apple/attestation\<close>

record apple_request =
  attestation_object_hex :: string
  key_id_hex :: string
  apple_challenge_hex :: string
  apple_app_id :: string
  production :: bool

record attest_response =
  nsm_doc_hex :: string
  attested_value_hex :: string
  challenge_hex :: string
  detail_hash_hex :: string
  public_key_hex :: string

definition apple_payload :: "outcome \<Rightarrow> bytes list" where
  "apple_payload out = [attested_value out, challenge out, detail_hash out]"

definition attest_apple_attestation ::
    "environment \<Rightarrow> app_state \<Rightarrow> apple_request \<Rightarrow> (attest_response, attest_error) result" where
  "attest_apple_attestation E state req =
     and_then (decode_hex E ''attestation_object_hex'' (attestation_object_hex req)) (\<lambda>attestation_object.
     and_then (decode_hex E ''key_id_hex'' (key_id_hex req)) (\<lambda>key_id.
     and_then (decode_hex E ''challenge_hex'' (apple_challenge_hex req)) (\<lambda>chal.
     and_then (map_error VerifyFailed
       (verify_app_attest (env_crates E) (apple_root_der E) attestation_object key_id chal
         (apple_app_id req) (production req) (stamp_ms E))) (\<lambda>out.
     and_then (payload_hash E (apple_payload out)) (\<lambda>hash.
     and_then (request_nsm_attestation E (verifying_key state) hash) (\<lambda>nsm_doc.
     Ok \<lparr>nsm_doc_hex = hex_encode E nsm_doc,
         attested_value_hex = hex_encode E (attested_value out),
         challenge_hex = hex_encode E (challenge out),
         detail_hash_hex = hex_encode E (detail_hash out),
         public_key_hex = hex_encode E (verifying_key state)\<rparr>))))))"

section \<open>POST /attest/apple/assertion\<close>

record apple_assertion_request =
  assertion_object_hex :: string
  client_data_hex :: string
  attested_key_hex :: string
  assertion_app_id :: string

record assertion_response =
  assertion_nsm_doc_hex :: string
  response_attested_key_hex :: string
  response_client_data_hex :: string
  assertion_public_key_hex :: string

definition assertion_payload :: "outcome \<Rightarrow> bytes list" where
  "assertion_payload out = [attested_value out, challenge out]"

definition attest_apple_assertion :: "environment \<Rightarrow> app_state \<Rightarrow> apple_assertion_request
    \<Rightarrow> (assertion_response, attest_error) result" where
  "attest_apple_assertion E state req =
     and_then (decode_hex E ''assertion_object_hex'' (assertion_object_hex req)) (\<lambda>assertion_object.
     and_then (decode_hex E ''client_data_hex'' (client_data_hex req)) (\<lambda>client_data.
     and_then (decode_hex E ''attested_key_hex'' (attested_key_hex req)) (\<lambda>attested_key.
     and_then (map_error VerifyFailed
       (verify_assertion (env_crates E) assertion_object client_data attested_key
         (assertion_app_id req) (stamp_ms E))) (\<lambda>out.
     and_then (payload_hash E (assertion_payload out)) (\<lambda>hash.
     and_then (request_nsm_attestation E (verifying_key state) hash) (\<lambda>nsm_doc.
     Ok \<lparr>assertion_nsm_doc_hex = hex_encode E nsm_doc,
         response_attested_key_hex = hex_encode E (attested_value out),
         response_client_data_hex = hex_encode E (challenge out),
         assertion_public_key_hex = hex_encode E (verifying_key state)\<rparr>))))))"

section \<open>POST /attest/android/attestation\<close>

record android_request =
  chain_hex :: "string list"
  android_challenge_hex :: string
  request_min_security_level :: "string option"
  request_verified_boot :: bool
  request_device_locked :: bool
  allowed_self_signed_keys_hex :: "string list"
  status_list_json :: "string option"

definition default_true :: bool where
  "default_true = True"

text \<open>The request of a JSON object: every member but the first two has a default.\<close>

definition android_request_of_json :: "string list \<Rightarrow> string \<Rightarrow> string option \<Rightarrow> bool option
    \<Rightarrow> bool option \<Rightarrow> string list option \<Rightarrow> string option \<Rightarrow> android_request" where
  "android_request_of_json chain chal level boot locked keys status =
     \<lparr>chain_hex = chain, android_challenge_hex = chal, request_min_security_level = level,
      request_verified_boot = (case boot of Some b \<Rightarrow> b | None \<Rightarrow> default_true),
      request_device_locked = (case locked of Some b \<Rightarrow> b | None \<Rightarrow> default_true),
      allowed_self_signed_keys_hex = (case keys of Some ks \<Rightarrow> ks | None \<Rightarrow> []),
      status_list_json = status\<rparr>"

definition parse_security_level :: "string option \<Rightarrow> (security_level, attest_error) result" where
  "parse_security_level s =
     (let name = (case s of Some n \<Rightarrow> n | None \<Rightarrow> ''tee'') in
      if name = ''software'' then Ok Software
      else if name = ''tee'' \<or> name = ''trustedenvironment'' \<or> name = ''trusted_environment''
        then Ok TrustedEnvironment
      else if name = ''strongbox'' then Ok StrongBox
      else Err (Nsm (''unknown min_security_level '' @ quoted name
                     @ '' (want software|tee|strongbox)'')))"

definition decode_hex_list ::
    "environment \<Rightarrow> string \<Rightarrow> string list \<Rightarrow> (bytes list, attest_error) result" where
  "decode_hex_list E name hs =
     collect_results (\<lambda>(i, h). decode_hex E (name @ ''['' @ show_nat i @ '']'') h) (enumerate 0 hs)"

definition android_payload :: "outcome \<Rightarrow> bytes list" where
  "android_payload out = [attested_value out, challenge out, detail_hash out]"

text \<open>\<open>AndroidResponse\<close> has the fields of \<open>AttestResponse\<close>.\<close>

type_synonym android_response = attest_response

definition attest_android_attestation ::
    "environment \<Rightarrow> app_state \<Rightarrow> android_request \<Rightarrow> (android_response, attest_error) result" where
  "attest_android_attestation E state req =
     and_then (decode_hex_list E ''chain'' (chain_hex req)) (\<lambda>chain.
     and_then (decode_hex E ''challenge_hex'' (android_challenge_hex req)) (\<lambda>chal.
     and_then (parse_security_level (request_min_security_level req)) (\<lambda>min_level.
     and_then (decode_hex_list E ''allowed_self_signed_keys_hex'' (allowed_self_signed_keys_hex req))
       (\<lambda>allowed_keys.
     and_then (case status_list_json req of
                 Some json \<Rightarrow> map_error AndroidVerifyFailed
                   (and_then (status_list_from_json (unicode_lower E) json) (\<lambda>l. Ok (Some l)))
               | None \<Rightarrow> Ok None) (\<lambda>status_list.
     let p = \<lparr>min_security_level = min_level, require_verified_boot = request_verified_boot req,
              allowed_self_signed_keys = allowed_keys,
              require_device_locked = request_device_locked req,
              policy_status_list = status_list\<rparr> in
     and_then (map_error AndroidVerifyFailed
       (verify_attestation (env_crates E) (google_roots_der E) chain chal p (stamp_ms E))) (\<lambda>out.
     and_then (payload_hash E (android_payload out)) (\<lambda>hash.
     and_then (request_nsm_attestation E (verifying_key state) hash) (\<lambda>nsm_doc.
     Ok \<lparr>nsm_doc_hex = hex_encode E nsm_doc,
         attested_value_hex = hex_encode E (attested_value out),
         challenge_hex = hex_encode E (challenge out),
         detail_hash_hex = hex_encode E (detail_hash out),
         public_key_hex = hex_encode E (verifying_key state)\<rparr>))))))))"

section \<open>The route table\<close>

datatype handler = Health | AttestationDoc | AppleAttestation | AppleAssertion | AndroidAttestation

definition app_routes :: "(string \<times> (string \<times> handler)) list" where
  "app_routes =
     [(''/health'', (''GET'', Health)),
      (''/attestation'', (''GET'', AttestationDoc)),
      (''/attest/apple/attestation'', (''POST'', AppleAttestation)),
      (''/attest/apple'', (''POST'', AppleAttestation)),
      (''/attest/apple/assertion'', (''POST'', AppleAssertion)),
      (''/attest/android/attestation'', (''POST'', AndroidAttestation)),
      (''/attest/android'', (''POST'', AndroidAttestation))]"

section \<open>When a handler answers\<close>

lemma decode_hex_Ok_iff [result_simps]: "decode_hex E name h = Ok b \<longleftrightarrow> hex_decode E h = Inr b"
  by (simp add: decode_hex_def result_simps)

lemma decode_hex_not_Panic [simp]: "decode_hex E name h \<noteq> Panic"
  by (simp add: decode_hex_def)

lemma list_all2_enumerate:
  "list_all2 (\<lambda>(i, x) y. P x y) (enumerate n xs) ys \<longleftrightarrow> list_all2 P xs ys"
  by (induction xs arbitrary: n ys) (auto simp: list_all2_Cons1)

lemma decode_hex_list_Ok_iff [result_simps]:
  "decode_hex_list E name hs = Ok bs \<longleftrightarrow> list_all2 (\<lambda>h b. hex_decode E h = Inr b) hs bs"
proof -
  have "(\<lambda>x y. (case x of (i, h) \<Rightarrow> decode_hex E (name @ ''['' @ show_nat i @ '']'') h) = Ok y)
      = (\<lambda>(i, h) b. hex_decode E h = Inr b)"
    by (auto simp: fun_eq_iff decode_hex_Ok_iff)
  then show ?thesis
    by (simp add: decode_hex_list_def collect_results_Ok_iff list_all2_enumerate)
qed

lemma decode_hex_list_not_Panic [simp]: "decode_hex_list E name hs \<noteq> Panic"
  by (auto simp: decode_hex_list_def dest!: collect_results_Panic)

lemma request_nsm_Ok_iff [result_simps]:
  "request_nsm_attestation E pk ud = Ok d \<longleftrightarrow>
     0 \<le> nsm_init E \<and> nsm_process_request E (nsm_init E) pk ud = NsmAttestation d"
  by (auto simp: request_nsm_attestation_def Let_def split: nsm_response.splits)

lemma request_nsm_not_Panic [simp]: "request_nsm_attestation E pk ud \<noteq> Panic"
  by (simp add: request_nsm_attestation_def Let_def split: nsm_response.split)

lemma payload_hash_Ok_iff [result_simps]:
  "payload_hash E parts = Ok h \<longleftrightarrow> (\<exists>b. bcs_to_bytes E parts = Inr b \<and> h = sha256 (env_crates E) b)"
  by (auto simp: payload_hash_def result_simps)

lemma payload_hash_not_Panic [simp]: "payload_hash E parts \<noteq> Panic"
  by (simp add: payload_hash_def result_simps)

lemma parse_security_level_not_Panic [simp]: "parse_security_level s \<noteq> Panic"
  by (simp add: parse_security_level_def Let_def)

text \<open>A document of the security module over the hash of a payload, and the response around it.\<close>

definition document_for :: "environment \<Rightarrow> app_state \<Rightarrow> bytes list \<Rightarrow> bytes \<Rightarrow> bool" where
  "document_for E state parts d \<longleftrightarrow> 0 \<le> nsm_init E \<and>
     (\<exists>b. bcs_to_bytes E parts = Inr b \<and>
        nsm_process_request E (nsm_init E) (verifying_key state) (sha256 (env_crates E) b) = NsmAttestation d)"

definition response_for :: "environment \<Rightarrow> app_state \<Rightarrow> outcome \<Rightarrow> bytes \<Rightarrow> attest_response" where
  "response_for E state out d =
     \<lparr>nsm_doc_hex = hex_encode E d, attested_value_hex = hex_encode E (attested_value out),
      challenge_hex = hex_encode E (challenge out), detail_hash_hex = hex_encode E (detail_hash out),
      public_key_hex = hex_encode E (verifying_key state)\<rparr>"

definition assertion_response_for ::
    "environment \<Rightarrow> app_state \<Rightarrow> outcome \<Rightarrow> bytes \<Rightarrow> assertion_response" where
  "assertion_response_for E state out d =
     \<lparr>assertion_nsm_doc_hex = hex_encode E d,
      response_attested_key_hex = hex_encode E (attested_value out),
      response_client_data_hex = hex_encode E (challenge out),
      assertion_public_key_hex = hex_encode E (verifying_key state)\<rparr>"

lemma document_for_iff:
  "document_for E state parts d \<longleftrightarrow>
     (\<exists>h. payload_hash E parts = Ok h \<and> request_nsm_attestation E (verifying_key state) h = Ok d)"
  by (auto simp: document_for_def result_simps)

text \<open>The revocation list of a request: absent, or parsed.\<close>

definition request_status :: "environment \<Rightarrow> android_request \<Rightarrow> status_list option \<Rightarrow> bool" where
  "request_status E req l \<longleftrightarrow>
     (case status_list_json req of
        None \<Rightarrow> l = None
      | Some json \<Rightarrow> (\<exists>parsed. status_list_from_json (unicode_lower E) json = Ok parsed \<and> l = Some parsed))"

definition request_policy :: "environment \<Rightarrow> android_request \<Rightarrow> policy \<Rightarrow> bool" where
  "request_policy E req p \<longleftrightarrow>
     parse_security_level (request_min_security_level req) = Ok (min_security_level p)
     \<and> require_verified_boot p = request_verified_boot req
     \<and> require_device_locked p = request_device_locked req
     \<and> list_all2 (\<lambda>h b. hex_decode E h = Inr b) (allowed_self_signed_keys_hex req)
         (allowed_self_signed_keys p)
     \<and> request_status E req (policy_status_list p)"

lemma request_status_Ok_iff:
  "(case status_list_json req of
      Some json \<Rightarrow> map_error AndroidVerifyFailed
        (and_then (status_list_from_json (unicode_lower E) json) (\<lambda>l. Ok (Some l)))
    | None \<Rightarrow> Ok None) = Ok l \<longleftrightarrow> request_status E req l"
  by (auto simp: request_status_def result_simps split: option.splits)

lemma policy_eq_iff:
  "p = \<lparr>min_security_level = a, require_verified_boot = b, allowed_self_signed_keys = c,
        require_device_locked = d, policy_status_list = e\<rparr> \<longleftrightarrow>
     min_security_level p = a \<and> require_verified_boot p = b \<and> allowed_self_signed_keys p = c
     \<and> require_device_locked p = d \<and> policy_status_list p = e"
  by (cases p) auto

lemma android_handler_Ok_iff:
  "attest_android_attestation E state req = Ok resp \<longleftrightarrow>
     (\<exists>chain chal p out d.
        list_all2 (\<lambda>h b. hex_decode E h = Inr b) (chain_hex req) chain
        \<and> hex_decode E (android_challenge_hex req) = Inr chal
        \<and> request_policy E req p
        \<and> verify_attestation (env_crates E) (google_roots_der E) chain chal p (stamp_ms E) = Ok out
        \<and> document_for E state (android_payload out) d
        \<and> resp = response_for E state out d)" (is "?handler \<longleftrightarrow> ?accepted")
proof
  assume ?handler
  then obtain chain chal level keys l out h d where
    "decode_hex_list E ''chain'' (chain_hex req) = Ok chain"
    "decode_hex E ''challenge_hex'' (android_challenge_hex req) = Ok chal"
    "parse_security_level (request_min_security_level req) = Ok level"
    "decode_hex_list E ''allowed_self_signed_keys_hex'' (allowed_self_signed_keys_hex req) = Ok keys"
    "request_status E req l"
    "verify_attestation (env_crates E) (google_roots_der E) chain chal
       \<lparr>min_security_level = level, require_verified_boot = request_verified_boot req,
        allowed_self_signed_keys = keys, require_device_locked = request_device_locked req,
        policy_status_list = l\<rparr> (stamp_ms E) = Ok out"
    "payload_hash E (android_payload out) = Ok h"
    "request_nsm_attestation E (verifying_key state) h = Ok d"
    "resp = response_for E state out d"
    unfolding attest_android_attestation_def Let_def and_then_Ok_iff map_error_Ok_iff
      request_status_Ok_iff response_for_def by fastforce
  then show ?accepted
    unfolding document_for_iff request_policy_def decode_hex_list_Ok_iff decode_hex_Ok_iff
    by (metis (no_types, lifting) policy.select_convs)
next
  assume ?accepted
  then obtain chain chal p out d h where *:
    "decode_hex_list E ''chain'' (chain_hex req) = Ok chain"
    "decode_hex E ''challenge_hex'' (android_challenge_hex req) = Ok chal"
    "request_policy E req p"
    "verify_attestation (env_crates E) (google_roots_der E) chain chal p (stamp_ms E) = Ok out"
    "payload_hash E (android_payload out) = Ok h"
    "request_nsm_attestation E (verifying_key state) h = Ok d"
    "resp = response_for E state out d"
    unfolding document_for_iff decode_hex_list_Ok_iff decode_hex_Ok_iff by blast
  from *(3) have p: "parse_security_level (request_min_security_level req) = Ok (min_security_level p)"
    "decode_hex_list E ''allowed_self_signed_keys_hex'' (allowed_self_signed_keys_hex req)
       = Ok (allowed_self_signed_keys p)"
    "request_status E req (policy_status_list p)"
    "\<lparr>min_security_level = min_security_level p, require_verified_boot = request_verified_boot req,
        allowed_self_signed_keys = allowed_self_signed_keys p,
        require_device_locked = request_device_locked req,
        policy_status_list = policy_status_list p\<rparr> = p"
    by (simp_all add: request_policy_def decode_hex_list_Ok_iff policy_eq_iff [symmetric])
  show ?handler
    unfolding attest_android_attestation_def Let_def
    using *(1,2,4-7) p by (simp add: request_status_Ok_iff [THEN iffD2] response_for_def)
qed

lemma apple_handler_Ok_iff:
  "attest_apple_attestation E state req = Ok resp \<longleftrightarrow>
     (\<exists>obj key_id chal out d.
        hex_decode E (attestation_object_hex req) = Inr obj
        \<and> hex_decode E (key_id_hex req) = Inr key_id
        \<and> hex_decode E (apple_challenge_hex req) = Inr chal
        \<and> verify_app_attest (env_crates E) (apple_root_der E) obj key_id chal (apple_app_id req)
            (production req) (stamp_ms E) = Ok out
        \<and> document_for E state (apple_payload out) d
        \<and> resp = response_for E state out d)"
  unfolding attest_apple_attestation_def and_then_Ok_iff map_error_Ok_iff decode_hex_Ok_iff
    response_for_def document_for_iff by auto

lemma assertion_handler_Ok_iff:
  "attest_apple_assertion E state req = Ok resp \<longleftrightarrow>
     (\<exists>obj data key out d.
        hex_decode E (assertion_object_hex req) = Inr obj
        \<and> hex_decode E (client_data_hex req) = Inr data
        \<and> hex_decode E (attested_key_hex req) = Inr key
        \<and> verify_assertion (env_crates E) obj data key (assertion_app_id req) (stamp_ms E) = Ok out
        \<and> document_for E state (assertion_payload out) d
        \<and> resp = assertion_response_for E state out d)"
  unfolding attest_apple_assertion_def and_then_Ok_iff map_error_Ok_iff decode_hex_Ok_iff
    assertion_response_for_def document_for_iff by auto

lemma handlers_not_Panic:
  assumes "crate_times_ok (env_crates E)"
  shows "attest_apple_attestation E state a \<noteq> Panic"
    and "attest_apple_assertion E state b \<noteq> Panic"
    and "attest_android_attestation E state c \<noteq> Panic"
proof -
  have app: "verify_app_attest (env_crates E) root obj k chal app prod t \<noteq> Panic"
    "verify_attestation (env_crates E) roots chain chal p t \<noteq> Panic" for root obj k chal app prod t roots chain p
    using assms by (rule verify_app_attest_not_Panic verify_attestation_not_Panic)+
  show "attest_apple_attestation E state a \<noteq> Panic"
    "attest_apple_assertion E state b \<noteq> Panic"
    by (auto simp: attest_apple_attestation_def attest_apple_assertion_def result_simps app
        verify_assertion_not_Panic)
  show "attest_android_attestation E state c \<noteq> Panic"
    by (auto simp: attest_android_attestation_def Let_def result_simps app status_list_not_Panic
        split: option.splits)
qed

lemma attestation_doc_eq:
  "attestation_doc E state =
     (if nsm_init E < 0
      then Err (501, ''NSM init failed (not running inside a Nitro enclave?)'')
      else (case nsm_process_request E (nsm_init E) (verifying_key state) [] of
              NsmAttestation d \<Rightarrow> Ok \<lparr>document_hex = hex_encode E d\<rparr>
            | NsmOther other \<Rightarrow>
                Err (500, ''NSM request failed: unexpected NSM response: '' @ other)))"
  by (simp add: attestation_doc_def request_nsm_attestation_def Let_def split: nsm_response.split)

section \<open>A sample environment\<close>

text \<open>
  A security module that always answers, with a document of the public key and the user data, a
  hexadecimal code that is the bytes as characters, and a clock five seconds after the epoch.
\<close>

definition sample_env :: environment where
  "sample_env =
     \<lparr>env_crates = sample_crates, apple_root_der = [20], google_roots_der = [[20]],
      hex_decode = (\<lambda>s. Inr (as_bytes s)), hex_encode = str_of_bytes,
      bcs_to_bytes = (\<lambda>parts. Inr (bcs_struct parts)), unicode_lower = (\<lambda>s. s),
      package_version = ''0.1.0'', clock_since_epoch = Some 5000, nsm_init = 3,
      nsm_process_request = (\<lambda>fd pk ud. NsmAttestation (bcs_struct [pk, ud]))\<rparr>"

lemma sample_env_sel:
  "env_crates sample_env = sample_crates" "apple_root_der sample_env = [20]"
  "google_roots_der sample_env = [[20]]" "hex_decode sample_env h = Inr (as_bytes h)"
  "hex_encode sample_env = str_of_bytes" "bcs_to_bytes sample_env parts = Inr (bcs_struct parts)"
  "nsm_init sample_env = 3"
  "nsm_process_request sample_env fd pk ud = NsmAttestation (bcs_struct [pk, ud])"
  "stamp_ms sample_env = 5000"
  by (simp_all add: sample_env_def stamp_ms_def)

definition sample_state :: app_state where
  "sample_state = \<lparr>signing_key = [1], verifying_key = [2]\<rparr>"

definition sample_android_request :: android_request where
  "sample_android_request =
     \<lparr>chain_hex = [str_of_bytes [24], str_of_bytes [21]], android_challenge_hex = str_of_bytes [9],
      request_min_security_level = None, request_verified_boot = False,
      request_device_locked = True, allowed_self_signed_keys_hex = [str_of_bytes [1, 2, 3]],
      status_list_json = None\<rparr>"

lemma sample_android_handler:
  "attest_android_attestation sample_env sample_state sample_android_request
     = Ok (response_for sample_env sample_state sample_android_outcome
             (bcs_struct [[2], sample_hash (bcs_struct (android_payload sample_android_outcome))]))"
proof -
  have "request_policy sample_env sample_android_request sample_policy"
    by (simp add: request_policy_def sample_android_request_def sample_policy_def policy_default_def
        parse_security_level_def Let_def request_status_def sample_env_sel)
  moreover have "list_all2 (\<lambda>h b. hex_decode sample_env h = Inr b) (chain_hex sample_android_request) [[24], [21]]"
    "hex_decode sample_env (android_challenge_hex sample_android_request) = Inr [9]"
    by (simp_all add: sample_env_sel sample_android_request_def)
  moreover have "document_for sample_env sample_state (android_payload sample_android_outcome)
      (bcs_struct [[2], sample_hash (bcs_struct (android_payload sample_android_outcome))])"
    by (simp add: document_for_def sample_env_sel sample_state_def sample_crates_def)
  ultimately show ?thesis
    using sample_attestation unfolding android_handler_Ok_iff
    by (metis sample_env_sel(1,3,9))
qed

definition sample_apple_request :: apple_request where
  "sample_apple_request =
     \<lparr>attestation_object_hex = str_of_bytes [1], key_id_hex = str_of_bytes (sample_hash sample_pk),
      apple_challenge_hex = str_of_bytes [1, 2, 3], apple_app_id = ''app'', production = False\<rparr>"

definition sample_apple_outcome :: outcome where
  "sample_apple_outcome = \<lparr>source = APPLE_APP_ATTEST, attested_value = sample_pk,
     challenge = [1, 2, 3], timestamp_ms = 5000, detail_hash = sample_hash [1]\<rparr>"

definition sample_assertion_request :: apple_assertion_request where
  "sample_assertion_request =
     \<lparr>assertion_object_hex = str_of_bytes [3], client_data_hex = str_of_bytes [5],
      attested_key_hex = str_of_bytes [60], assertion_app_id = ''app''\<rparr>"

definition sample_assertion_outcome :: outcome where
  "sample_assertion_outcome = \<lparr>source = APPLE_APP_ATTEST_ASSERTION, attested_value = [60],
     challenge = [5], timestamp_ms = 5000, detail_hash = sample_hash [3]\<rparr>"

lemma sample_document_for:
  "document_for sample_env sample_state parts (bcs_struct [[2], sample_hash (bcs_struct parts)])"
  by (simp add: document_for_def sample_env_sel sample_state_def sample_crates_def)

lemma sample_apple_handler:
  "attest_apple_attestation sample_env sample_state sample_apple_request
     = Ok (response_for sample_env sample_state sample_apple_outcome
             (bcs_struct [[2], sample_hash (bcs_struct (apple_payload sample_apple_outcome))]))"
proof -
  have "hex_decode sample_env (attestation_object_hex sample_apple_request) = Inr [1]"
    "hex_decode sample_env (key_id_hex sample_apple_request) = Inr (sample_hash sample_pk)"
    "hex_decode sample_env (apple_challenge_hex sample_apple_request) = Inr [1, 2, 3]"
    "apple_app_id sample_apple_request = ''app''" "\<not> production sample_apple_request"
    by (simp_all add: sample_env_sel sample_apple_request_def)
  then show ?thesis
    unfolding apple_handler_Ok_iff
    by (metis (full_types) sample_app_attest sample_apple_outcome_def sample_document_for sample_env_sel(1,2,9))
qed

lemma sample_assertion:
  "verify_assertion sample_crates [3] [5] [60] ''app'' 5000 = Ok sample_assertion_outcome"
proof -
  have "length sample_rp = 32" by (simp add: sample_rp_eq)
  then show ?thesis
    unfolding verify_assertion_Ok_iff assertion_ok_def sample_assertion_outcome_def
    by (intro conjI exI)
       (auto simp: sample_crates_def sample_rp_def last_value_Cons text_keys_simps)
qed

lemma sample_assertion_handler:
  "attest_apple_assertion sample_env sample_state sample_assertion_request
     = Ok (assertion_response_for sample_env sample_state sample_assertion_outcome
             (bcs_struct [[2], sample_hash (bcs_struct (assertion_payload sample_assertion_outcome))]))"
proof -
  have "hex_decode sample_env (assertion_object_hex sample_assertion_request) = Inr [3]"
    "hex_decode sample_env (client_data_hex sample_assertion_request) = Inr [5]"
    "hex_decode sample_env (attested_key_hex sample_assertion_request) = Inr [60]"
    "assertion_app_id sample_assertion_request = ''app''"
    by (simp_all add: sample_env_sel sample_assertion_request_def)
  then show ?thesis
    unfolding assertion_handler_Ok_iff
    by (metis sample_assertion sample_document_for sample_env_sel(1,9))
qed

section \<open>Properties\<close>

text \<open>
  C11. The Android handler answers exactly when every certificate, the challenge and every
  allowed boot key are valid hexadecimal, the security level is known, a given revocation list
  parses, the verifier accepts all of it under the policy of the request, and the security
  module returns a document over the hash of the BCS payload and the enclave's key; the answer
  is that document with the fields of the payload.
\<close>

theorem android_handler_accepts:
  "attest_android_attestation E state req = Ok resp \<longleftrightarrow>
     (\<exists>chain chal p out b d.
        list_all2 (\<lambda>h b. hex_decode E h = Inr b) (chain_hex req) chain
        \<and> hex_decode E (android_challenge_hex req) = Inr chal
        \<and> parse_security_level (request_min_security_level req) = Ok (min_security_level p)
        \<and> require_verified_boot p = request_verified_boot req
        \<and> require_device_locked p = request_device_locked req
        \<and> list_all2 (\<lambda>h b. hex_decode E h = Inr b) (allowed_self_signed_keys_hex req)
            (allowed_self_signed_keys p)
        \<and> (case status_list_json req of
             None \<Rightarrow> policy_status_list p = None
           | Some json \<Rightarrow> (\<exists>l. status_list_from_json (unicode_lower E) json = Ok l
                                \<and> policy_status_list p = Some l))
        \<and> verify_attestation (env_crates E) (google_roots_der E) chain chal p (stamp_ms E) = Ok out
        \<and> bcs_to_bytes E [attested_value out, challenge out, detail_hash out] = Inr b
        \<and> 0 \<le> nsm_init E
        \<and> nsm_process_request E (nsm_init E) (verifying_key state) (sha256 (env_crates E) b)
            = NsmAttestation d
        \<and> resp = response_for E state out d)"
  unfolding android_handler_Ok_iff request_policy_def request_status_def document_for_def
    android_payload_def by fast

text \<open>
  The two Apple handlers answer exactly when the members of the request are valid
  hexadecimal, the verifier accepts them, and the security module returns a document over the
  hash of the BCS payload and the enclave's key. The payload of an attestation is the key, the
  challenge and the detail hash; that of an assertion is the key and the client data.
\<close>

lemma apple_handlers_accept:
  "(attest_apple_attestation E state req = Ok resp \<longleftrightarrow>
     (\<exists>obj key_id chal out b d.
        hex_decode E (attestation_object_hex req) = Inr obj
        \<and> hex_decode E (key_id_hex req) = Inr key_id
        \<and> hex_decode E (apple_challenge_hex req) = Inr chal
        \<and> verify_app_attest (env_crates E) (apple_root_der E) obj key_id chal (apple_app_id req)
            (production req) (stamp_ms E) = Ok out
        \<and> bcs_to_bytes E [attested_value out, challenge out, detail_hash out] = Inr b
        \<and> 0 \<le> nsm_init E
        \<and> nsm_process_request E (nsm_init E) (verifying_key state) (sha256 (env_crates E) b)
            = NsmAttestation d
        \<and> resp = response_for E state out d))
   \<and> (attest_apple_assertion E state areq = Ok aresp \<longleftrightarrow>
     (\<exists>obj data key out b d.
        hex_decode E (assertion_object_hex areq) = Inr obj
        \<and> hex_decode E (client_data_hex areq) = Inr data
        \<and> hex_decode E (attested_key_hex areq) = Inr key
        \<and> verify_assertion (env_crates E) obj data key (assertion_app_id areq) (stamp_ms E) = Ok out
        \<and> bcs_to_bytes E [attested_value out, challenge out] = Inr b
        \<and> 0 \<le> nsm_init E
        \<and> nsm_process_request E (nsm_init E) (verifying_key state) (sha256 (env_crates E) b)
            = NsmAttestation d
        \<and> aresp = assertion_response_for E state out d))"
  unfolding apple_handler_Ok_iff assertion_handler_Ok_iff document_for_def apple_payload_def
    assertion_payload_def by (intro conjI iffI; fast)

text \<open>
  Error answers. A refused request to one of the three \<open>POST\<close> handlers is a 400 with the
  message of its error. \<open>GET /attestation\<close> answers 501 exactly when the security module cannot
  be opened, 500 exactly when it opens but answers with anything but a document, and otherwise
  returns the document over the enclave's key and empty user data; it never panics.
\<close>

lemma error_statuses:
  "into_response e = (400, attest_error_display e)
   \<and> attestation_doc E state \<noteq> Panic
   \<and> (attestation_doc E state = Err (501, msg) \<longleftrightarrow>
        nsm_init E < 0 \<and> msg = ''NSM init failed (not running inside a Nitro enclave?)'')
   \<and> (attestation_doc E state = Err (500, msg) \<longleftrightarrow>
        0 \<le> nsm_init E \<and> (\<exists>other. nsm_process_request E (nsm_init E) (verifying_key state) []
          = NsmOther other \<and> msg = ''NSM request failed: unexpected NSM response: '' @ other))
   \<and> (attestation_doc E state = Ok body \<longleftrightarrow>
        0 \<le> nsm_init E \<and> (\<exists>d. nsm_process_request E (nsm_init E) (verifying_key state) []
          = NsmAttestation d \<and> document_hex body = hex_encode E d))"
proof -
  have body: "(body = \<lparr>document_hex = x\<rparr>) = (document_hex body = x)" for x
    by (cases body) auto
  show ?thesis
    by (auto simp: attestation_doc_eq into_response_def body split: nsm_response.splits)
qed

text \<open>
  A request that names only the chain and the challenge is verified under the default policy
  of the Android crate: hardware-backed levels, a Verified boot state and a locked device.
\<close>

lemma omitted_members_mean_default_policy:
  "attest_android_attestation E state (android_request_of_json hs c None None None None None) = Ok resp
   \<longleftrightarrow> (\<exists>chain chal out d.
        list_all2 (\<lambda>h b. hex_decode E h = Inr b) hs chain \<and> hex_decode E c = Inr chal
        \<and> verify_attestation (env_crates E) (google_roots_der E) chain chal policy_default (stamp_ms E)
            = Ok out
        \<and> document_for E state (android_payload out) d
        \<and> resp = response_for E state out d)"
proof -
  have "request_policy E (android_request_of_json hs c None None None None None) p
      \<longleftrightarrow> p = policy_default" for p
    by (auto simp: request_policy_def android_request_of_json_def default_true_def
        parse_security_level_def Let_def request_status_def policy_default_def policy_eq_iff)
  then show ?thesis
    unfolding android_handler_Ok_iff by (simp add: android_request_of_json_def)
qed

text \<open>
  The accepted names of security levels, and the level an omitted name stands for; every
  other name, also one in upper case, is an error.
\<close>

lemma security_level_names:
  "(parse_security_level s = Ok l \<longleftrightarrow>
      (case l of
         Software \<Rightarrow> s = Some ''software''
       | TrustedEnvironment \<Rightarrow>
           s \<in> {None, Some ''tee'', Some ''trustedenvironment'', Some ''trusted_environment''}
       | StrongBox \<Rightarrow> s = Some ''strongbox''))
   \<and> parse_security_level (Some ''TEE'') = Err (Nsm (''unknown min_security_level '' @ quoted ''TEE''
        @ '' (want software|tee|strongbox)''))"
  by (cases l; cases s) (auto simp: parse_security_level_def Let_def)

text \<open>
  Outside a Nitro enclave nothing is attested: when the security module cannot be opened, no
  handler answers with a document, whatever the request.
\<close>

lemma off_enclave_never_attests:
  assumes "nsm_init E < 0"
  shows "\<not> is_ok (attest_apple_attestation E state a) \<and> \<not> is_ok (attest_apple_assertion E state b)
     \<and> \<not> is_ok (attest_android_attestation E state c) \<and> \<not> is_ok (attestation_doc E state)"
  using assms
  by (auto simp: is_ok_iff apple_handler_Ok_iff assertion_handler_Ok_iff android_handler_Ok_iff
      document_for_def attestation_doc_eq)

end
