(* ===== verification/Onchain.thy ===== *)
theory Onchain
  imports Bcs Attestation_Core
begin

text \<open>
  The on-chain verifiers that redeem the enclave's documents
  (\<open>move/attest_apple/sources/attestation.move\<close>, \<open>move/attest_apple/sources/assertion.move\<close>
  and \<open>move/attest_android/sources/attestation.move\<close>). A transaction either returns a witness
  or aborts with one of the module's codes; an arithmetic overflow of \<open>u64\<close> aborts too
  (\<open>Panic\<close>). The Nitro document and the policy come from other packages; their data are the
  fields that the verifiers read, and the hash is an argument.
\<close>

record nitro_document =
  doc_pcrs :: "(u8 \<times> bytes) list"
  doc_user_data :: "bytes option"
  doc_timestamp :: u64
  doc_public_key :: "bytes option"

record enclave_policy =
  pcr0 :: bytes
  pcr1 :: bytes
  pcr2 :: bytes

datatype move_error =
    EStaleOutcome | EFutureOutcome | EWrongPcr | EMissingUserData | EPayloadMismatch | EMissingPublicKey

text \<open>
  The marker \<open>Source\<close> of a witness is any type with \<open>drop\<close>: one of the three markers of the
  repository, whose values only their own packages can make, or a type of another package, named
  by its printed name.
\<close>

datatype witness_source = AppleAppAttest | AppleAssertionSource | AndroidKeyAttestation | OtherSource bytes

fun repo_source :: "witness_source \<Rightarrow> bool" where
  "repo_source (OtherSource n) \<longleftrightarrow> False"
| "repo_source src \<longleftrightarrow> True"

record attestation_witness =
  witness_of :: witness_source
  witness_attested_value :: bytes
  witness_challenge :: bytes
  witness_timestamp_ms :: u64
  witness_detail_hash :: bytes

text \<open>\<open>witness::new\<close>, which is public: the marker stands for the permission to call it.\<close>

definition new_witness :: "witness_source \<Rightarrow> bytes \<Rightarrow> bytes \<Rightarrow> u64 \<Rightarrow> bytes \<Rightarrow> attestation_witness" where
  "new_witness marker v c ts h =
     \<lparr>witness_of = marker, witness_attested_value = v, witness_challenge = c, witness_timestamp_ms = ts,
      witness_detail_hash = h\<rparr>"

definition MAX_OUTCOME_AGE_MS :: u64 where "MAX_OUTCOME_AGE_MS = 5 * 60 * 1000"
definition MAX_CLOCK_SKEW_MS :: u64 where "MAX_CLOCK_SKEW_MS = 30 * 1000"

text \<open>The loop over the PCR entries, with the three \<open>found\<close> flags.\<close>

fun pcr_loop :: "enclave_policy \<Rightarrow> (u8 \<times> bytes) list \<Rightarrow> bool \<Rightarrow> bool \<Rightarrow> bool
    \<Rightarrow> (bool \<times> bool \<times> bool, move_error) result" where
  "pcr_loop p [] f0 f1 f2 = Ok (f0, f1, f2)"
| "pcr_loop p ((idx, val) # es) f0 f1 f2 =
     (if idx = 0 then (if val \<noteq> pcr0 p then Err EWrongPcr else pcr_loop p es True f1 f2)
      else if idx = 1 then (if val \<noteq> pcr1 p then Err EWrongPcr else pcr_loop p es f0 True f2)
      else if idx = 2 then (if val \<noteq> pcr2 p then Err EWrongPcr else pcr_loop p es f0 f1 True)
      else pcr_loop p es f0 f1 f2)"

definition assert_pcrs_match :: "enclave_policy \<Rightarrow> nitro_document \<Rightarrow> (unit, move_error) result" where
  "assert_pcrs_match p doc =
     and_then (pcr_loop p (doc_pcrs doc) False False False) (\<lambda>(f0, f1, f2).
     if f0 \<and> f1 \<and> f2 then Ok () else Err EWrongPcr)"

definition checked_plus :: "u64 \<Rightarrow> u64 \<Rightarrow> (u64, move_error) result" where
  "checked_plus a b = (if unat a + unat b < 2 ^ 64 then Ok (a + b) else Panic)"

text \<open>The checks the three modules share, line by line; the value is the Nitro timestamp.\<close>

definition check_document :: "(bytes \<Rightarrow> bytes) \<Rightarrow> enclave_policy \<Rightarrow> nitro_document \<Rightarrow> bytes list \<Rightarrow> u64
    \<Rightarrow> (u64, move_error) result" where
  "check_document sha p doc payload now =
     and_then (assert_pcrs_match p doc) (\<lambda>_.
     let expected_hash = sha (bcs_struct payload) in
     and_then (ok_or EMissingUserData (doc_user_data doc)) (\<lambda>user_data.
     if user_data \<noteq> expected_hash then Err EPayloadMismatch else
     let nsm_ts = doc_timestamp doc in
     and_then (checked_plus nsm_ts MAX_OUTCOME_AGE_MS) (\<lambda>oldest.
     if \<not> oldest \<ge> now then Err EStaleOutcome else
     and_then (checked_plus now MAX_CLOCK_SKEW_MS) (\<lambda>newest.
     if \<not> nsm_ts \<le> newest then Err EFutureOutcome else
     and_then (ok_or EMissingPublicKey (doc_public_key doc)) (\<lambda>_.
     Ok nsm_ts)))))"

definition apple_attestation_verify :: "(bytes \<Rightarrow> bytes) \<Rightarrow> enclave_policy \<Rightarrow> nitro_document
    \<Rightarrow> bytes \<Rightarrow> bytes \<Rightarrow> bytes \<Rightarrow> u64 \<Rightarrow> (attestation_witness, move_error) result" where
  "apple_attestation_verify sha p doc value chal detail now =
     and_then (check_document sha p doc [value, chal, detail] now) (\<lambda>nsm_ts.
     Ok \<lparr>witness_of = AppleAppAttest, witness_attested_value = value, witness_challenge = chal,
         witness_timestamp_ms = nsm_ts, witness_detail_hash = detail\<rparr>)"

definition android_attestation_verify :: "(bytes \<Rightarrow> bytes) \<Rightarrow> enclave_policy \<Rightarrow> nitro_document
    \<Rightarrow> bytes \<Rightarrow> bytes \<Rightarrow> bytes \<Rightarrow> u64 \<Rightarrow> (attestation_witness, move_error) result" where
  "android_attestation_verify sha p doc value chal detail now =
     and_then (check_document sha p doc [value, chal, detail] now) (\<lambda>nsm_ts.
     Ok \<lparr>witness_of = AndroidKeyAttestation, witness_attested_value = value, witness_challenge = chal,
         witness_timestamp_ms = nsm_ts, witness_detail_hash = detail\<rparr>)"

definition apple_assertion_verify :: "(bytes \<Rightarrow> bytes) \<Rightarrow> enclave_policy \<Rightarrow> nitro_document
    \<Rightarrow> bytes \<Rightarrow> bytes \<Rightarrow> u64 \<Rightarrow> (attestation_witness, move_error) result" where
  "apple_assertion_verify sha p doc key data now =
     and_then (check_document sha p doc [key, data] now) (\<lambda>nsm_ts.
     Ok \<lparr>witness_of = AppleAssertionSource, witness_attested_value = key, witness_challenge = data,
         witness_timestamp_ms = nsm_ts, witness_detail_hash = the (doc_user_data doc)\<rparr>)"

section \<open>What is accepted\<close>

definition pcrs_ok :: "enclave_policy \<Rightarrow> (u8 \<times> bytes) list \<Rightarrow> bool" where
  "pcrs_ok p es \<longleftrightarrow>
     (\<forall>(i, v) \<in> set es. (i = 0 \<longrightarrow> v = pcr0 p) \<and> (i = 1 \<longrightarrow> v = pcr1 p) \<and> (i = 2 \<longrightarrow> v = pcr2 p))"

lemma pcr_loop_Ok_iff:
  "pcr_loop p es f0 f1 f2 = Ok r \<longleftrightarrow> pcrs_ok p es
     \<and> r = (f0 \<or> 0 \<in> fst ` set es, f1 \<or> 1 \<in> fst ` set es, f2 \<or> 2 \<in> fst ` set es)"
proof (induction es arbitrary: f0 f1 f2)
  case Nil
  then show ?case by (auto simp: pcrs_ok_def)
next
  case (Cons e es)
  obtain i v where e: "e = (i, v)" by (cases e)
  consider "i = 0" | "i = 1" | "i = 2" | "i \<noteq> 0 \<and> i \<noteq> 1 \<and> i \<noteq> 2" by blast
  then show ?case
    by cases (auto simp: e Cons pcrs_ok_def)
qed

lemma pcr_loop_not_Panic [simp]: "pcr_loop p es f0 f1 f2 \<noteq> Panic"
  by (induction p es f0 f1 f2 rule: pcr_loop.induct) auto

lemma assert_pcrs_match_Ok_iff [result_simps]:
  "assert_pcrs_match p doc = Ok u \<longleftrightarrow> pcrs_ok p (doc_pcrs doc) \<and> {0, 1, 2} \<subseteq> fst ` set (doc_pcrs doc)"
  by (auto simp: assert_pcrs_match_def and_then_Ok_iff pcr_loop_Ok_iff split: if_splits)

lemma checked_plus_Ok_iff [result_simps]:
  "checked_plus a b = Ok c \<longleftrightarrow> unat a + unat b < 2 ^ 64 \<and> c = a + b"
  by (auto simp: checked_plus_def)

lemma unat_checked_plus: "unat a + unat b < 2 ^ 64 \<Longrightarrow> unat (a + b :: u64) = unat a + unat b"
  using unat_add_lem [of a b] by simp

lemma check_document_Ok_iff [result_simps]:
  "check_document sha p doc payload now = Ok ts \<longleftrightarrow>
     pcrs_ok p (doc_pcrs doc) \<and> {0, 1, 2} \<subseteq> fst ` set (doc_pcrs doc)
     \<and> doc_user_data doc = Some (sha (bcs_struct payload))
     \<and> (\<exists>pk. doc_public_key doc = Some pk)
     \<and> ts = doc_timestamp doc
     \<and> unat ts + 300000 < 2 ^ 64 \<and> unat now + 30000 < 2 ^ 64
     \<and> unat now \<le> unat ts + 300000 \<and> unat ts \<le> unat now + 30000"
proof -
  have age: "unat MAX_OUTCOME_AGE_MS = 300000" and skew: "unat MAX_CLOCK_SKEW_MS = 30000"
    by (simp_all add: MAX_OUTCOME_AGE_MS_def MAX_CLOCK_SKEW_MS_def)
  show ?thesis
    by (auto simp: check_document_def Let_def result_simps age skew word_le_nat_alt unat_checked_plus)
qed

section \<open>The policy at deployment\<close>

text \<open>
  \<open>init\<close> of \<open>move/attestation/sources/attestation.move\<close>: the package \<open>kagi\<close> makes a policy and
  its capability from three empty values; the policy is shared and the capability goes to the
  sender. The result is the shared policy, the capability and its owner.
\<close>

definition attestation_init :: "(bytes \<Rightarrow> bytes \<Rightarrow> bytes \<Rightarrow> enclave_policy \<times> 'cap) \<Rightarrow> 'account
    \<Rightarrow> enclave_policy \<times> 'cap \<times> 'account" where
  "attestation_init new_policy tx_sender =
     (let (policy, cap) = new_policy [] [] [] in (policy, cap, tx_sender))"

text \<open>Until the measurements are set, no document of a real enclave is redeemed.\<close>

lemma initial_policy_redeems_nothing:
  assumes "\<And>a b c. pcr0 (fst (new_policy a b c)) = a"
    and "\<And>v. (0, v) \<in> set (doc_pcrs doc) \<Longrightarrow> v \<noteq> []"
  shows "\<not> is_ok (check_document sha (fst (attestation_init new_policy s)) doc payload now)"
proof
  assume "is_ok (check_document sha (fst (attestation_init new_policy s)) doc payload now)"
  then obtain v where "(0, v) \<in> set (doc_pcrs doc)" "v = pcr0 (fst (attestation_init new_policy s))"
    by (fastforce simp: is_ok_iff check_document_Ok_iff pcrs_ok_def)
  with assms show False by (auto simp: attestation_init_def split: prod.splits) (metis fst_conv)
qed

section \<open>Properties\<close>

text \<open>
  C27. A document is redeemed exactly when it lists PCR 0, 1 and 2 and every entry with one of
  these indices has the value of the policy, its user data is the hash of the BCS payload, it
  carries a public key, and its Nitro timestamp is at most five minutes old and at most thirty
  seconds ahead of the chain's clock, neither sum overflowing; the witness then carries the
  submitted fields and the Nitro time.
\<close>

theorem android_redeem_accepts:
  "android_attestation_verify sha p doc value chal detail now = Ok w \<longleftrightarrow>
     list_all (\<lambda>(i, v). if i = 0 then v = pcr0 p else if i = 1 then v = pcr1 p
                      else if i = 2 then v = pcr2 p else True) (doc_pcrs doc)
     \<and> {0, 1, 2} \<subseteq> fst ` set (doc_pcrs doc)
     \<and> doc_user_data doc = Some (sha (bcs_struct [value, chal, detail]))
     \<and> doc_public_key doc \<noteq> None
     \<and> unat (doc_timestamp doc) + 300000 < 2 ^ 64 \<and> unat now + 30000 < 2 ^ 64
     \<and> unat now \<le> unat (doc_timestamp doc) + 300000
     \<and> unat (doc_timestamp doc) \<le> unat now + 30000
     \<and> w = \<lparr>witness_of = AndroidKeyAttestation, witness_attested_value = value,
            witness_challenge = chal, witness_timestamp_ms = doc_timestamp doc,
            witness_detail_hash = detail\<rparr>"
proof -
  have "pcrs_ok p es \<longleftrightarrow>
      list_all (\<lambda>(i, v). if i = 0 then v = pcr0 p else if i = 1 then v = pcr1 p
                       else if i = 2 then v = pcr2 p else True) es" for es
    unfolding pcrs_ok_def list_all_iff by (intro ball_cong refl) auto
  then show ?thesis
    unfolding android_attestation_verify_def and_then_Ok_iff check_document_Ok_iff by auto
qed

text \<open>
  Documents are transferable between the Apple and the Android package: whatever the
  document, policy and clock, the Android verifier accepts exactly what the Apple verifier
  accepts, and only the type of the witness differs, because neither the payload nor the check
  contains the source of the attestation.
\<close>

lemma sources_not_separated:
  "android_attestation_verify sha p doc value chal detail now =
     (case apple_attestation_verify sha p doc value chal detail now of
        Ok w \<Rightarrow> Ok (w\<lparr>witness_of := AndroidKeyAttestation\<rparr>)
      | Err e \<Rightarrow> Err e
      | Panic \<Rightarrow> Panic)"
  by (cases "check_document sha p doc [value, chal, detail] now")
     (simp_all add: android_attestation_verify_def apple_attestation_verify_def)

end
