(* ===== verification/End_To_End.thy ===== *)
theory End_To_End
  imports Enclave_Server Onchain
begin

text \<open>
  The enclave and the chain together: what a transaction that redeems a document knows about
  the attestation behind it. The document format and its signature belong to AWS and to the
  Sui framework (\<open>load_nitro_attestation\<close>), the encodings to the crates \<open>hex\<close> and \<open>bcs\<close>; what
  is used of them is their documented behaviour \<open>environment_ok\<close>.
\<close>

section \<open>Documented behaviour of the environment\<close>

definition environment_ok :: "environment \<Rightarrow> (bytes \<Rightarrow> nitro_document option) \<Rightarrow> bool" where
  "environment_ok E load \<longleftrightarrow>
     (\<forall>b. hex_decode E (hex_encode E b) = Inr b)
     \<and> (\<forall>parts b. bcs_to_bytes E parts = Inr b \<longrightarrow> b = bcs_struct parts)
     \<and> (\<forall>fd pk ud d. nsm_process_request E fd pk ud = NsmAttestation d \<longrightarrow>
          (\<exists>doc. load d = Some doc \<and> doc_public_key doc = Some pk \<and> doc_user_data doc = Some ud))"

lemma hex_ok: "environment_ok E load \<Longrightarrow> hex_decode E (hex_encode E b) = Inr b"
  by (simp add: environment_ok_def)

text \<open>The document of a handler carries the hash of the payload and the enclave's key.\<close>

lemma document_for_load:
  assumes "environment_ok E load" "document_for E state parts d"
  shows "\<exists>doc. load d = Some doc \<and> doc_public_key doc = Some (verifying_key state)
     \<and> doc_user_data doc = Some (sha256 (env_crates E) (bcs_struct parts))"
proof -
  from assms(2) obtain b where b: "bcs_to_bytes E parts = Inr b"
    "nsm_process_request E (nsm_init E) (verifying_key state) (sha256 (env_crates E) b) = NsmAttestation d"
    by (auto simp: document_for_def)
  with assms(1) have "b = bcs_struct parts" by (simp add: environment_ok_def)
  with b assms(1) show ?thesis unfolding environment_ok_def by blast
qed

text \<open>A document over one payload is redeemed with that payload only.\<close>

lemma redeemed_payload:
  assumes "doc_user_data doc = Some (sha256 X (bcs_struct parts))"
    and "check_document (sha256 X) p doc parts' now = Ok ts"
  shows "parts' = parts \<or> collide X (bcs_struct parts') (bcs_struct parts)"
  using assms bcs_struct_inject [of parts' parts] by (auto simp: check_document_Ok_iff collide_def)

text \<open>The freshness and platform checks, which do not concern the payload.\<close>

definition acceptable :: "enclave_policy \<Rightarrow> nitro_document \<Rightarrow> u64 \<Rightarrow> bool" where
  "acceptable p doc now \<longleftrightarrow>
     assert_pcrs_match p doc = Ok ()
     \<and> unat (doc_timestamp doc) + 300000 < 2 ^ 64 \<and> unat now + 30000 < 2 ^ 64
     \<and> unat now \<le> unat (doc_timestamp doc) + 300000 \<and> unat (doc_timestamp doc) \<le> unat now + 30000"

lemma acceptable_redeems:
  assumes "acceptable p doc now" "doc_user_data doc = Some (sha (bcs_struct parts))"
    and "doc_public_key doc = Some pk"
  shows "check_document sha p doc parts now = Ok (doc_timestamp doc)"
  using assms by (auto simp: acceptable_def check_document_Ok_iff assert_pcrs_match_Ok_iff)

section \<open>A sample chain\<close>

definition sample_load :: "bytes \<Rightarrow> nitro_document option" where
  "sample_load d =
     (case read_bcs_vec d of
        None \<Rightarrow> None
      | Some (pk, r) \<Rightarrow>
          (case read_bcs_vec r of
             None \<Rightarrow> None
           | Some (ud, _) \<Rightarrow>
               Some \<lparr>doc_pcrs = [(0, [10]), (1, [11]), (2, [12]), (4, [14])], doc_user_data = Some ud,
                     doc_timestamp = 100000, doc_public_key = Some pk\<rparr>))"

definition sample_enclave_policy :: enclave_policy where
  "sample_enclave_policy = \<lparr>pcr0 = [10], pcr1 = [11], pcr2 = [12]\<rparr>"

definition sample_document :: "bytes list \<Rightarrow> nitro_document" where
  "sample_document parts =
     \<lparr>doc_pcrs = [(0, [10]), (1, [11]), (2, [12]), (4, [14])],
      doc_user_data = Some (sample_hash (bcs_struct parts)),
      doc_timestamp = 100000, doc_public_key = Some [2]\<rparr>"

lemma sample_load_doc:
  "sample_load (bcs_struct [pk, ud])
     = Some \<lparr>doc_pcrs = [(0, [10]), (1, [11]), (2, [12]), (4, [14])], doc_user_data = Some ud,
             doc_timestamp = 100000, doc_public_key = Some pk\<rparr>"
proof -
  have "read_bcs_vec (bcs_struct [pk, ud]) = Some (pk, bcs_struct [ud])"
    "read_bcs_vec (bcs_struct [ud]) = Some (ud, [])"
    using bcs_fields.dec_concat_step [of pk "[ud]" "[]"] bcs_fields.dec_concat_step [of ud "[]" "[]"]
    by (simp_all add: bcs_struct_def)
  then show ?thesis by (simp add: sample_load_def)
qed

lemma sample_environment_ok: "environment_ok sample_env sample_load"
  by (simp add: environment_ok_def sample_env_sel sample_load_doc)

lemma sample_acceptable: "acceptable sample_enclave_policy (sample_document parts) 250000"
  by (auto simp: acceptable_def sample_enclave_policy_def sample_document_def
      assert_pcrs_match_Ok_iff pcrs_ok_def)

section \<open>What the responses carry\<close>

lemma response_document:
  assumes "environment_ok E load" "document_for E state parts d0"
    and "hex_decode E (hex_encode E d0) = Inr d" "load d = Some doc"
  shows "doc_public_key doc = Some (verifying_key state)"
    and "doc_user_data doc = Some (sha256 (env_crates E) (bcs_struct parts))"
proof -
  have "d = d0" using hex_ok [OF assms(1), of d0] assms(3) by simp
  with document_for_load [OF assms(1,2)] assms(4)
  show "doc_public_key doc = Some (verifying_key state)"
    "doc_user_data doc = Some (sha256 (env_crates E) (bcs_struct parts))"
    by auto
qed

lemma redeemed_response:
  assumes "environment_ok E load" "document_for E state parts d0"
    and "hex_decode E (hex_encode E d0) = Inr d" "load d = Some doc"
    and "check_document (sha256 (env_crates E)) p doc parts' now = Ok ts"
  shows "parts' = parts \<or> collide (env_crates E) (bcs_struct parts') (bcs_struct parts)"
  using redeemed_payload [OF response_document(2) [OF assms(1-4)] assms(5)] .

lemma android_verify_Ok_iff:
  "android_attestation_verify sha p doc value chal detail now = Ok w \<longleftrightarrow>
     check_document sha p doc [value, chal, detail] now = Ok (witness_timestamp_ms w)
     \<and> w = \<lparr>witness_of = AndroidKeyAttestation, witness_attested_value = value, witness_challenge = chal,
            witness_timestamp_ms = witness_timestamp_ms w, witness_detail_hash = detail\<rparr>"
  by (auto simp: android_attestation_verify_def and_then_Ok_iff)

lemma apple_verify_Ok_iff:
  "apple_attestation_verify sha p doc value chal detail now = Ok w \<longleftrightarrow>
     check_document sha p doc [value, chal, detail] now = Ok (witness_timestamp_ms w)
     \<and> w = \<lparr>witness_of = AppleAppAttest, witness_attested_value = value, witness_challenge = chal,
            witness_timestamp_ms = witness_timestamp_ms w, witness_detail_hash = detail\<rparr>"
  by (auto simp: apple_attestation_verify_def and_then_Ok_iff)

lemma assertion_verify_Ok_iff:
  "apple_assertion_verify sha p doc key data now = Ok w \<longleftrightarrow>
     check_document sha p doc [key, data] now = Ok (witness_timestamp_ms w)
     \<and> w = \<lparr>witness_of = AppleAssertionSource, witness_attested_value = key, witness_challenge = data,
            witness_timestamp_ms = witness_timestamp_ms w,
            witness_detail_hash = the (doc_user_data doc)\<rparr>"
  by (auto simp: apple_assertion_verify_def and_then_Ok_iff)

lemma android_outcome_challenge:
  "verify_attestation X r chain chal p t = Ok out \<Longrightarrow> challenge out = chal"
  by (auto simp: verify_attestation_Ok_iff)

lemma app_attest_outcome_challenge:
  "verify_app_attest X r obj k chal app_id is_prod t = Ok out \<Longrightarrow> challenge out = chal"
  by (auto simp: verify_app_attest_Ok_iff)

lemma assertion_outcome:
  "verify_assertion X obj data key app_id t = Ok out \<Longrightarrow> attested_value out = key \<and> challenge out = data"
  by (auto simp: verify_assertion_Ok_iff)

section \<open>Properties\<close>

text \<open>
  C3. What an Android witness stands for. If the server answered a request, and the document of
  that answer was redeemed on chain for some key, challenge and detail hash, then the verifier
  accepted the request's chain for the request's challenge under the request's policy, and the
  redeemed fields are exactly those of its outcome, unless the two BCS payloads are a SHA-256
  collision.
\<close>

theorem android_witness_sound:
  assumes "environment_ok E load" and "attest_android_attestation E state req = Ok resp"
    and "hex_decode E (nsm_doc_hex resp) = Inr d" and "load d = Some doc"
    and "android_attestation_verify (sha256 (env_crates E)) p doc value chal detail now = Ok w"
  shows "\<exists>chain pol out.
     list_all2 (\<lambda>h b. hex_decode E h = Inr b) (chain_hex req) chain \<and> request_policy E req pol
     \<and> hex_decode E (android_challenge_hex req) = Inr (challenge out)
     \<and> verify_attestation (env_crates E) (google_roots_der E) chain (challenge out) pol (stamp_ms E) = Ok out
     \<and> ([value, chal, detail] = [attested_value out, challenge out, detail_hash out]
        \<or> collide (env_crates E) (bcs_struct [value, chal, detail])
            (bcs_struct [attested_value out, challenge out, detail_hash out]))"
proof -
  from assms(2) obtain chain c pol out d0 where h:
    "list_all2 (\<lambda>h b. hex_decode E h = Inr b) (chain_hex req) chain"
    "hex_decode E (android_challenge_hex req) = Inr c" "request_policy E req pol"
    "verify_attestation (env_crates E) (google_roots_der E) chain c pol (stamp_ms E) = Ok out"
    "document_for E state (android_payload out) d0" "resp = response_for E state out d0"
    unfolding android_handler_Ok_iff by blast
  have "hex_decode E (hex_encode E d0) = Inr d" using assms(3) h(6) by (simp add: response_for_def)
  from redeemed_response [OF assms(1) h(5) this assms(4)] assms(5) show ?thesis
    using h(1-4) android_outcome_challenge [OF h(4)]
    unfolding android_payload_def android_verify_Ok_iff by blast
qed

definition sample_nsm_doc :: "bytes list \<Rightarrow> bytes" where
  "sample_nsm_doc parts = bcs_struct [[2], sample_hash (bcs_struct parts)]"

lemma sample_nsm_load: "sample_load (sample_nsm_doc parts) = Some (sample_document parts)"
  by (simp add: sample_nsm_doc_def sample_load_doc sample_document_def)

lemmas sample_answers = sample_android_handler [folded sample_nsm_doc_def]
  sample_apple_handler [folded sample_nsm_doc_def] sample_assertion_handler [folded sample_nsm_doc_def]

lemma sample_sha: "sha256 (env_crates sample_env) = sample_hash"
  by (simp add: sample_env_sel sample_crates_def)

lemma sample_check:
  "check_document sample_hash sample_enclave_policy (sample_document parts) parts 250000 = Ok 100000"
  using acceptable_redeems [OF sample_acceptable, of parts sample_hash parts "[2]"]
  by (simp add: sample_document_def)

lemma sample_response_doc:
  "hex_decode sample_env (nsm_doc_hex (response_for sample_env sample_state out d)) = Inr d"
  "hex_decode sample_env (assertion_nsm_doc_hex (assertion_response_for sample_env sample_state out d)) = Inr d"
  by (simp_all add: response_for_def assertion_response_for_def sample_env_sel)

lemma sample_redeem:
  "android_attestation_verify (sha256 (env_crates sample_env)) sample_enclave_policy
     (sample_document [value, chal, detail]) value chal detail 250000
   = Ok \<lparr>witness_of = AndroidKeyAttestation, witness_attested_value = value,
         witness_challenge = chal, witness_timestamp_ms = 100000, witness_detail_hash = detail\<rparr>"
  "apple_attestation_verify (sha256 (env_crates sample_env)) sample_enclave_policy
     (sample_document [value, chal, detail]) value chal detail 250000
   = Ok \<lparr>witness_of = AppleAppAttest, witness_attested_value = value,
         witness_challenge = chal, witness_timestamp_ms = 100000, witness_detail_hash = detail\<rparr>"
  "apple_assertion_verify (sha256 (env_crates sample_env)) sample_enclave_policy
     (sample_document [key, data]) key data 250000
   = Ok \<lparr>witness_of = AppleAssertionSource, witness_attested_value = key,
         witness_challenge = data, witness_timestamp_ms = 100000,
         witness_detail_hash = sample_hash (bcs_struct [key, data])\<rparr>"
  by (simp_all add: android_attestation_verify_def apple_attestation_verify_def
      apple_assertion_verify_def sample_sha sample_check) (simp add: sample_document_def)

theorem android_witness_sound_witness:
  "\<exists>chain pol out. list_all2 (\<lambda>h b. hex_decode sample_env h = Inr b) (chain_hex sample_android_request) chain
     \<and> request_policy sample_env sample_android_request pol
     \<and> verify_attestation sample_crates [[20]] chain (challenge out) pol 5000 = Ok out"
  using android_witness_sound [OF sample_environment_ok sample_answers(1) sample_response_doc(1)
      sample_nsm_load, unfolded android_payload_def, OF sample_redeem(1)]
  unfolding sample_env_sel by blast

text \<open>
  C19. Every answer of the Android handler can be redeemed. Its members decode to a document and
  three fields, and whenever the document's PCRs match the policy and its Nitro time is fresh,
  the on-chain verifier accepts exactly these fields and returns the witness that carries them.
\<close>

theorem android_answer_redeems:
  assumes "environment_ok E load" and "attest_android_attestation E state req = Ok resp"
  shows "\<exists>d doc v c h. hex_decode E (nsm_doc_hex resp) = Inr d \<and> load d = Some doc
     \<and> hex_decode E (attested_value_hex resp) = Inr v \<and> hex_decode E (challenge_hex resp) = Inr c
     \<and> hex_decode E (detail_hash_hex resp) = Inr h
     \<and> (\<forall>p now. acceptable p doc now \<longrightarrow>
          android_attestation_verify (sha256 (env_crates E)) p doc v c h now
            = Ok \<lparr>witness_of = AndroidKeyAttestation, witness_attested_value = v,
                  witness_challenge = c, witness_timestamp_ms = doc_timestamp doc,
                  witness_detail_hash = h\<rparr>)"
proof -
  from assms(2) obtain out d where
    "document_for E state (android_payload out) d" and r: "resp = response_for E state out d"
    unfolding android_handler_Ok_iff by blast
  from document_for_load [OF assms(1) this(1)] obtain doc where doc: "load d = Some doc"
    "doc_public_key doc = Some (verifying_key state)"
    "doc_user_data doc = Some (sha256 (env_crates E) (bcs_struct (android_payload out)))" by blast
  have "android_attestation_verify (sha256 (env_crates E)) p doc (attested_value out) (challenge out)
          (detail_hash out) now
      = Ok \<lparr>witness_of = AndroidKeyAttestation, witness_attested_value = attested_value out,
            witness_challenge = challenge out, witness_timestamp_ms = doc_timestamp doc,
            witness_detail_hash = detail_hash out\<rparr>" if "acceptable p doc now" for p now
    using acceptable_redeems [where sha = "sha256 (env_crates E)", OF that doc(3,2)]
    by (simp add: android_attestation_verify_def android_payload_def)
  with doc(1) show ?thesis by (auto simp: r response_for_def hex_ok [OF assms(1)])
qed

theorem android_answer_redeems_witness:
  "\<exists>d doc. sample_load d = Some doc
     \<and> hex_decode sample_env (nsm_doc_hex (response_for sample_env sample_state sample_android_outcome
         (sample_nsm_doc (android_payload sample_android_outcome)))) = Inr d"
  using android_answer_redeems [OF sample_environment_ok sample_answers(1)] by blast

text \<open>
  C12. What an Apple attestation witness stands for: an attestation object that the verifier
  accepted for the request's key id, challenge, app id and environment. The redeemed fields are
  those of its outcome unless the two BCS payloads are a SHA-256 collision.
\<close>

theorem apple_attestation_witness_sound:
  assumes "environment_ok E load" and "attest_apple_attestation E state req = Ok resp"
    and "hex_decode E (nsm_doc_hex resp) = Inr d" and "load d = Some doc"
    and "apple_attestation_verify (sha256 (env_crates E)) p doc value chal detail now = Ok w"
  shows "\<exists>obj key_id out.
     hex_decode E (attestation_object_hex req) = Inr obj \<and> hex_decode E (key_id_hex req) = Inr key_id
     \<and> hex_decode E (apple_challenge_hex req) = Inr (challenge out)
     \<and> verify_app_attest (env_crates E) (apple_root_der E) obj key_id (challenge out)
         (apple_app_id req) (production req) (stamp_ms E) = Ok out
     \<and> ([value, chal, detail] = [attested_value out, challenge out, detail_hash out]
        \<or> collide (env_crates E) (bcs_struct [value, chal, detail])
            (bcs_struct [attested_value out, challenge out, detail_hash out]))"
proof -
  from assms(2) obtain obj key_id c out d0 where h:
    "hex_decode E (attestation_object_hex req) = Inr obj" "hex_decode E (key_id_hex req) = Inr key_id"
    "hex_decode E (apple_challenge_hex req) = Inr c"
    "verify_app_attest (env_crates E) (apple_root_der E) obj key_id c (apple_app_id req)
       (production req) (stamp_ms E) = Ok out"
    "document_for E state (apple_payload out) d0" "resp = response_for E state out d0"
    unfolding apple_handler_Ok_iff by blast
  have "hex_decode E (hex_encode E d0) = Inr d" using assms(3) h(6) by (simp add: response_for_def)
  from redeemed_response [OF assms(1) h(5) this assms(4)] assms(5) show ?thesis
    using h(1-4) app_attest_outcome_challenge [OF h(4)]
    unfolding apple_payload_def apple_verify_Ok_iff by blast
qed

theorem apple_attestation_witness_sound_witness:
  "\<exists>obj key_id out.
     verify_app_attest sample_crates [20] obj key_id (challenge out) ''app'' False 5000 = Ok out
     \<and> hex_decode sample_env (apple_challenge_hex sample_apple_request) = Inr (challenge out)"
proof -
  have r: "apple_app_id sample_apple_request = ''app''" "production sample_apple_request = False"
    by (simp_all add: sample_apple_request_def)
  show ?thesis
    using apple_attestation_witness_sound [OF sample_environment_ok sample_answers(2)
        sample_response_doc(1) sample_nsm_load, unfolded apple_payload_def, OF sample_redeem(2)]
    unfolding r sample_env_sel by blast
qed

text \<open>
  C13. What an Apple assertion witness stands for: an assertion that verified under the redeemed
  key, over the redeemed client data, for the request's app id, unless the two BCS payloads are
  a SHA-256 collision.
\<close>

theorem apple_assertion_witness_sound:
  assumes "environment_ok E load" and "attest_apple_assertion E state req = Ok resp"
    and "hex_decode E (assertion_nsm_doc_hex resp) = Inr d" and "load d = Some doc"
    and "apple_assertion_verify (sha256 (env_crates E)) p doc key data now = Ok w"
  shows "\<exists>obj out.
     hex_decode E (assertion_object_hex req) = Inr obj
     \<and> verify_assertion (env_crates E) obj (challenge out) (attested_value out)
         (assertion_app_id req) (stamp_ms E) = Ok out
     \<and> ([key, data] = [attested_value out, challenge out]
        \<or> collide (env_crates E) (bcs_struct [key, data])
            (bcs_struct [attested_value out, challenge out]))"
proof -
  from assms(2) obtain obj data0 key0 out d0 where h:
    "hex_decode E (assertion_object_hex req) = Inr obj"
    "verify_assertion (env_crates E) obj data0 key0 (assertion_app_id req) (stamp_ms E) = Ok out"
    "document_for E state (assertion_payload out) d0" "resp = assertion_response_for E state out d0"
    unfolding assertion_handler_Ok_iff by blast
  have "hex_decode E (hex_encode E d0) = Inr d"
    using assms(3) h(4) by (simp add: assertion_response_for_def)
  from redeemed_response [OF assms(1) h(3) this assms(4)] assms(5) show ?thesis
    using h(1,2) assertion_outcome [OF h(2)]
    unfolding assertion_payload_def assertion_verify_Ok_iff by blast
qed

theorem apple_assertion_witness_sound_witness:
  "\<exists>obj out. verify_assertion sample_crates obj (challenge out) (attested_value out) ''app'' 5000 = Ok out
     \<and> hex_decode sample_env (assertion_object_hex sample_assertion_request) = Inr obj"
proof -
  have r: "assertion_app_id sample_assertion_request = ''app''"
    by (simp add: sample_assertion_request_def)
  show ?thesis
    using apple_assertion_witness_sound [OF sample_environment_ok sample_answers(3)
        sample_response_doc(2) sample_nsm_load, unfolded assertion_payload_def, OF sample_redeem(3)]
    unfolding r sample_env_sel by blast
qed

text \<open>
  C36. The policy of a request is not part of what is attested. If the same chain and challenge
  are accepted under two policies, possibly at two times, then the security module's documents
  for one are the documents for the other: the witness of a request that allows software keys
  or an unlocked device is the witness of one that does not.
\<close>

theorem policy_not_attested:
  assumes "verify_attestation (env_crates E) r chain chal p1 t1 = Ok o1"
    and "verify_attestation (env_crates E) r chain chal p2 t2 = Ok o2"
  shows "document_for E state (android_payload o1) d \<longleftrightarrow> document_for E state (android_payload o2) d"
proof -
  have "android_payload o1 = android_payload o2"
  proof -
    from assms obtain leaf1 leaf2 where "android_validate_chain (env_crates E) r chain t1 = Ok leaf1"
      "android_validate_chain (env_crates E) r chain t2 = Ok leaf2"
      "spki_to_der (env_crates E) (public_key_info (tbs leaf1)) = Inr (attested_value o1)"
      "spki_to_der (env_crates E) (public_key_info (tbs leaf2)) = Inr (attested_value o2)"
      "challenge o1 = chal" "challenge o2 = chal" "detail_hash o1 = detail_hash o2"
      by (auto simp: verify_attestation_Ok_iff)
    moreover from this(1,2) have "parse_cert (env_crates E) (hd chain) = Some leaf1"
      "parse_cert (env_crates E) (hd chain) = Some leaf2"
      by (auto dest: android_chain.leaf_is_first)
    ultimately show ?thesis by (simp add: android_payload_def)
  qed
  then show ?thesis by simp
qed

definition lax_policy :: policy where
  "lax_policy = \<lparr>min_security_level = Software, require_verified_boot = False,
     allowed_self_signed_keys = [], require_device_locked = False, policy_status_list = None\<rparr>"

theorem policy_not_attested_witness:
  "\<exists>out. verify_attestation sample_crates [[20]] [[24], [21]] [9] lax_policy 5000 = Ok out
     \<and> verify_attestation sample_crates [[20]] [[24], [21]] [9] sample_policy 5000 = Ok sample_android_outcome
     \<and> document_for sample_env sample_state (android_payload out)
         (sample_nsm_doc (android_payload sample_android_outcome))"
proof -
  have lax: "verify_attestation (env_crates sample_env) [[20]] [[24], [21]] [9] lax_policy 5000
      = Ok sample_android_outcome"
    unfolding sample_env_sel
    by (rule sample_attestation_under) (simp_all add: lax_policy_def less_eq_security_level_def)
  have strict: "verify_attestation (env_crates sample_env) [[20]] [[24], [21]] [9] sample_policy 5000
      = Ok sample_android_outcome"
    unfolding sample_env_sel by (rule sample_attestation)
  from policy_not_attested [OF strict lax] sample_document_for [folded sample_nsm_doc_def]
  show ?thesis using lax strict unfolding sample_env_sel by blast
qed

text \<open>
  C39. The shape of every outcome, given that SHA-256 returns 32 bytes. An App Attest outcome
  carries a 65-byte uncompressed point and belongs to a 32-byte key id; every outcome repeats
  the challenge and the clock it was given, names its source and has a 32-byte detail hash.
\<close>

theorem outcome_shapes:
  assumes "sha256_ok X"
  shows "(case verify_app_attest X root obj key_id chal app_id is_prod t of
       Ok out \<Rightarrow> length (attested_value out) = 65 \<and> hd (attested_value out) = 0x04 \<and> length key_id = 32
         \<and> challenge out = chal \<and> timestamp_ms out = t \<and> length (detail_hash out) = 32
         \<and> source out = ''apple-app-attest''
     | _ \<Rightarrow> True)
    \<and> (case verify_assertion X aobj data key app_id t of
       Ok out \<Rightarrow> attested_value out = key \<and> challenge out = data \<and> timestamp_ms out = t
         \<and> length (detail_hash out) = 32 \<and> source out = ''apple-app-attest-assertion''
     | _ \<Rightarrow> True)
    \<and> (case verify_attestation X roots chain chal p t of
       Ok out \<Rightarrow> challenge out = chal \<and> timestamp_ms out = t \<and> length (detail_hash out) = 32
         \<and> source out = ''android-key-attest''
     | _ \<Rightarrow> True)"
proof -
  have len: "length (sha256 X m) = 32" for m using assms by (simp add: sha256_ok_def)
  have "length (attested_value out) = 65 \<and> hd (attested_value out) = 0x04 \<and> length key_id = 32
         \<and> challenge out = chal \<and> timestamp_ms out = t \<and> length (detail_hash out) = 32
         \<and> source out = ''apple-app-attest''"
    if "verify_app_attest X root obj key_id chal app_id is_prod t = Ok out" for out
    using that
    by (auto simp: verify_app_attest_Ok_iff app_attest_ok_def extract_p256_pk_Ok_iff len source_defs)
  moreover have "attested_value out = key \<and> challenge out = data \<and> timestamp_ms out = t
         \<and> length (detail_hash out) = 32 \<and> source out = ''apple-app-attest-assertion''"
    if "verify_assertion X aobj data key app_id t = Ok out" for out
    using that by (auto simp: verify_assertion_Ok_iff len source_defs)
  moreover have "challenge out = chal \<and> timestamp_ms out = t \<and> length (detail_hash out) = 32
         \<and> source out = ''android-key-attest''"
    if "verify_attestation X roots chain chal p t = Ok out" for out
    using that by (auto simp: verify_attestation_Ok_iff len source_defs)
  ultimately show ?thesis by (simp split: result.split)
qed

lemma sample_sha256_ok: "sha256_ok sample_crates"
  by (auto simp: sha256_ok_def sample_crates_def sample_hash_def min_def)

theorem outcome_shapes_witness:
  "length (sample_hash sample_pk) = 32 \<and> length sample_pk = 65 \<and> sha256_ok sample_crates"
  using outcome_shapes [OF sample_sha256_ok, where root = "[20]" and obj = "[1]"
      and key_id = "sample_hash sample_pk" and chal = "[1, 2, 3]" and app_id = "''app''"
      and is_prod = False and t = 5000]
  by (simp add: sample_app_attest sample_sha256_ok)

end
