(* ===== verification/Device_Binding.thy ===== *)
theory Device_Binding
  imports Bcs Onchain
begin

text \<open>
  The device credential (\<open>move/device_binding/sources/device_binding.move\<close>) and its three
  signature schemes (\<open>move/device_binding_ed25519\<close>, \<open>_secp256k1\<close> and \<open>_secp256r1\<close>). The
  phantom parameters \<open>Source\<close> and \<open>Scheme\<close> are fields here, because the runtime types carry
  them. The native signature checks of Sui and the printed type names are arguments. The
  objects' owners and the life of an object over several transactions are in
  \<open>Binding_Ledger\<close>.
\<close>

section \<open>Data\<close>

text \<open>An \<open>ID\<close> and an account are 32-byte addresses; BCS writes their bytes as they are.\<close>

type_synonym address = "256 word"

text \<open>\<open>Scheme\<close> is any type, too: one of the three curves, or the marker of another package.\<close>

datatype scheme = Ed25519 | Secp256k1 | Secp256r1 | OtherScheme bytes

fun repo_scheme :: "scheme \<Rightarrow> bool" where
  "repo_scheme (OtherScheme n) \<longleftrightarrow> False"
| "repo_scheme sch \<longleftrightarrow> True"

datatype binding_error = EKeyMismatch | EBadSignature

record device_binding =
  binding_source :: witness_source
  binding_scheme :: scheme
  binding_id :: address
  binding_pk :: bytes
  issued_at_ms :: u64

record receipt =
  receipt_scheme :: scheme
  receipt_pk :: bytes
  receipt_message :: bytes

datatype binding_event =
    DeviceBoundEvent address bytes bytes
  | DeviceBindingDestroyedEvent address

text \<open>\<open>type_name::with_defining_ids<T>().into_string().into_bytes()\<close> of the two markers.\<close>

record type_names =
  source_name :: "witness_source \<Rightarrow> bytes"
  scheme_name :: "scheme \<Rightarrow> bytes"

text \<open>
  The natives take signature, key and message; the ECDSA ones also the selector of the hash,
  and a compressed key.
\<close>

record natives =
  ed25519_verify :: "bytes \<Rightarrow> bytes \<Rightarrow> bytes \<Rightarrow> bool"
  secp256k1_verify :: "bytes \<Rightarrow> bytes \<Rightarrow> bytes \<Rightarrow> u8 \<Rightarrow> bool"
  secp256r1_verify :: "bytes \<Rightarrow> bytes \<Rightarrow> bytes \<Rightarrow> u8 \<Rightarrow> bool"

section \<open>The canonical message\<close>

definition MESSAGE_PREFIX :: bytes where
  "MESSAGE_PREFIX = as_bytes ''device_binding::verify_action::v1''"

definition bcs_address :: "address \<Rightarrow> bytes" where
  "bcs_address i = be_bytes 32 (unat i)"

definition bcs_u64 :: "u64 \<Rightarrow> bytes" where
  "bcs_u64 n = rev (be_bytes 8 (unat n))"

definition canonical_message :: "address \<Rightarrow> bytes \<Rightarrow> bytes \<Rightarrow> u64 \<Rightarrow> bytes" where
  "canonical_message i domain action_hash expiry =
     MESSAGE_PREFIX @ domain @ bcs_address i @ action_hash @ bcs_u64 expiry"

definition action_message :: "device_binding \<Rightarrow> bytes \<Rightarrow> bytes \<Rightarrow> u64 \<Rightarrow> bytes" where
  "action_message b domain action_hash expiry =
     canonical_message (binding_id b) domain action_hash expiry"

section \<open>Operations\<close>

definition verified :: "scheme \<Rightarrow> bytes \<Rightarrow> bytes \<Rightarrow> receipt" where
  "verified sch pk message = \<lparr>receipt_scheme = sch, receipt_pk = pk, receipt_message = message\<rparr>"

text \<open>\<open>new\<close>: the identifier is the fresh one of \<open>object::new\<close>, the time that of the clock.\<close>

definition new_binding :: "type_names \<Rightarrow> attestation_witness \<Rightarrow> scheme \<Rightarrow> bytes \<Rightarrow> u64 \<Rightarrow> address
    \<Rightarrow> (device_binding \<times> binding_event, binding_error) result" where
  "new_binding names w sch pk now i =
     (if pk \<noteq> witness_attested_value w then Err EKeyMismatch
      else Ok (\<lparr>binding_source = witness_of w, binding_scheme = sch, binding_id = i,
                binding_pk = pk, issued_at_ms = now\<rparr>,
               DeviceBoundEvent i (source_name names (witness_of w)) (scheme_name names sch)))"

definition verify_action :: "device_binding \<Rightarrow> receipt \<Rightarrow> bytes \<Rightarrow> bytes \<Rightarrow> u64 \<Rightarrow> u64 \<Rightarrow> bool" where
  "verify_action b r domain action_hash expiry now \<longleftrightarrow>
     now \<le> expiry \<and> receipt_pk r = binding_pk b
     \<and> receipt_message r = canonical_message (binding_id b) domain action_hash expiry"

definition destroy_event :: "device_binding \<Rightarrow> binding_event" where
  "destroy_event b = DeviceBindingDestroyedEvent (binding_id b)"

section \<open>The schemes\<close>

definition SHA256_SELECTOR :: u8 where "SHA256_SELECTOR = 1"

text \<open>The loop \<open>while (i <= 32)\<close>; \<open>borrow\<close> aborts when the index is out of range.\<close>

function copy_x :: "bytes \<Rightarrow> nat \<Rightarrow> bytes \<Rightarrow> (bytes, binding_error) result" where
  "copy_x key i out =
     (if i \<le> 32 then and_then (index key i) (\<lambda>b. copy_x key (i + 1) (out @ [b])) else Ok out)"
  by pat_completeness auto
termination by (relation "measure (\<lambda>(key, i, out). 33 - i)") auto

declare copy_x.simps [simp del]

definition compress :: "bytes \<Rightarrow> (bytes, binding_error) result" where
  "compress uncompressed =
     and_then (index uncompressed 64) (\<lambda>y.
     let parity = y mod 2; prefix = 2 + parity in
     copy_x uncompressed 1 [prefix])"

definition ed25519_scheme_verify :: "natives \<Rightarrow> bytes \<Rightarrow> bytes \<Rightarrow> bytes \<Rightarrow> (receipt, binding_error) result" where
  "ed25519_scheme_verify N pk message sig =
     (if \<not> ed25519_verify N sig pk message then Err EBadSignature
      else Ok (verified Ed25519 pk message))"

definition secp256k1_scheme_verify :: "natives \<Rightarrow> bytes \<Rightarrow> bytes \<Rightarrow> bytes \<Rightarrow> (receipt, binding_error) result" where
  "secp256k1_scheme_verify N pk message sig =
     and_then (compress pk) (\<lambda>key.
     if \<not> secp256k1_verify N sig key message SHA256_SELECTOR then Err EBadSignature
     else Ok (verified Secp256k1 pk message))"

definition secp256r1_scheme_verify :: "natives \<Rightarrow> bytes \<Rightarrow> bytes \<Rightarrow> bytes \<Rightarrow> (receipt, binding_error) result" where
  "secp256r1_scheme_verify N pk message sig =
     and_then (compress pk) (\<lambda>key.
     if \<not> secp256r1_verify N sig key message SHA256_SELECTOR then Err EBadSignature
     else Ok (verified Secp256r1 pk message))"

text \<open>The \<open>verify\<close> of a scheme of this repository; for another marker there is none to return from.\<close>

fun scheme_verify :: "natives \<Rightarrow> scheme \<Rightarrow> bytes \<Rightarrow> bytes \<Rightarrow> bytes \<Rightarrow> (receipt, binding_error) result" where
  "scheme_verify N Ed25519 = ed25519_scheme_verify N"
| "scheme_verify N Secp256k1 = secp256k1_scheme_verify N"
| "scheme_verify N Secp256r1 = secp256r1_scheme_verify N"
| "scheme_verify N (OtherScheme n) = (\<lambda>pk message sig. Panic)"

section \<open>What a message determines\<close>

lemma length_bcs_address [simp]: "length (bcs_address i) = 32"
  by (simp add: bcs_address_def)

lemma length_bcs_u64 [simp]: "length (bcs_u64 n) = 8"
  by (simp add: bcs_u64_def)

lemma be_bytes_inject: "m < 256 ^ k \<Longrightarrow> n < 256 ^ k \<Longrightarrow> be_bytes k m = be_bytes k n \<Longrightarrow> m = n"
  by (metis be_nat_be_bytes mod_less)

lemma bcs_address_eq_iff [simp]: "bcs_address i = bcs_address j \<longleftrightarrow> i = j"
proof
  assume "bcs_address i = bcs_address j"
  moreover have "unat (k :: address) < 256 ^ 32" for k
    using unsigned_less [of k, where ?'a = nat] by simp
  ultimately show "i = j"
    unfolding bcs_address_def by (blast intro: be_bytes_inject unat_inject)
qed simp

lemma bcs_u64_eq_iff [simp]: "bcs_u64 m = bcs_u64 n \<longleftrightarrow> m = n"
proof
  assume "bcs_u64 m = bcs_u64 n"
  then have "be_bytes 8 (unat m) = be_bytes 8 (unat n)" by (simp add: bcs_u64_def)
  moreover have "unat (k :: u64) < 256 ^ 8" for k
    using unsigned_less [of k, where ?'a = nat] by simp
  ultimately show "m = n" by (blast intro: be_bytes_inject unat_inject)
qed simp

lemma canonical_message_eq_iff:
  "canonical_message i d a e = canonical_message j d' a' e' \<longleftrightarrow>
     e = e' \<and> d @ bcs_address i @ a = d' @ bcs_address j @ a'"
proof -
  have "canonical_message i d a e = canonical_message j d' a' e' \<longleftrightarrow>
      (d @ bcs_address i @ a) @ bcs_u64 e = (d' @ bcs_address j @ a') @ bcs_u64 e'"
    by (simp add: canonical_message_def)
  then show ?thesis by (subst (asm) append_eq_append_conv) auto
qed

lemma canonical_message_inject:
  assumes "length d = length d'"
  shows "canonical_message i d a e = canonical_message j d' a' e' \<longleftrightarrow> i = j \<and> d = d' \<and> a = a' \<and> e = e'"
  using assms by (auto simp: canonical_message_eq_iff append_eq_append_conv)

section \<open>Compressed keys\<close>

lemma copy_x_eq:
  "i \<le> 33 \<Longrightarrow> 33 \<le> length key \<Longrightarrow> copy_x key i out = Ok (out @ take (33 - i) (drop i key))"
proof (induction key i out rule: copy_x.induct)
  case (1 key i out)
  show ?case
  proof (cases "i \<le> 32")
    case True
    with 1 have "copy_x key (i + 1) (out @ [key ! i])
        = Ok ((out @ [key ! i]) @ take (33 - (i + 1)) (drop (i + 1) key))"
      by (simp add: index_def)
    moreover from True 1 have "33 - i = Suc (32 - i)" "drop i key = key ! i # drop (i + 1) key"
      by (auto simp: Cons_nth_drop_Suc)
    ultimately show ?thesis
      using True 1 by (simp add: copy_x.simps [of key i] index_def)
  next
    case False
    with 1 show ?thesis by (simp add: copy_x.simps [of key i])
  qed
qed

lemma compress_eq:
  "compress key = (if length key \<le> 64 then Panic
                   else Ok ((2 + key ! 64 mod 2) # take 32 (drop 1 key)))"
  by (simp add: compress_def index_def copy_x_eq)

lemma prefix_of_parity: "2 + (y :: u8) mod 2 = (if even (unat y) then 2 else 3)"
proof -
  have "y mod 2 = word_of_nat (unat y mod 2)" by (simp add: word_arith_nat_mod)
  then show ?thesis by (cases "even (unat y)") (simp_all add: odd_iff_mod_2_eq_one)
qed

text \<open>A key of 65 bytes, \<open>0x04\<close>, the X and the Y coordinate, in its SEC1 form.\<close>

lemma compress_x963:
  assumes "length X = 32" "length Y = 32"
  shows "compress (4 # X @ Y) = Ok ((if even (unat (last Y)) then 2 else 3) # X)"
proof -
  have "Y ! 31 = last Y" using assms(2) by (subst last_conv_nth) auto
  with assms show ?thesis by (simp add: compress_eq nth_append prefix_of_parity)
qed

section \<open>The contract of a scheme\<close>

text \<open>
  What the module relies on: a receipt exists exactly for a signature that the scheme's native
  accepts, and it names the key and the message that were checked.
\<close>

locale signature_scheme =
  fixes check :: "bytes \<Rightarrow> bytes \<Rightarrow> bytes \<Rightarrow> (receipt, binding_error) result"
    and sch :: scheme
    and signed :: "bytes \<Rightarrow> bytes \<Rightarrow> bytes \<Rightarrow> bool"
  assumes check_Ok_iff: "check pk message sig = Ok r \<longleftrightarrow> signed pk message sig \<and> r = verified sch pk message"
begin

lemma authorises_iff:
  "(\<exists>r. check pk message sig = Ok r \<and> verify_action b r domain action_hash expiry now) \<longleftrightarrow>
     now \<le> expiry \<and> pk = binding_pk b \<and> message = action_message b domain action_hash expiry
     \<and> signed pk message sig"
  by (auto simp: check_Ok_iff verify_action_def verified_def action_message_def)

text \<open>A signature authorizes one action of one binding, as far as domains have a fixed length.\<close>

lemma authorises_one_action:
  assumes "check pk message sig = Ok r" "length domain = length domain'"
    and "verify_action b r domain action_hash expiry now"
    and "verify_action b' r domain' action_hash' expiry' now'"
  shows "binding_id b' = binding_id b \<and> domain' = domain \<and> action_hash' = action_hash \<and> expiry' = expiry"
  using assms canonical_message_inject [OF assms(2)] by (auto simp: verify_action_def)

end

definition native_ok :: "natives \<Rightarrow> scheme \<Rightarrow> bytes \<Rightarrow> bytes \<Rightarrow> bytes \<Rightarrow> bool" where
  "native_ok N sch pk message sig \<longleftrightarrow>
     (case sch of
        Ed25519 \<Rightarrow> ed25519_verify N sig pk message
      | Secp256k1 \<Rightarrow> (case compress pk of Ok key \<Rightarrow> secp256k1_verify N sig key message 1 | _ \<Rightarrow> False)
      | Secp256r1 \<Rightarrow> (case compress pk of Ok key \<Rightarrow> secp256r1_verify N sig key message 1 | _ \<Rightarrow> False)
      | OtherScheme n \<Rightarrow> False)"

interpretation ed25519: signature_scheme "ed25519_scheme_verify N" Ed25519 "native_ok N Ed25519" for N
  by unfold_locales (auto simp: ed25519_scheme_verify_def native_ok_def)

interpretation secp256k1: signature_scheme "secp256k1_scheme_verify N" Secp256k1 "native_ok N Secp256k1"
  for N
  by unfold_locales
    (auto simp: secp256k1_scheme_verify_def native_ok_def and_then_Ok_iff SHA256_SELECTOR_def
      split: result.splits)

interpretation secp256r1: signature_scheme "secp256r1_scheme_verify N" Secp256r1 "native_ok N Secp256r1"
  for N
  by unfold_locales
    (auto simp: secp256r1_scheme_verify_def native_ok_def and_then_Ok_iff SHA256_SELECTOR_def
      split: result.splits)

text \<open>The schemes behind one name, as a binding selects them.\<close>

interpretation any_scheme: signature_scheme "scheme_verify N sch" sch "native_ok N sch" for N sch
  by (cases sch; unfold_locales)
    (simp_all add: ed25519.check_Ok_iff secp256k1.check_Ok_iff secp256r1.check_Ok_iff, simp add: native_ok_def)

section \<open>Golden vectors\<close>

text \<open>The keys of the tests of the ECDSA packages: both parities.\<close>

definition K1_TEST_PK :: bytes where
  "K1_TEST_PK = be_bytes 65 0x04802ce867524d4ca1c63e78983a4838c3b37395bb8febf54253791654e4c8e2d12e8dc010ac3d83ad3b5292d89f5c0aea218f424da6652b6f7f5914f7dd36ce69"

definition K1_EVEN_PK :: bytes where
  "K1_EVEN_PK = be_bytes 65 0x0443d057d259541d6ff623dde35acf20d73528710da02e5162faf7a44c2cc7d9c2b6b7b506bf843818ed4dc4d049b2699effa6a57da4b3e16b4fc0a7f4cafb103e"

definition R1_TEST_PK :: bytes where
  "R1_TEST_PK = be_bytes 65 0x041c7650d32da9bd74ce2acad51fad14f7dd2359511cdb2dea24dd256ef70655d96c6522ceceb15d5b923d78ca4ad2d6b0b60a20fedba20cc6b725228afba5f9e7"

definition R1_EVEN_PK :: bytes where
  "R1_EVEN_PK = be_bytes 65 0x040102030405060708090a0b0c0d0e0f101112131415161718191a1b1c1d1e1f202122232425262728292a2b2c2d2e2f303132333435363738393a3b3c3d3e3f40"

lemma compress_test_vectors:
  "compress K1_TEST_PK
     = Ok (be_bytes 33 0x03802ce867524d4ca1c63e78983a4838c3b37395bb8febf54253791654e4c8e2d1)"
  "compress K1_EVEN_PK
     = Ok (be_bytes 33 0x0243d057d259541d6ff623dde35acf20d73528710da02e5162faf7a44c2cc7d9c2)"
  "compress R1_TEST_PK
     = Ok (be_bytes 33 0x031c7650d32da9bd74ce2acad51fad14f7dd2359511cdb2dea24dd256ef70655d9)"
  "compress R1_EVEN_PK
     = Ok (be_bytes 33 0x020102030405060708090a0b0c0d0e0f101112131415161718191a1b1c1d1e1f20)"
  by (simp_all add: compress_eq K1_TEST_PK_def K1_EVEN_PK_def R1_TEST_PK_def R1_EVEN_PK_def
      be_bytes_numeral)

section \<open>Properties\<close>

text \<open>
  C30. What a signed message says. As long as the consumers' domains have the same length, the
  canonical message determines the binding, the domain, the action and the expiry, so a
  signature authorizes one action of one binding only.
\<close>

theorem message_determines_action:
  assumes "length domain = length domain'"
  shows "action_message b domain action_hash expiry = action_message b' domain' action_hash' expiry'
     \<longleftrightarrow> binding_id b = binding_id b' \<and> domain = domain' \<and> action_hash = action_hash' \<and> expiry = expiry'"
  unfolding action_message_def by (rule canonical_message_inject [OF assms])

definition sample_binding :: device_binding where
  "sample_binding = \<lparr>binding_source = AppleAppAttest, binding_scheme = Ed25519, binding_id = 7,
     binding_pk = [1, 2], issued_at_ms = 100\<rparr>"

theorem message_determines_action_witness:
  "action_message sample_binding [1] [2] 3 \<noteq> action_message (sample_binding\<lparr>binding_id := 8\<rparr>) [1] [2] 3"
  using message_determines_action [of "[1]" "[1]" sample_binding "[2]" 3
      "sample_binding\<lparr>binding_id := 8\<rparr>" "[2]" 3]
  by (simp add: sample_binding_def)

text \<open>
  C31. The message is not unambiguous by itself: neither domain nor action carries its length.
  The receipt of a binding for an action that contains the identifier of another binding with
  the same key is the receipt of the other binding for another domain and another action, and
  the two bindings may be the same one.
\<close>

theorem receipt_crosses_bindings:
  "verify_action b r domain (extra @ bcs_address j @ action_hash) expiry now
     = verify_action (b\<lparr>binding_id := j\<rparr>) r (domain @ bcs_address (binding_id b) @ extra) action_hash
         expiry now"
  by (simp add: verify_action_def canonical_message_def)

text \<open>
  The SubjectPublicKeyInfo of a P-256 key: this header and the uncompressed point. It is the
  attested value of an Android witness.
\<close>

definition P256_SPKI_HEADER :: bytes where
  "P256_SPKI_HEADER = [0x30, 0x59, 0x30, 0x13, 0x06, 0x07, 0x2a, 0x86, 0x48, 0xce, 0x3d, 0x02, 0x01,
     0x06, 0x08, 0x2a, 0x86, 0x48, 0xce, 0x3d, 0x03, 0x01, 0x07, 0x03, 0x42, 0x00]"

lemma compress_spki:
  assumes "length X = 32" "length Y = 32"
  shows "compress (P256_SPKI_HEADER @ 4 # X @ Y)
     = Ok ((if even (unat (Y ! 5)) then 2 else 3) # drop 1 P256_SPKI_HEADER @ 4 # take 6 X)"
proof -
  have "length P256_SPKI_HEADER = 26" by (simp add: P256_SPKI_HEADER_def)
  then show ?thesis using assms by (simp add: compress_eq nth_append prefix_of_parity)
qed

text \<open>
  C32. The P-256 scheme reads every key as an uncompressed point. For the point of an Apple
  attestation the native is asked about its SEC1 form. For the attested value of an Android
  key, a SubjectPublicKeyInfo, it is asked about bytes of the header with six bytes of the X
  coordinate, which is not the device's key.
\<close>

theorem p256_key_forms:
  assumes "length X = 32" "length Y = 32"
  shows "scheme_verify N Secp256r1 (4 # X @ Y) message sig
           = (if secp256r1_verify N sig ((if even (unat (last Y)) then 2 else 3) # X) message 1
              then Ok (verified Secp256r1 (4 # X @ Y) message) else Err EBadSignature)
   \<and> scheme_verify N Secp256r1 (P256_SPKI_HEADER @ 4 # X @ Y) message sig
           = (if secp256r1_verify N sig
                ((if even (unat (Y ! 5)) then 2 else 3) # drop 1 P256_SPKI_HEADER @ 4 # take 6 X) message 1
              then Ok (verified Secp256r1 (P256_SPKI_HEADER @ 4 # X @ Y) message) else Err EBadSignature)"
  using assms
  by (simp add: secp256r1_scheme_verify_def SHA256_SELECTOR_def compress_x963 compress_spki)

definition accept_key :: "bytes \<Rightarrow> natives" where
  "accept_key k = \<lparr>ed25519_verify = (\<lambda>sig key m. key = k), secp256k1_verify = (\<lambda>sig key m h. key = k),
     secp256r1_verify = (\<lambda>sig key m h. key = k)\<rparr>"

theorem p256_key_forms_witness:
  "is_ok (scheme_verify (accept_key (3 # replicate 32 9)) Secp256r1
     (4 # replicate 32 9 @ replicate 32 5) [1] [2])
   \<and> scheme_verify (accept_key (3 # replicate 32 9)) Secp256r1
       (P256_SPKI_HEADER @ 4 # replicate 32 9 @ replicate 32 5) [1] [2] = Err EBadSignature"
  using p256_key_forms [of "replicate 32 9" "replicate 32 5" "accept_key (3 # replicate 32 9)" "[1]" "[2]"]
  by (simp add: accept_key_def P256_SPKI_HEADER_def replicate_numeral)

end
