(* ===== verification/Binding_Ledger.thy ===== *)
theory Binding_Ledger
  imports Device_Binding "HOL-Library.Multiset"
begin

text \<open>
  The life of device credentials on chain: the objects, who owns them, and the transactions
  that call the operations of \<open>Device_Binding\<close> and the verifiers of \<open>Onchain\<close>. The rules of
  Sui and Move that the modules rely on are the premises of the steps: an owned object enters
  a transaction of its owner only, a value without \<open>drop\<close> has to be transferred or destroyed
  before the transaction ends and one without \<open>store\<close> is gone when it ends, \<open>object::new\<close> returns
  an identifier that was never used, a witness and a receipt are moved into the call that consumes
  them and cannot be copied, a marker can be made by its own package only, and an aborted call
  leaves no trace, hence has no step. Other packages take part: \<open>witness::new\<close>, \<open>verified\<close> and \<open>new\<close>
  are public and generic, so any of them may mint witnesses and receipts under markers of its own,
  with any content, and enrol a binding with any scheme.
\<close>

section \<open>State and steps\<close>

text \<open>
  \<open>hand\<close> holds the bindings that the running transaction has by value, \<open>receipts\<close> its receipts,
  and \<open>witnesses\<close> the attestation witnesses not yet consumed (they have \<open>store\<close>, so anybody may
  keep them).
\<close>

record ledger =
  owned :: "address \<Rightarrow> (address \<times> device_binding) option"
  hand :: "device_binding list"
  receipts :: "receipt list"
  tx_sender :: address
  minted :: "address set"
  witnesses :: "attestation_witness list"
  emitted :: "binding_event list"
  clock_ms :: u64

record chain =
  chain_sha :: "bytes \<Rightarrow> bytes"
  chain_policy :: enclave_policy
  chain_natives :: natives
  chain_names :: type_names

definition genesis :: "address \<Rightarrow> u64 \<Rightarrow> ledger" where
  "genesis a t = \<lparr>owned = (\<lambda>_. None), hand = [], receipts = [], tx_sender = a, minted = {}, witnesses = [],
     emitted = [], clock_ms = t\<rparr>"

text \<open>
  The three \<open>verify\<close> functions; an assertion has no detail hash among its arguments. None returns
  a witness with another marker.
\<close>

fun redeem :: "chain \<Rightarrow> witness_source \<Rightarrow> nitro_document \<Rightarrow> bytes \<Rightarrow> bytes \<Rightarrow> bytes \<Rightarrow> u64
    \<Rightarrow> (attestation_witness, move_error) result" where
  "redeem C AppleAppAttest doc v c h now =
     apple_attestation_verify (chain_sha C) (chain_policy C) doc v c h now"
| "redeem C AndroidKeyAttestation doc v c h now =
     android_attestation_verify (chain_sha C) (chain_policy C) doc v c h now"
| "redeem C AppleAssertionSource doc v c h now =
     apple_assertion_verify (chain_sha C) (chain_policy C) doc v c now"
| "redeem C (OtherSource n) doc v c h now = Panic"

definition transfer_to :: "device_binding \<Rightarrow> address \<Rightarrow> ledger \<Rightarrow> ledger" where
  "transfer_to b recipient L =
     L\<lparr>hand := remove1 b (hand L), owned := (owned L)(binding_id b \<mapsto> (recipient, b))\<rparr>"

definition destroy :: "device_binding \<Rightarrow> ledger \<Rightarrow> ledger" where
  "destroy b L = L\<lparr>hand := remove1 b (hand L), emitted := emitted L @ [destroy_event b]\<rparr>"

definition enrol :: "attestation_witness \<Rightarrow> device_binding \<times> binding_event \<Rightarrow> ledger \<Rightarrow> ledger" where
  "enrol w made L =
     L\<lparr>witnesses := remove1 w (witnesses L), hand := fst made # hand L,
       minted := insert (binding_id (fst made)) (minted L), emitted := emitted L @ [snd made]\<rparr>"

definition reachable_by_sender :: "ledger \<Rightarrow> device_binding \<Rightarrow> bool" where
  "reachable_by_sender L b \<longleftrightarrow>
     b \<in> set (hand L) \<or> owned L (binding_id b) = Some (tx_sender L, b)"

datatype action =
    BeginTx address
  | Redeem witness_source nitro_document bytes bytes bytes attestation_witness
  | MintWitness bytes bytes bytes u64 bytes
  | DropWitness attestation_witness
  | Enrol attestation_witness scheme bytes address
  | TakeOwned address
  | TransferTo device_binding address
  | Destroy device_binding
  | CheckSignature scheme bytes bytes bytes
  | MintReceipt bytes bytes bytes
  | Authorise device_binding receipt bytes bytes u64 bool
  | Tick u64

inductive ledger_step :: "chain \<Rightarrow> ledger \<Rightarrow> action \<Rightarrow> ledger \<Rightarrow> bool" for C where
  begin_tx: "hand L = [] \<Longrightarrow> ledger_step C L (BeginTx a) (L\<lparr>tx_sender := a, receipts := []\<rparr>)"
| redeemed: "redeem C src doc v c h (clock_ms L) = Ok w
    \<Longrightarrow> ledger_step C L (Redeem src doc v c h w) (L\<lparr>witnesses := w # witnesses L\<rparr>)"
| witness_minted: "ledger_step C L (MintWitness n v c ts h)
    (L\<lparr>witnesses := new_witness (OtherSource n) v c ts h # witnesses L\<rparr>)"
| drop_witness: "w \<in> set (witnesses L)
    \<Longrightarrow> ledger_step C L (DropWitness w) (L\<lparr>witnesses := remove1 w (witnesses L)\<rparr>)"
| enrolled: "w \<in> set (witnesses L) \<Longrightarrow> i \<notin> minted L
    \<Longrightarrow> new_binding (chain_names C) w sch pk (clock_ms L) i = Ok made
    \<Longrightarrow> ledger_step C L (Enrol w sch pk i) (enrol w made L)"
| take_owned: "owned L i = Some (tx_sender L, b)
    \<Longrightarrow> ledger_step C L (TakeOwned i) (L\<lparr>owned := (owned L)(i := None), hand := b # hand L\<rparr>)"
| transferred: "b \<in> set (hand L) \<Longrightarrow> ledger_step C L (TransferTo b r) (transfer_to b r L)"
| destroyed: "b \<in> set (hand L) \<Longrightarrow> ledger_step C L (Destroy b) (destroy b L)"
| signature_checked: "scheme_verify (chain_natives C) sch pk message sig = Ok r
    \<Longrightarrow> ledger_step C L (CheckSignature sch pk message sig) (L\<lparr>receipts := r # receipts L\<rparr>)"
| receipt_minted: "ledger_step C L (MintReceipt n pk message)
    (L\<lparr>receipts := verified (OtherScheme n) pk message # receipts L\<rparr>)"
| authorised: "reachable_by_sender L b \<Longrightarrow> r \<in> set (receipts L) \<Longrightarrow> receipt_scheme r = binding_scheme b
    \<Longrightarrow> ok = verify_action b r domain action_hash expiry (clock_ms L)
    \<Longrightarrow> ledger_step C L (Authorise b r domain action_hash expiry ok) (L\<lparr>receipts := remove1 r (receipts L)\<rparr>)"
| tick: "clock_ms L \<le> t \<Longrightarrow> ledger_step C L (Tick t) (L\<lparr>clock_ms := t\<rparr>)"

inductive_cases ledger_step_AuthoriseE: "ledger_step C L (Authorise b r d a e ok) L'"

inductive ledger_run :: "chain \<Rightarrow> ledger \<Rightarrow> action list \<Rightarrow> ledger \<Rightarrow> bool" for C where
  ledger_nil: "ledger_run C L [] L"
| ledger_snoc: "ledger_run C L acts L' \<Longrightarrow> ledger_step C L' act L'' \<Longrightarrow> ledger_run C L (acts @ [act]) L''"

section \<open>The invariant\<close>

fun redeemed_by :: "action \<Rightarrow> attestation_witness multiset" where
  "redeemed_by (Redeem src doc v c h w) = {#w#}"
| "redeemed_by act = {#}"

text \<open>Every way to make a witness: a redeemed document, or another package.\<close>

fun created_by :: "action \<Rightarrow> attestation_witness multiset" where
  "created_by (Redeem src doc v c h w) = {#w#}"
| "created_by (MintWitness n v c ts h) = {#new_witness (OtherSource n) v c ts h#}"
| "created_by act = {#}"

fun enrolled_by :: "action \<Rightarrow> (address \<times> attestation_witness) list" where
  "enrolled_by (Enrol w sch pk i) = [(i, w)]"
| "enrolled_by act = []"

definition redemptions :: "action list \<Rightarrow> attestation_witness multiset" where
  "redemptions acts = \<Sum>\<^sub># (mset (map redeemed_by acts))"

definition created :: "action list \<Rightarrow> attestation_witness multiset" where
  "created acts = \<Sum>\<^sub># (mset (map created_by acts))"

definition enrolments :: "action list \<Rightarrow> (address \<times> attestation_witness) list" where
  "enrolments acts = concat (map enrolled_by acts)"

definition live :: "ledger \<Rightarrow> device_binding set" where
  "live L = set (hand L) \<union> snd ` ran (owned L)"

text \<open>A binding is the record of one enrolment.\<close>

definition comes_from :: "action list \<Rightarrow> device_binding \<Rightarrow> bool" where
  "comes_from acts b \<longleftrightarrow> (\<exists>w. (binding_id b, w) \<in> set (enrolments acts)
     \<and> binding_pk b = witness_attested_value w \<and> binding_source b = witness_of w)"

definition ledger_inv :: "action list \<Rightarrow> ledger \<Rightarrow> bool" where
  "ledger_inv acts L \<longleftrightarrow>
     distinct (map binding_id (hand L))
     \<and> (\<forall>b \<in> set (hand L). owned L (binding_id b) = None)
     \<and> (\<forall>i a b. owned L i = Some (a, b) \<longrightarrow> binding_id b = i)
     \<and> (\<forall>b \<in> live L. comes_from acts b)
     \<and> fst ` set (enrolments acts) = minted L \<and> distinct (map fst (enrolments acts))
     \<and> mset (map snd (enrolments acts)) + mset (witnesses L) \<subseteq># created acts"

lemma redemptions_snoc [simp]: "redemptions (acts @ [act]) = redemptions acts + redeemed_by act"
  by (simp add: redemptions_def)

lemma created_snoc [simp]: "created (acts @ [act]) = created acts + created_by act"
  by (simp add: created_def)

text \<open>Only a redemption makes a witness with a marker of this repository.\<close>

lemma created_repo: "filter_mset (\<lambda>w. repo_source (witness_of w)) (created acts) \<subseteq># redemptions acts"
proof (induction acts rule: rev_induct)
  case Nil
  then show ?case by (simp add: created_def)
next
  case (snoc act acts)
  have "filter_mset (\<lambda>w. repo_source (witness_of w)) (created_by act) \<subseteq># redeemed_by act"
    by (cases act) (simp_all add: new_witness_def)
  with snoc show ?case by (simp add: subset_mset.add_mono)
qed

lemma enrolments_snoc [simp]: "enrolments (acts @ [act]) = enrolments acts @ enrolled_by act"
  by (simp add: enrolments_def)

lemma comes_from_snoc: "comes_from acts b \<Longrightarrow> comes_from (acts @ [act]) b"
  by (auto simp: comes_from_def)

lemma ledger_invD:
  assumes "ledger_inv acts L"
  shows "distinct (map binding_id (hand L))"
    and "b \<in> set (hand L) \<Longrightarrow> owned L (binding_id b) = None"
    and "owned L i = Some (a, b) \<Longrightarrow> binding_id b = i"
    and "b \<in> live L \<Longrightarrow> comes_from acts b"
    and "fst ` set (enrolments acts) = minted L"
    and "distinct (map fst (enrolments acts))"
    and "mset (map snd (enrolments acts)) + mset (witnesses L) \<subseteq># created acts"
  using assms by (auto simp: ledger_inv_def)

text \<open>Steps that enrol nobody and leave the mint alone.\<close>

lemma ledger_invI_live:
  assumes inv: "ledger_inv acts L" and act: "enrolled_by act = []"
    and minted: "minted L' = minted L" and live: "live L' \<subseteq> live L"
    and wit: "mset (witnesses L') \<subseteq># mset (witnesses L) + created_by act"
    and hand: "distinct (map binding_id (hand L'))"
      "\<And>b. b \<in> set (hand L') \<Longrightarrow> owned L' (binding_id b) = None"
      "\<And>i a b. owned L' i = Some (a, b) \<Longrightarrow> binding_id b = i"
  shows "ledger_inv (acts @ [act]) L'"
proof -
  have "mset (map snd (enrolments acts)) + mset (witnesses L')
      \<subseteq># mset (map snd (enrolments acts)) + mset (witnesses L) + created_by act"
    using wit by (simp add: add.assoc)
  also have "\<dots> \<subseteq># created acts + created_by act"
    using ledger_invD(7) [OF inv] by simp
  finally have "mset (map snd (enrolments acts)) + mset (witnesses L')
      \<subseteq># created acts + created_by act" .
  moreover have "\<forall>b \<in> live L'. comes_from (acts @ [act]) b"
    using live ledger_invD(4) [OF inv] by (blast intro: comes_from_snoc)
  ultimately show ?thesis
    using act minted hand ledger_invD(5,6) [OF inv] by (simp add: ledger_inv_def)
qed

lemma hand_remove1:
  assumes "ledger_inv acts L" "b \<in> set (hand L)"
  shows "set (remove1 b (hand L)) = set (hand L) - {b}"
    and "c \<in> set (remove1 b (hand L)) \<Longrightarrow> binding_id c \<noteq> binding_id b"
proof -
  have inj: "inj_on binding_id (set (hand L))" and d: "distinct (hand L)"
    using ledger_invD(1) [OF assms(1)] by (auto simp: distinct_map)
  then show r: "set (remove1 b (hand L)) = set (hand L) - {b}" by simp
  show "binding_id c \<noteq> binding_id b" if "c \<in> set (remove1 b (hand L))"
    using that inj assms(2) unfolding r by (auto dest: inj_onD)
qed

lemma distinct_remove1_map: "distinct (map f xs) \<Longrightarrow> distinct (map f (remove1 x xs))"
  by (simp add: distinct_map inj_on_diff)

text \<open>Every owned binding is stored under its own identifier, so the live ones are found there.\<close>

lemma live_iff:
  assumes "ledger_inv acts L"
  shows "b \<in> live L \<longleftrightarrow> b \<in> set (hand L) \<or> (\<exists>a. owned L (binding_id b) = Some (a, b))"
proof -
  have "b \<in> snd ` ran (owned L) \<longleftrightarrow> (\<exists>i a. owned L i = Some (a, b))"
    by (auto simp: ran_def image_iff)
  also have "\<dots> \<longleftrightarrow> (\<exists>a. owned L (binding_id b) = Some (a, b))"
  proof
    assume "\<exists>i a. owned L i = Some (a, b)"
    then obtain i a where o: "owned L i = Some (a, b)" by blast
    then have "binding_id b = i" by (rule ledger_invD(3) [OF assms])
    with o show "\<exists>a. owned L (binding_id b) = Some (a, b)" by blast
  qed blast
  finally show ?thesis by (simp add: live_def)
qed

lemma ran_remove:
  assumes "m k = Some v" "\<And>i. m i = Some v \<Longrightarrow> i = k"
  shows "ran (m(k := None)) = ran m - {v}"
proof (rule set_eqI)
  fix x
  have "(\<exists>i. (m(k := None)) i = Some x) \<longleftrightarrow> (\<exists>i. m i = Some x) \<and> x \<noteq> v"
    using assms by (metis fun_upd_apply option.distinct(1) option.inject)
  then show "x \<in> ran (m(k := None)) \<longleftrightarrow> x \<in> ran m - {v}" by (simp add: ran_def)
qed

lemma live_transfer_to:
  assumes "ledger_inv acts L" "b \<in> set (hand L)"
  shows "live (transfer_to b r L) = live L"
proof -
  have "ran (owned (transfer_to b r L)) = insert (r, b) (ran (owned L))"
    using ledger_invD(2) [OF assms] by (simp add: transfer_to_def ran_map_upd)
  with assms(2) show ?thesis
    by (auto simp: live_def transfer_to_def hand_remove1 [OF assms])
qed

lemma live_destroy:
  assumes "ledger_inv acts L" "b \<in> set (hand L)"
  shows "live (destroy b L) = live L - {b}"
proof -
  have "b \<notin> snd ` ran (owned L)"
    using ledger_invD(2) [OF assms] ledger_invD(3) [OF assms(1)] by (force simp: ran_def)
  then show ?thesis by (auto simp: live_def destroy_def hand_remove1 [OF assms])
qed

lemma live_take:
  assumes "ledger_inv acts L" "owned L i = Some (a, b)"
  shows "live (L\<lparr>owned := (owned L)(i := None), hand := b # hand L\<rparr>) = live L"
proof -
  have "ran ((owned L)(i := None)) = ran (owned L) - {(a, b)}"
  proof (rule ran_remove [where m = "owned L", OF assms(2)])
    show "j = i" if "owned L j = Some (a, b)" for j
      using ledger_invD(3) [OF assms(1) that] ledger_invD(3) [OF assms] by simp
  qed
  moreover have "(a, b) \<in> ran (owned L)" using assms(2) by (rule ranI)
  then have "snd ` ran (owned L) = insert b (snd ` (ran (owned L) - {(a, b)}))"
    by (metis image_insert insert_Diff snd_conv)
  ultimately show ?thesis by (simp add: live_def)
qed

lemma live_enrol: "live (enrol w made L) = insert (fst made) (live L)"
  by (simp add: live_def enrol_def)

lemma live_inj:
  assumes "ledger_inv acts L"
  shows "inj_on binding_id (live L)"
proof (rule inj_onI)
  fix b c
  assume "b \<in> live L" "c \<in> live L" and eq: "binding_id b = binding_id c"
  then have b: "b \<in> set (hand L) \<or> (\<exists>a. owned L (binding_id b) = Some (a, b))"
    and c: "c \<in> set (hand L) \<or> (\<exists>a. owned L (binding_id b) = Some (a, c))"
    unfolding live_iff [OF assms] by simp_all
  show "b = c"
  proof (cases "owned L (binding_id b)")
    case None
    with b c have "b \<in> set (hand L)" "c \<in> set (hand L)" by simp_all
    with eq ledger_invD(1) [OF assms] show ?thesis by (auto simp: distinct_map dest: inj_onD)
  next
    case (Some v)
    then have "b \<notin> set (hand L)" "c \<notin> set (hand L)"
      using ledger_invD(2) [OF assms, of b] ledger_invD(2) [OF assms, of c] eq by auto
    with b c show ?thesis by auto
  qed
qed

lemma transfer_inv:
  assumes inv: "ledger_inv acts L" and b: "b \<in> set (hand L)"
  shows "ledger_inv (acts @ [TransferTo b r]) (transfer_to b r L)"
proof (rule ledger_invI_live [OF inv])
  show "live (transfer_to b r L) \<subseteq> live L" by (simp add: live_transfer_to [OF inv b])
  show "owned (transfer_to b r L) (binding_id c) = None" if "c \<in> set (hand (transfer_to b r L))" for c
    using that hand_remove1 [OF inv b] ledger_invD(2) [OF inv, of c]
    by (auto simp: transfer_to_def)
qed (use ledger_invD(1,3) [OF inv] in
      \<open>auto simp: transfer_to_def distinct_remove1_map split: if_splits\<close>)

lemma destroy_inv:
  assumes inv: "ledger_inv acts L" and b: "b \<in> set (hand L)"
  shows "ledger_inv (acts @ [Destroy b]) (destroy b L)"
proof (rule ledger_invI_live [OF inv])
  show "live (destroy b L) \<subseteq> live L" by (auto simp: live_destroy [OF inv b])
qed (use ledger_invD(1-3) [OF inv] in
      \<open>auto simp: destroy_def distinct_remove1_map hand_remove1 [OF inv b]\<close>)

lemma take_inv:
  assumes inv: "ledger_inv acts L" and b: "owned L i = Some (tx_sender L, b)"
  shows "ledger_inv (acts @ [TakeOwned i]) (L\<lparr>owned := (owned L)(i := None), hand := b # hand L\<rparr>)"
    (is "ledger_inv _ ?L")
proof (rule ledger_invI_live [OF inv])
  have i: "binding_id b = i" using ledger_invD(3) [OF inv b] .
  show "live ?L \<subseteq> live L" by (simp add: live_take [OF inv b])
  have "i \<notin> binding_id ` set (hand L)"
    using ledger_invD(2) [OF inv] b by auto
  then show "distinct (map binding_id (hand ?L))"
    using i ledger_invD(1) [OF inv] by simp
  show "owned ?L (binding_id c) = None" if "c \<in> set (hand ?L)" for c
    using that i ledger_invD(2) [OF inv, of c] by auto
qed (use ledger_invD(3) [OF inv] in \<open>auto split: if_splits\<close>)

lemma enrol_inv:
  assumes inv: "ledger_inv acts L" and w: "w \<in> set (witnesses L)" and i: "i \<notin> minted L"
    and made: "new_binding names w sch pk now i = Ok made"
  shows "ledger_inv (acts @ [Enrol w sch pk i]) (enrol w made L)" (is "ledger_inv ?acts ?L")
proof -
  have b: "binding_id (fst made) = i" "binding_pk (fst made) = witness_attested_value w"
    "binding_source (fst made) = witness_of w"
    using made by (auto simp: new_binding_def split: if_splits)
  have fresh: "binding_id c \<noteq> i" if "c \<in> live L" for c
  proof -
    from ledger_invD(4) [OF inv that] obtain w' where "(binding_id c, w') \<in> set (enrolments acts)"
      by (auto simp: comes_from_def)
    then have "binding_id c \<in> fst ` set (enrolments acts)" by force
    with ledger_invD(5) [OF inv] i show ?thesis by auto
  qed
  have owned_live: "owned L i = None"
  proof (cases "owned L i")
    case (Some ab)
    then have "binding_id (snd ab) = i" using ledger_invD(3) [OF inv] by (cases ab) auto
    moreover from this Some have "snd ab \<in> live L" by (cases ab) (simp add: live_iff [OF inv])
    ultimately have False using fresh by blast
    then show ?thesis ..
  qed
  have "mset (map snd (enrolments ?acts)) + mset (witnesses ?L)
      = mset (map snd (enrolments acts)) + mset (witnesses L)"
    using w by (simp add: enrol_def)
  then have "mset (map snd (enrolments ?acts)) + mset (witnesses ?L) \<subseteq># created ?acts"
    using ledger_invD(7) [OF inv] by (simp only: created_snoc) simp
  moreover have "\<forall>c \<in> live ?L. comes_from ?acts c"
    using b ledger_invD(4) [OF inv] by (auto simp: live_enrol comes_from_def)
  moreover have "distinct (map binding_id (hand ?L))"
  proof -
    have "i \<notin> binding_id ` set (hand L)" using fresh by (auto simp: live_def)
    with ledger_invD(1) [OF inv] b(1) show ?thesis by (simp add: enrol_def)
  qed
  moreover have "\<forall>c \<in> set (hand ?L). owned ?L (binding_id c) = None"
    using ledger_invD(2) [OF inv] b(1) owned_live by (auto simp: enrol_def)
  ultimately show ?thesis
    using ledger_invD(3,5,6) [OF inv] i b(1) by (auto simp: ledger_inv_def enrol_def)
qed

lemma ledger_inv_step:
  assumes inv: "ledger_inv acts L" and "ledger_step C L act L'"
  shows "ledger_inv (acts @ [act]) L'"
  using assms(2)
proof cases
  case (begin_tx a)
  show ?thesis unfolding begin_tx
    by (rule ledger_invI_live [OF inv]) (use ledger_invD [OF inv] in \<open>auto simp: live_def\<close>)
next
  case (redeemed src doc v c h w)
  show ?thesis unfolding redeemed
    by (rule ledger_invI_live [OF inv]) (use ledger_invD [OF inv] in \<open>auto simp: live_def\<close>)
next
  case (drop_witness w)
  show ?thesis unfolding drop_witness
    by (rule ledger_invI_live [OF inv]) (use ledger_invD [OF inv] in \<open>auto simp: live_def\<close>)
next
  case (enrolled w i sch pk made)
  with enrol_inv [OF inv] show ?thesis by simp
next
  case (take_owned i b)
  with take_inv [OF inv] show ?thesis by simp
next
  case (transferred b r)
  with transfer_inv [OF inv] show ?thesis by simp
next
  case (destroyed b)
  with destroy_inv [OF inv] show ?thesis by simp
next
  case (witness_minted n v c ts h)
  show ?thesis unfolding witness_minted
    by (rule ledger_invI_live [OF inv]) (use ledger_invD [OF inv] in \<open>auto simp: live_def\<close>)
next
  case (signature_checked sch pk message sig r)
  show ?thesis unfolding signature_checked
    by (rule ledger_invI_live [OF inv]) (use ledger_invD [OF inv] in \<open>auto simp: live_def\<close>)
next
  case (receipt_minted n pk message)
  show ?thesis unfolding receipt_minted
    by (rule ledger_invI_live [OF inv]) (use ledger_invD [OF inv] in \<open>auto simp: live_def\<close>)
next
  case (authorised b r ok domain action_hash expiry)
  show ?thesis unfolding authorised
    by (rule ledger_invI_live [OF inv]) (use ledger_invD [OF inv] in \<open>auto simp: live_def\<close>)
next
  case (tick t)
  show ?thesis unfolding tick
    by (rule ledger_invI_live [OF inv]) (use ledger_invD [OF inv] in \<open>auto simp: live_def\<close>)
qed

lemma ledger_run_inv:
  assumes "ledger_run C (genesis a t) acts L"
  shows "ledger_inv acts L"
  using assms
proof (induction "genesis a t" acts L rule: ledger_run.induct)
  case ledger_nil
  then show ?case
    by (simp add: ledger_inv_def genesis_def live_def enrolments_def created_def)
next
  case (ledger_snoc acts L' act L'')
  then show ?case by (blast intro: ledger_inv_step)
qed

text \<open>Behind every binding with a source of this repository there is a redemption.\<close>

lemma live_created:
  assumes "ledger_inv acts L" "b \<in> live L"
  shows "\<exists>w. w \<in># created acts \<and> witness_attested_value w = binding_pk b \<and> witness_of w = binding_source b"
proof -
  from ledger_invD(4) [OF assms] obtain w where w: "(binding_id b, w) \<in> set (enrolments acts)"
    "binding_pk b = witness_attested_value w" "binding_source b = witness_of w"
    by (auto simp: comes_from_def)
  then have "w \<in># mset (map snd (enrolments acts)) + mset (witnesses L)" by force
  then have "w \<in># created acts" using ledger_invD(7) [OF assms(1)] by (rule mset_subset_eqD [rotated])
  with w show ?thesis by auto
qed

lemma live_redeemed:
  assumes "ledger_inv acts L" "b \<in> live L" "repo_source (binding_source b)"
  shows "\<exists>w. w \<in># redemptions acts \<and> witness_attested_value w = binding_pk b \<and> witness_of w = binding_source b"
proof -
  from live_created [OF assms(1,2)] obtain w where w: "w \<in># created acts"
    "witness_attested_value w = binding_pk b" "witness_of w = binding_source b" by blast
  with assms(3) have "w \<in># filter_mset (\<lambda>w. repo_source (witness_of w)) (created acts)" by simp
  with created_repo have "w \<in># redemptions acts" by (rule mset_subset_eqD)
  with w show ?thesis by blast
qed

lemma redemptions_redeemed:
  assumes "ledger_run C (genesis a t) acts L" and "w \<in># redemptions acts"
  shows "\<exists>src doc v c h now. Redeem src doc v c h w \<in> set acts \<and> redeem C src doc v c h now = Ok w"
  using assms
proof (induction "genesis a t" acts L rule: ledger_run.induct)
  case ledger_nil
  then show ?case by (simp add: redemptions_def)
next
  case (ledger_snoc acts L' act L'')
  show ?case
  proof (cases "w \<in># redemptions acts")
    case True
    with ledger_snoc show ?thesis by fastforce
  next
    case False
    with ledger_snoc.prems have "w \<in># redeemed_by act" by simp
    then obtain src doc v c h where act: "act = Redeem src doc v c h w" by (cases act) auto
    with ledger_snoc.hyps(3) have "redeem C src doc v c h (clock_ms L') = Ok w"
      by (auto elim: ledger_step.cases)
    with act show ?thesis by (metis append_is_Nil_conv in_set_conv_decomp)
  qed
qed

lemma redeemed_witness:
  "redeem C src doc v c h now = Ok w \<Longrightarrow> witness_attested_value w = v \<and> witness_of w = src"
  by (cases src) (auto simp: apple_attestation_verify_def android_attestation_verify_def
      apple_assertion_verify_def and_then_Ok_iff)

section \<open>Where receipts come from\<close>

text \<open>
  A receipt of a scheme of this repository stands for a signature that the native accepted; any
  other was minted by the package of its marker.
\<close>

definition receipt_from :: "natives \<Rightarrow> action list \<Rightarrow> receipt \<Rightarrow> bool" where
  "receipt_from N acts r \<longleftrightarrow>
     (case receipt_scheme r of
        OtherScheme n \<Rightarrow> MintReceipt n (receipt_pk r) (receipt_message r) \<in> set acts
      | sch \<Rightarrow> (\<exists>sig. CheckSignature sch (receipt_pk r) (receipt_message r) sig \<in> set acts
                  \<and> native_ok N sch (receipt_pk r) (receipt_message r) sig))"

lemma receipt_from_snoc: "receipt_from N acts r \<Longrightarrow> receipt_from N (acts @ [act]) r"
  by (auto simp: receipt_from_def split: scheme.splits)

lemma receipt_from_check:
  assumes "scheme_verify N sch pk message sig = Ok r"
  shows "receipt_from N (acts @ [CheckSignature sch pk message sig]) r"
proof -
  from assms have "native_ok N sch pk message sig" "r = verified sch pk message"
    by (simp_all only: any_scheme.check_Ok_iff)
  moreover from this(1) have "repo_scheme sch" by (cases sch) (simp_all add: native_ok_def)
  ultimately show ?thesis
    by (cases sch) (auto simp: receipt_from_def verified_def)
qed

lemma ledger_run_receipts:
  assumes "ledger_run C (genesis a t) acts L"
  shows "\<forall>r. r \<in> set (receipts L) \<longrightarrow> receipt_from (chain_natives C) acts r"
  using assms
proof (induction "genesis a t" acts L rule: ledger_run.induct)
  case ledger_nil
  then show ?case by (simp add: genesis_def)
next
  case (ledger_snoc acts L' act L'')
  have old: "receipt_from (chain_natives C) (acts @ [act]) r" if "r \<in> set (receipts L')" for r
    using that ledger_snoc by (blast intro: receipt_from_snoc)
  from ledger_snoc.hyps(3) show ?case
  proof cases
    case (signature_checked sch pk message sig r)
    with old receipt_from_check [OF signature_checked(3), of acts] show ?thesis by auto
  next
    case (receipt_minted n pk message)
    with old show ?thesis by (auto simp: receipt_from_def verified_def)
  next
    case (authorised b r ok domain action_hash expiry)
    with old show ?thesis by (auto dest: notin_set_remove1 set_mp [OF set_remove1_subset])
  qed (use old in \<open>auto simp: enrol_def transfer_to_def destroy_def\<close>)
qed

section \<open>The event log\<close>

definition announced :: "ledger \<Rightarrow> address set" where
  "announced L = {i. \<exists>s k. DeviceBoundEvent i s k \<in> set (emitted L)}"

definition withdrawn :: "ledger \<Rightarrow> address set" where
  "withdrawn L = {i. DeviceBindingDestroyedEvent i \<in> set (emitted L)}"

definition events_inv :: "ledger \<Rightarrow> bool" where
  "events_inv L \<longleftrightarrow> announced L = minted L \<and> withdrawn L \<subseteq> minted L
     \<and> binding_id ` live L = minted L - withdrawn L"

text \<open>A step that keeps the mint, the live bindings and the log keeps the correspondence.\<close>

lemma events_inv_cong:
  "minted L' = minted L \<Longrightarrow> live L' = live L \<Longrightarrow> emitted L' = emitted L \<Longrightarrow> events_inv L' = events_inv L"
  by (simp add: events_inv_def announced_def withdrawn_def)

lemma events_enrol:
  assumes "events_inv L" "i \<notin> minted L" "new_binding names w sch pk now i = Ok made"
  shows "events_inv (enrol w made L)"
proof -
  obtain s k where b: "binding_id (fst made) = i" "snd made = DeviceBoundEvent i s k"
    using assms(3) by (auto simp: new_binding_def split: if_splits)
  then have "announced (enrol w made L) = insert i (announced L)"
    "withdrawn (enrol w made L) = withdrawn L"
    by (auto simp: announced_def withdrawn_def enrol_def)
  moreover have "minted (enrol w made L) = insert i (minted L)" using b(1) by (simp add: enrol_def)
  moreover have "i \<notin> withdrawn L" using assms(1,2) by (auto simp: events_inv_def)
  ultimately show ?thesis
    using assms(1) b(1) by (auto simp: events_inv_def live_enrol)
qed

lemma events_destroy:
  assumes ev: "events_inv L" and inv: "ledger_inv acts L" and b: "b \<in> set (hand L)"
  shows "events_inv (destroy b L)"
proof -
  have "announced (destroy b L) = announced L"
    "withdrawn (destroy b L) = insert (binding_id b) (withdrawn L)" "minted (destroy b L) = minted L"
    by (auto simp: announced_def withdrawn_def destroy_def destroy_event_def)
  moreover have "b \<in> live L" using b by (simp add: live_def)
  moreover from this have "binding_id ` (live L - {b}) = binding_id ` live L - {binding_id b}"
    using live_inj [OF inv] by (simp add: inj_on_image_set_diff)
  ultimately show ?thesis
    using ev by (auto simp: events_inv_def live_destroy [OF inv b])
qed

lemma events_inv_step:
  assumes ev: "events_inv L" and inv: "ledger_inv acts L" and "ledger_step C L act L'"
  shows "events_inv L'"
  using assms(3)
proof cases
  case (enrolled w i sch pk made)
  with events_enrol [OF ev] show ?thesis by simp
next
  case (destroyed b)
  with events_destroy [OF ev inv] show ?thesis by simp
next
  case (take_owned i b)
  have "events_inv (L\<lparr>owned := (owned L)(i := None), hand := b # hand L\<rparr>) = events_inv L"
    by (rule events_inv_cong) (simp_all add: live_take [OF inv take_owned(3)])
  with ev take_owned show ?thesis by simp
next
  case (transferred b r)
  have "events_inv (transfer_to b r L) = events_inv L"
    by (rule events_inv_cong) (simp_all add: live_transfer_to [OF inv transferred(3)],
        simp_all add: transfer_to_def)
  with ev transferred show ?thesis by simp
qed (use ev in \<open>simp_all add: events_inv_def announced_def withdrawn_def live_def\<close>)

lemma ledger_run_events:
  assumes "ledger_run C (genesis a t) acts L"
  shows "events_inv L"
  using assms
proof (induction "genesis a t" acts L rule: ledger_run.induct)
  case ledger_nil
  then show ?case
    by (simp add: events_inv_def announced_def withdrawn_def genesis_def live_def)
next
  case (ledger_snoc acts L' act L'')
  then show ?case by (blast intro: events_inv_step ledger_run_inv)
qed

section \<open>A sample run\<close>

definition sample_chain :: chain where
  "sample_chain = \<lparr>chain_sha = (\<lambda>m. m), chain_policy = \<lparr>pcr0 = [10], pcr1 = [11], pcr2 = [12]\<rparr>,
     chain_natives = accept_key [1, 2],
     chain_names = \<lparr>source_name = (\<lambda>_. [0]), scheme_name = (\<lambda>_. [1])\<rparr>\<rparr>"

definition sample_nitro :: nitro_document where
  "sample_nitro = \<lparr>doc_pcrs = [(0, [10]), (1, [11]), (2, [12])],
     doc_user_data = Some (bcs_struct [[1, 2], [3], [4]]), doc_timestamp = 1000, doc_public_key = Some [2]\<rparr>"

definition sample_witness :: attestation_witness where
  "sample_witness = \<lparr>witness_of = AppleAppAttest, witness_attested_value = [1, 2],
     witness_challenge = [3], witness_timestamp_ms = 1000, witness_detail_hash = [4]\<rparr>"

definition sample_actions :: "action list" where
  "sample_actions = [Redeem AppleAppAttest sample_nitro [1, 2] [3] [4] sample_witness,
     Enrol sample_witness Ed25519 [1, 2] 7, TransferTo sample_binding 1]"

definition sample_ledger :: ledger where
  "sample_ledger = \<lparr>owned = [7 \<mapsto> (1, sample_binding)], hand = [], receipts = [], tx_sender = 1, minted = {7},
     witnesses = [], emitted = [DeviceBoundEvent 7 [0] [1]], clock_ms = 100\<rparr>"

lemma sample_redemption:
  "redeem sample_chain AppleAppAttest sample_nitro [1, 2] [3] [4] 100 = Ok sample_witness"
proof -
  have "check_document (chain_sha sample_chain) (chain_policy sample_chain) sample_nitro
      [[1, 2], [3], [4]] 100 = Ok 1000"
    by (simp add: check_document_Ok_iff pcrs_ok_def sample_chain_def sample_nitro_def)
  then show ?thesis by (simp add: apple_attestation_verify_def sample_witness_def)
qed

lemma ledger_run_Cons:
  assumes "ledger_step C L act L1" "ledger_run C L1 acts L2"
  shows "ledger_run C L (act # acts) L2"
  using assms(2,1)
proof (induction L1 acts L2 rule: ledger_run.induct)
  case (ledger_nil L1)
  then show ?case using ledger_run.ledger_snoc [OF ledger_run.ledger_nil, of C L act L1] by simp
next
  case (ledger_snoc L1 acts L2 act' L3)
  then show ?case using ledger_run.ledger_snoc [of C L "act # acts" L2 act' L3] by simp
qed

lemma ledger_run_append:
  "ledger_run C L1 fs L2 \<Longrightarrow> ledger_run C L acts L1 \<Longrightarrow> ledger_run C L (acts @ fs) L2"
proof (induction L1 fs L2 rule: ledger_run.induct)
  case (ledger_nil L1)
  then show ?case by simp
next
  case (ledger_snoc L1 fs L2 act L3)
  then have "ledger_run C L ((acts @ fs) @ [act]) L3" by (blast intro: ledger_run.ledger_snoc)
  then show ?case by simp
qed

lemma sample_ledger_run: "ledger_run sample_chain (genesis 1 100) sample_actions sample_ledger"
proof -
  define L1 where "L1 = (genesis 1 100)\<lparr>witnesses := [sample_witness]\<rparr>"
  define made where "made = (sample_binding, DeviceBoundEvent 7 [0] [1])"
  have made: "new_binding (chain_names sample_chain) sample_witness Ed25519 [1, 2] 100 7 = Ok made"
    by (simp add: new_binding_def sample_witness_def sample_chain_def sample_binding_def made_def)
  have s1: "ledger_step sample_chain (genesis 1 100)
      (Redeem AppleAppAttest sample_nitro [1, 2] [3] [4] sample_witness) L1"
    using ledger_step.redeemed [of sample_chain AppleAppAttest sample_nitro "[1, 2]" "[3]" "[4]" "genesis 1 100"]
      sample_redemption by (simp add: genesis_def L1_def)
  have s2: "ledger_step sample_chain L1 (Enrol sample_witness Ed25519 [1, 2] 7)
      (enrol sample_witness made L1)"
    using made by (intro ledger_step.enrolled) (simp_all add: L1_def genesis_def)
  have s3: "ledger_step sample_chain (enrol sample_witness made L1) (TransferTo sample_binding 1)
      (transfer_to sample_binding 1 (enrol sample_witness made L1))"
    by (intro ledger_step.transferred) (simp add: enrol_def made_def)
  have "transfer_to sample_binding 1 (enrol sample_witness made L1) = sample_ledger"
    by (simp add: transfer_to_def enrol_def made_def L1_def genesis_def sample_ledger_def sample_binding_def)
  with s3 show ?thesis unfolding sample_actions_def
    using ledger_run_Cons [OF s1 ledger_run_Cons [OF s2 ledger_run_Cons [OF s3 ledger_run.ledger_nil]]]
    by simp
qed

section \<open>Properties\<close>

text \<open>
  C15. The books balance in every reachable state, whatever other packages do. Every binding in
  existence was made by exactly one enrolment and has the key and the source of the witness it
  consumed; no identifier is used twice; and no witness is consumed twice: the witnesses enrolled
  and the unspent ones are among those that were created, by redeeming a document or by another
  package under its own marker. So there are at most as many enrolments with a source of this
  repository as redemptions, while other sources need none. The event log tells which bindings
  exist: those announced and not withdrawn.
\<close>

theorem bindings_accounted_for:
  assumes "ledger_run C (genesis a t) acts L"
  shows "(\<forall>b \<in> live L. comes_from acts b) \<and> inj_on binding_id (live L)
     \<and> distinct (map fst (enrolments acts))
     \<and> mset (map snd (enrolments acts)) + mset (witnesses L) \<subseteq># created acts
     \<and> filter_mset (\<lambda>w. repo_source (witness_of w)) (mset (map snd (enrolments acts)) + mset (witnesses L))
         \<subseteq># redemptions acts
     \<and> binding_id ` live L = announced L - withdrawn L"
proof -
  note inv = ledger_run_inv [OF assms]
  from ledger_run_events [OF assms] have "binding_id ` live L = announced L - withdrawn L"
    by (simp add: events_inv_def)
  moreover have "filter_mset (\<lambda>w. repo_source (witness_of w)) (mset (map snd (enrolments acts)) + mset (witnesses L))
      \<subseteq># redemptions acts"
    using multiset_filter_mono [OF ledger_invD(7) [OF inv]] created_repo by (rule subset_mset.order_trans)
  ultimately show ?thesis using ledger_invD(4,6,7) [OF inv] live_inj [OF inv] by blast
qed

theorem bindings_accounted_for_witness:
  "comes_from sample_actions sample_binding
   \<and> binding_id ` live sample_ledger = announced sample_ledger - withdrawn sample_ledger"
  using bindings_accounted_for [OF sample_ledger_run] by (simp add: sample_ledger_def live_def)

text \<open>
  C16. What an authorized action means. When \<open>verify_action\<close> returns true in a reachable state, the
  action has not expired and the receipt is over the canonical message of exactly this action
  under the bound key. If the binding's scheme is one of this repository, then earlier that
  scheme's native accepted a signature over this message under this key; if it is another, the
  receipt was minted by the package of that scheme, and nothing else is known. If the binding's
  source is one of this repository, the key is the attested value of a document that was redeemed
  for that source.
\<close>

theorem authorised_action_signed:
  assumes "ledger_run C (genesis a t) acts L"
    and "ledger_step C L (Authorise b r domain action_hash expiry True) L'"
  shows "clock_ms L \<le> expiry \<and> receipt_pk r = binding_pk b
     \<and> receipt_message r = action_message b domain action_hash expiry
     \<and> (repo_scheme (binding_scheme b) \<longrightarrow>
          (\<exists>sig. CheckSignature (binding_scheme b) (binding_pk b) (action_message b domain action_hash expiry) sig
              \<in> set acts
            \<and> native_ok (chain_natives C) (binding_scheme b) (binding_pk b)
                (action_message b domain action_hash expiry) sig))
     \<and> (\<forall>n. binding_scheme b = OtherScheme n \<longrightarrow>
          MintReceipt n (binding_pk b) (action_message b domain action_hash expiry) \<in> set acts)
     \<and> (repo_source (binding_source b) \<longrightarrow>
          (\<exists>doc c h w now. Redeem (binding_source b) doc (binding_pk b) c h w \<in> set acts
            \<and> redeem C (binding_source b) doc (binding_pk b) c h now = Ok w))"
proof -
  note inv = ledger_run_inv [OF assms(1)]
  from assms(2) have step: "reachable_by_sender L b" "r \<in> set (receipts L)" "receipt_scheme r = binding_scheme b"
    "verify_action b r domain action_hash expiry (clock_ms L)"
    by (auto elim: ledger_step_AuthoriseE)
  from step(4) have auth: "clock_ms L \<le> expiry" "receipt_pk r = binding_pk b"
    "receipt_message r = action_message b domain action_hash expiry"
    by (simp_all add: verify_action_def action_message_def)
  have "receipt_from (chain_natives C) acts r" using ledger_run_receipts [OF assms(1)] step(2) by blast
  moreover have "\<exists>doc c h w now. Redeem (binding_source b) doc (binding_pk b) c h w \<in> set acts
      \<and> redeem C (binding_source b) doc (binding_pk b) c h now = Ok w" if "repo_source (binding_source b)"
  proof -
    have "b \<in> live L" using step(1) unfolding reachable_by_sender_def live_iff [OF inv] by blast
    from live_redeemed [OF inv this that] obtain w where w: "w \<in># redemptions acts"
      "witness_attested_value w = binding_pk b" "witness_of w = binding_source b" by blast
    from redemptions_redeemed [OF assms(1) w(1)] redeemed_witness w(2,3) show ?thesis by metis
  qed
  ultimately show ?thesis
    using auth step(3) by (cases "binding_scheme b") (auto simp: receipt_from_def)
qed

text \<open>A run in which the sample binding authorizes an action.\<close>

definition sample_receipt :: receipt where
  "sample_receipt = verified Ed25519 [1, 2] (action_message sample_binding [5] [6] 200)"

definition signed_actions :: "action list" where
  "signed_actions = sample_actions
     @ [CheckSignature Ed25519 [1, 2] (action_message sample_binding [5] [6] 200) [8]]"

lemma signed_run:
  "ledger_run sample_chain (genesis 1 100) signed_actions (sample_ledger\<lparr>receipts := [sample_receipt]\<rparr>)"
proof -
  have "ledger_step sample_chain sample_ledger
      (CheckSignature Ed25519 [1, 2] (action_message sample_binding [5] [6] 200) [8])
      (sample_ledger\<lparr>receipts := sample_receipt # receipts sample_ledger\<rparr>)"
    by (rule ledger_step.signature_checked)
      (simp add: sample_chain_def ed25519_scheme_verify_def accept_key_def sample_receipt_def)
  from ledger_run.ledger_snoc [OF sample_ledger_run this] show ?thesis
    by (simp add: signed_actions_def sample_ledger_def)
qed

theorem authorised_action_signed_witness:
  "(\<exists>sig. native_ok (accept_key [1, 2]) Ed25519 [1, 2] (action_message sample_binding [5] [6] 200) sig)
   \<and> (\<exists>doc c h w. Redeem AppleAppAttest doc [1, 2] c h w \<in> set signed_actions)"
proof -
  have "ledger_step sample_chain (sample_ledger\<lparr>receipts := [sample_receipt]\<rparr>)
      (Authorise sample_binding sample_receipt [5] [6] 200 True)
      (sample_ledger\<lparr>receipts := remove1 sample_receipt [sample_receipt]\<rparr>)"
    using ledger_step.authorised [of "sample_ledger\<lparr>receipts := [sample_receipt]\<rparr>" sample_binding sample_receipt
        True "[5]" "[6]" 200 sample_chain]
    by (simp add: reachable_by_sender_def sample_ledger_def sample_binding_def sample_receipt_def
        verify_action_def verified_def action_message_def)
  note signed = authorised_action_signed [OF signed_run this]
  have b: "binding_scheme sample_binding = Ed25519" "binding_source sample_binding = AppleAppAttest"
    "binding_pk sample_binding = [1, 2]" "chain_natives sample_chain = accept_key [1, 2]"
    by (simp_all add: sample_binding_def sample_chain_def)
  show ?thesis using signed unfolding b by auto
qed

text \<open>
  C28. A binding is not soulbound: \<open>transfer_to\<close> is public and asks nothing, so in every reachable
  state between transactions the owner of a binding can hand it to any other account.
\<close>

theorem binding_can_be_moved:
  assumes "ledger_run C (genesis a0 t) acts L" and "owned L i = Some (a, b)" and "hand L = []"
  shows "\<exists>L'. ledger_run C (genesis a0 t) (acts @ [BeginTx a, TakeOwned i, TransferTo b recipient]) L'
     \<and> owned L' i = Some (recipient, b) \<and> hand L' = []"
proof -
  have i: "binding_id b = i" using ledger_invD(3) [OF ledger_run_inv [OF assms(1)] assms(2)] .
  define L1 where "L1 = L\<lparr>tx_sender := a, receipts := []\<rparr>"
  define L2 where "L2 = L1\<lparr>owned := (owned L1)(i := None), hand := b # hand L1\<rparr>"
  have "ledger_step C L (BeginTx a) L1"
    unfolding L1_def by (rule ledger_step.begin_tx [OF assms(3)])
  moreover have "ledger_step C L1 (TakeOwned i) L2"
    unfolding L2_def using assms(2) by (intro ledger_step.take_owned) (simp add: L1_def)
  moreover have "ledger_step C L2 (TransferTo b recipient) (transfer_to b recipient L2)"
    by (rule ledger_step.transferred) (simp add: L2_def)
  ultimately have "ledger_run C L [BeginTx a, TakeOwned i, TransferTo b recipient] (transfer_to b recipient L2)"
    by (blast intro: ledger_run_Cons ledger_run.ledger_nil)
  from ledger_run_append [OF this assms(1)] show ?thesis
    using i assms(3) by (auto simp: transfer_to_def L1_def L2_def)
qed

theorem binding_can_be_moved_witness:
  "\<exists>L'. ledger_run sample_chain (genesis 1 100)
      (sample_actions @ [BeginTx 1, TakeOwned 7, TransferTo sample_binding 9]) L'
     \<and> owned L' 7 = Some (9, sample_binding) \<and> hand L' = []"
  using binding_can_be_moved [OF sample_ledger_run, of 7 1 sample_binding 9]
  by (simp add: sample_ledger_def)

text \<open>
  C29. An attestation is not used up. The chain keeps no record of redeemed documents, so one
  that can be redeemed at all can be redeemed twice in the same transaction, and its key be
  enrolled under two identifiers, with two schemes.
\<close>

theorem document_enrols_twice:
  assumes "redeem C src doc v c h (clock_ms L) = Ok w"
    and "i \<notin> minted L" "j \<notin> minted L" "i \<noteq> j"
  shows "\<exists>L' b b'. ledger_run C L [Redeem src doc v c h w, Enrol w s1 (witness_attested_value w) i,
        Redeem src doc v c h w, Enrol w s2 (witness_attested_value w) j] L'
     \<and> hand L' = b' # b # hand L \<and> binding_pk b = binding_pk b' \<and> binding_id b = i \<and> binding_id b' = j"
proof -
  define new where "new s k =
      (\<lparr>binding_source = witness_of w, binding_scheme = s, binding_id = k,
        binding_pk = witness_attested_value w, issued_at_ms = clock_ms L\<rparr>,
       DeviceBoundEvent k (source_name (chain_names C) (witness_of w)) (scheme_name (chain_names C) s))"
    for s and k :: address
  have made: "new_binding (chain_names C) w s (witness_attested_value w) (clock_ms L) k = Ok (new s k)"
    for s k by (simp add: new_binding_def new_def)
  define L1 where "L1 = L\<lparr>witnesses := w # witnesses L\<rparr>"
  define L2 where "L2 = enrol w (new s1 i) L1"
  define L3 where "L3 = L2\<lparr>witnesses := w # witnesses L2\<rparr>"
  define L4 where "L4 = enrol w (new s2 j) L3"
  note defs = L1_def L2_def L3_def L4_def enrol_def new_def
  have clock: "clock_ms L1 = clock_ms L" "clock_ms L2 = clock_ms L" "clock_ms L3 = clock_ms L"
    by (simp_all add: defs)
  have "ledger_step C L (Redeem src doc v c h w) L1"
    unfolding L1_def by (rule ledger_step.redeemed [OF assms(1)])
  moreover have "ledger_step C L1 (Enrol w s1 (witness_attested_value w) i) L2"
    unfolding L2_def using assms(2) made
    by (intro ledger_step.enrolled) (simp_all add: clock, simp_all add: L1_def)
  moreover have "ledger_step C L2 (Redeem src doc v c h w) L3"
    unfolding L3_def using assms(1) by (intro ledger_step.redeemed) (simp add: clock)
  moreover have "ledger_step C L3 (Enrol w s2 (witness_attested_value w) j) L4"
    unfolding L4_def using assms(3,4) made
    by (intro ledger_step.enrolled) (simp_all add: clock, simp_all add: defs)
  ultimately have "ledger_run C L [Redeem src doc v c h w, Enrol w s1 (witness_attested_value w) i,
        Redeem src doc v c h w, Enrol w s2 (witness_attested_value w) j] L4"
    by (blast intro: ledger_run_Cons ledger_run.ledger_nil)
  moreover have "hand L4 = fst (new s2 j) # fst (new s1 i) # hand L" by (simp add: defs)
  ultimately show ?thesis by (force simp: new_def)
qed

theorem document_enrols_twice_witness:
  "\<exists>L' b b'. ledger_run sample_chain (genesis 1 100)
     [Redeem AppleAppAttest sample_nitro [1, 2] [3] [4] sample_witness, Enrol sample_witness Ed25519 [1, 2] 7,
      Redeem AppleAppAttest sample_nitro [1, 2] [3] [4] sample_witness, Enrol sample_witness Secp256k1 [1, 2] 8] L'
     \<and> hand L' = [b', b] \<and> binding_pk b = binding_pk b' \<and> binding_id b \<noteq> binding_id b'"
proof -
  have w: "witness_attested_value sample_witness = [1, 2]" by (simp add: sample_witness_def)
  show ?thesis
    using document_enrols_twice [of sample_chain AppleAppAttest sample_nitro "[1, 2]" "[3]" "[4]" "genesis 1 100"
        sample_witness 7 8 Ed25519 Secp256k1] sample_redemption unfolding w
    by (auto simp: genesis_def)
qed

end
