(* ===== verification/Binding_End_To_End.thy ===== *)
theory Binding_End_To_End
  imports End_To_End Binding_Ledger
begin

text \<open>
  From the device to the credential: the enclave's verifiers, the documents it answers with,
  their redemption on chain and the bindings enrolled with the witnesses, in one statement.
\<close>

section \<open>What the enclave has accepted\<close>

text \<open>
  The payloads of the outcomes that the enclave's verifiers return, at some time and for some
  input, under the pinned roots of the deployment.
\<close>

record deployment =
  deployed_crates :: crates
  deployed_google_roots :: "bytes list"
  deployed_apple_root :: bytes
  document_loader :: "bytes \<Rightarrow> nitro_document option"

definition accepted_payload :: "deployment \<Rightarrow> bytes list \<Rightarrow> bool" where
  "accepted_payload D parts \<longleftrightarrow>
     (\<exists>chain chal pol t out. verify_attestation (deployed_crates D) (deployed_google_roots D) chain chal pol t
          = Ok out \<and> parts = [attested_value out, challenge out, detail_hash out])
     \<or> (\<exists>obj key_id chal app_id is_prod t out. verify_app_attest (deployed_crates D) (deployed_apple_root D) obj
          key_id chal app_id is_prod t = Ok out
          \<and> parts = [attested_value out, challenge out, detail_hash out])
     \<or> (\<exists>obj data key app_id t out. verify_assertion (deployed_crates D) obj data key app_id t = Ok out
          \<and> parts = [attested_value out, challenge out])"

text \<open>
  The environment in which an enclave of the deployment serves one request. What differs from
  request to request is left open: the clock, the security module with its descriptor and what it
  answers, and the texts of errors; after a restart the server's key is another one, too.
\<close>

definition runs_deployment :: "deployment \<Rightarrow> environment \<Rightarrow> bool" where
  "runs_deployment D E \<longleftrightarrow> environment_ok E (document_loader D) \<and> env_crates E = deployed_crates D
     \<and> google_roots_der E = deployed_google_roots D \<and> apple_root_der E = deployed_apple_root D"

text \<open>A document that some handler answered with in one environment and with one key.\<close>

definition enclave_document :: "environment \<Rightarrow> (bytes \<Rightarrow> nitro_document option) \<Rightarrow> app_state
    \<Rightarrow> nitro_document \<Rightarrow> bool" where
  "enclave_document E load state doc \<longleftrightarrow> (\<exists>d. load d = Some doc \<and>
     ((\<exists>req resp. attest_android_attestation E state req = Ok resp \<and> hex_decode E (nsm_doc_hex resp) = Inr d)
      \<or> (\<exists>req resp. attest_apple_attestation E state req = Ok resp \<and> hex_decode E (nsm_doc_hex resp) = Inr d)
      \<or> (\<exists>req resp. attest_apple_assertion E state req = Ok resp
           \<and> hex_decode E (assertion_nsm_doc_hex resp) = Inr d)))"

text \<open>A document that some enclave of the deployment answered with at some time.\<close>

definition deployment_document :: "deployment \<Rightarrow> nitro_document \<Rightarrow> bool" where
  "deployment_document D doc \<longleftrightarrow>
     (\<exists>E state. runs_deployment D E \<and> enclave_document E (document_loader D) state doc)"

lemma enclave_document_payload:
  assumes "deployment_document D doc"
  shows "\<exists>parts. accepted_payload D parts
    \<and> doc_user_data doc = Some (sha256 (deployed_crates D) (bcs_struct parts))"
proof -
  define load where "load = document_loader D"
  from assms obtain E state where run: "runs_deployment D E" and doc: "enclave_document E load state doc"
    unfolding deployment_document_def load_def by blast
  from run have env: "environment_ok E load" and same: "env_crates E = deployed_crates D"
    "google_roots_der E = deployed_google_roots D" "apple_root_der E = deployed_apple_root D"
    by (simp_all add: runs_deployment_def load_def)
  from doc obtain d where d: "load d = Some doc" and
    "(\<exists>req resp. attest_android_attestation E state req = Ok resp \<and> hex_decode E (nsm_doc_hex resp) = Inr d)
      \<or> (\<exists>req resp. attest_apple_attestation E state req = Ok resp \<and> hex_decode E (nsm_doc_hex resp) = Inr d)
      \<or> (\<exists>req resp. attest_apple_assertion E state req = Ok resp
           \<and> hex_decode E (assertion_nsm_doc_hex resp) = Inr d)" (is "?android \<or> ?apple \<or> ?assertion")
    unfolding enclave_document_def by blast
  then consider ?android | ?apple | ?assertion by blast
  then show ?thesis
  proof cases
    case 1
    then obtain req resp where r: "attest_android_attestation E state req = Ok resp"
      "hex_decode E (nsm_doc_hex resp) = Inr d" by blast
    from r(1) obtain chain c pol out d0 where h:
      "verify_attestation (env_crates E) (google_roots_der E) chain c pol (stamp_ms E) = Ok out"
      "document_for E state (android_payload out) d0" "resp = response_for E state out d0"
      unfolding android_handler_Ok_iff by blast
    have "hex_decode E (hex_encode E d0) = Inr d" using r(2) h(3) by (simp add: response_for_def)
    from response_document(2) [OF env h(2) this d] h(1) show ?thesis
      unfolding accepted_payload_def android_payload_def same by blast
  next
    case 2
    then obtain req resp where r: "attest_apple_attestation E state req = Ok resp"
      "hex_decode E (nsm_doc_hex resp) = Inr d" by blast
    from r(1) obtain obj key_id c out d0 where h:
      "verify_app_attest (env_crates E) (apple_root_der E) obj key_id c (apple_app_id req)
         (production req) (stamp_ms E) = Ok out"
      "document_for E state (apple_payload out) d0" "resp = response_for E state out d0"
      unfolding apple_handler_Ok_iff by blast
    have "hex_decode E (hex_encode E d0) = Inr d" using r(2) h(3) by (simp add: response_for_def)
    from response_document(2) [OF env h(2) this d] h(1) show ?thesis
      unfolding accepted_payload_def apple_payload_def same by blast
  next
    case 3
    then obtain req resp where r: "attest_apple_assertion E state req = Ok resp"
      "hex_decode E (assertion_nsm_doc_hex resp) = Inr d" by blast
    from r(1) obtain obj data key out d0 where h:
      "verify_assertion (env_crates E) obj data key (assertion_app_id req) (stamp_ms E) = Ok out"
      "document_for E state (assertion_payload out) d0" "resp = assertion_response_for E state out d0"
      unfolding assertion_handler_Ok_iff by blast
    have "hex_decode E (hex_encode E d0) = Inr d" using r(2) h(3) by (simp add: assertion_response_for_def)
    from response_document(2) [OF env h(2) this d] h(1) show ?thesis
      unfolding accepted_payload_def assertion_payload_def same by blast
  qed
qed

section \<open>Redemptions\<close>

text \<open>The payload that a redemption submits.\<close>

definition submitted :: "witness_source \<Rightarrow> bytes \<Rightarrow> bytes \<Rightarrow> bytes \<Rightarrow> bytes list" where
  "submitted src v c h = (if src = AppleAssertionSource then [v, c] else [v, c, h])"

fun documents_of :: "action \<Rightarrow> nitro_document set" where
  "documents_of (Redeem src doc v c h w) = {doc}"
| "documents_of act = {}"

lemma redeem_payload:
  assumes "redeem C src doc v c h now = Ok w"
  shows "check_document (chain_sha C) (chain_policy C) doc (submitted src v c h) now = Ok (witness_timestamp_ms w)"
    and "witness_attested_value w = v" and "witness_of w = src"
  using assms
  by (cases src; auto simp: submitted_def apple_verify_Ok_iff android_verify_Ok_iff assertion_verify_Ok_iff
      dest: arg_cong [where f = witness_attested_value] arg_cong [where f = witness_of])+

section \<open>Properties\<close>

text \<open>
  C14. From the device to the credential. If every document redeemed on chain is one that an
  enclave of the deployment answered with, at whatever times, under whatever keys and with
  whatever answers of the security module, then the key of every binding with a source of this
  repository is the attested value of an outcome that one of the enclave's verifiers returned,
  unless the payload of its redemption and that of an accepted outcome are a SHA-256 collision.
  Other packages may mint witnesses and bindings under their own sources in the same run.
\<close>

theorem bound_keys_attested:
  assumes "chain_sha C = sha256 (deployed_crates D)"
    and "ledger_run C (genesis a t) acts L"
    and "\<forall>doc \<in> (\<Union>act \<in> set acts. documents_of act). deployment_document D doc"
    and "b \<in> live L" and "repo_source (binding_source b)"
  shows "\<exists>doc v c h w parts. Redeem (binding_source b) doc v c h w \<in> set acts \<and> v = binding_pk b
     \<and> accepted_payload D parts
     \<and> (submitted (binding_source b) v c h = parts
        \<or> collide (deployed_crates D) (bcs_struct (submitted (binding_source b) v c h)) (bcs_struct parts))"
proof -
  from live_redeemed [OF ledger_run_inv [OF assms(2)] assms(4,5)] obtain w where w: "w \<in># redemptions acts"
    "witness_attested_value w = binding_pk b" "witness_of w = binding_source b" by blast
  from redemptions_redeemed [OF assms(2) w(1)] obtain src doc v c h now where
    r: "Redeem src doc v c h w \<in> set acts" "redeem C src doc v c h now = Ok w" by blast
  from r(1) have "doc \<in> (\<Union>act \<in> set acts. documents_of act)" by force
  with assms(3) have "deployment_document D doc" by blast
  from enclave_document_payload [OF this] obtain parts where
    parts: "accepted_payload D parts" "doc_user_data doc = Some (sha256 (deployed_crates D) (bcs_struct parts))"
    by blast
  from redeemed_payload [OF parts(2) redeem_payload(1) [OF r(2), unfolded assms(1)]]
  show ?thesis using r parts(1) w(2,3) redeem_payload(2,3) [OF r(2)] by metis
qed

text \<open>A run that redeems and enrols the sample answer of the Android handler.\<close>

definition enclave_chain :: chain where
  "enclave_chain = \<lparr>chain_sha = sha256 (env_crates sample_env), chain_policy = sample_enclave_policy,
     chain_natives = accept_key [], chain_names = \<lparr>source_name = (\<lambda>_. [0]), scheme_name = (\<lambda>_. [1])\<rparr>\<rparr>"

definition enclave_witness :: attestation_witness where
  "enclave_witness = \<lparr>witness_of = AndroidKeyAttestation,
     witness_attested_value = attested_value sample_android_outcome,
     witness_challenge = challenge sample_android_outcome, witness_timestamp_ms = 100000,
     witness_detail_hash = detail_hash sample_android_outcome\<rparr>"

definition enclave_actions :: "action list" where
  "enclave_actions =
     [Redeem AndroidKeyAttestation (sample_document (android_payload sample_android_outcome))
        (attested_value sample_android_outcome) (challenge sample_android_outcome)
        (detail_hash sample_android_outcome) enclave_witness,
      Enrol enclave_witness Secp256r1 (attested_value sample_android_outcome) 7]"

definition enclave_binding :: device_binding where
  "enclave_binding = \<lparr>binding_source = AndroidKeyAttestation, binding_scheme = Secp256r1, binding_id = 7,
     binding_pk = attested_value sample_android_outcome, issued_at_ms = 250000\<rparr>"

lemma enclave_run:
  "\<exists>L. ledger_run enclave_chain (genesis 1 250000) enclave_actions L \<and> enclave_binding \<in> live L"
proof -
  define L1 where "L1 = (genesis 1 250000)\<lparr>witnesses := [enclave_witness]\<rparr>"
  define L2 where "L2 = enrol enclave_witness (enclave_binding, DeviceBoundEvent 7 [0] [1]) L1"
  have s1: "ledger_step enclave_chain (genesis 1 250000) (hd enclave_actions) L1"
    using ledger_step.redeemed [of enclave_chain AndroidKeyAttestation
        "sample_document (android_payload sample_android_outcome)" "attested_value sample_android_outcome"
        "challenge sample_android_outcome" "detail_hash sample_android_outcome" "genesis 1 250000"]
      sample_redeem(1) [of "attested_value sample_android_outcome" "challenge sample_android_outcome"
        "detail_hash sample_android_outcome"]
    by (simp add: enclave_chain_def enclave_actions_def genesis_def L1_def enclave_witness_def
        android_payload_def)
  have s2: "ledger_step enclave_chain L1 (hd (tl enclave_actions)) L2"
    unfolding L2_def enclave_actions_def list.sel
    by (rule ledger_step.enrolled)
      (simp_all add: L1_def genesis_def new_binding_def enclave_witness_def enclave_binding_def
        enclave_chain_def)
  have "enclave_binding \<in> live L2" by (simp add: L2_def live_enrol)
  with ledger_run_Cons [OF s1 ledger_run_Cons [OF s2 ledger_run.ledger_nil]] show ?thesis
    by (auto simp: enclave_actions_def)
qed

text \<open>The deployment of the sample server.\<close>

definition sample_deployment :: deployment where
  "sample_deployment = \<lparr>deployed_crates = sample_crates, deployed_google_roots = google_roots_der sample_env,
     deployed_apple_root = apple_root_der sample_env, document_loader = sample_load\<rparr>"

lemma sample_runs_deployment: "runs_deployment sample_deployment sample_env"
  using sample_environment_ok by (simp add: runs_deployment_def sample_deployment_def sample_env_sel)

theorem bound_keys_attested_witness:
  "\<exists>v c h parts. v = binding_pk enclave_binding \<and> accepted_payload sample_deployment parts
     \<and> (submitted AndroidKeyAttestation v c h = parts
        \<or> collide sample_crates (bcs_struct (submitted AndroidKeyAttestation v c h)) (bcs_struct parts))"
proof -
  obtain L where L: "ledger_run enclave_chain (genesis 1 250000) enclave_actions L"
    "enclave_binding \<in> live L" using enclave_run by blast
  have "enclave_document sample_env sample_load sample_state
      (sample_document (android_payload sample_android_outcome))"
    unfolding enclave_document_def
    using sample_answers(1) sample_response_doc(1) sample_nsm_load by blast
  moreover have loader: "document_loader sample_deployment = sample_load"
    and crates: "deployed_crates sample_deployment = sample_crates" by (simp_all add: sample_deployment_def)
  ultimately have docs: "\<forall>doc \<in> (\<Union>act \<in> set enclave_actions. documents_of act). deployment_document sample_deployment doc"
    using sample_runs_deployment unfolding deployment_document_def by (auto simp: enclave_actions_def)
  have sha: "chain_sha enclave_chain = sha256 (deployed_crates sample_deployment)"
    by (simp add: enclave_chain_def crates sample_env_sel)
  have src: "binding_source enclave_binding = AndroidKeyAttestation" by (simp add: enclave_binding_def)
  have "repo_source (binding_source enclave_binding)" by (simp add: src)
  from bound_keys_attested [OF sha L(1) docs L(2) this] show ?thesis
    unfolding crates src by blast
qed

end
