(* ===== verification/Enclave_Process.thy ===== *)
theory Enclave_Process
  imports Enclave_Server
begin

text \<open>
  The process around the handlers (\<open>main\<close>, \<open>setup_loopback\<close> and \<open>vsock_to_tcp_bridge\<close> of
  \<open>rust/enclave-server/src/main.rs\<close>). Start-up is a function of the host that returns the
  effects it had, in order, with its result; the bridge is a step relation over the events of
  its sockets. What the operating system and the runtime answer are fields of the host and
  events; log lines are left out.
\<close>

section \<open>Start-up\<close>

text \<open>
  \<open>run_command\<close> is \<open>Command::status\<close>: an error when the program cannot be spawned, else the exit
  code, which is absent after a signal. \<open>enclave_bind\<close> is the environment variable, if it is set
  to a valid string. Socket addresses are their text.
\<close>

record host =
  vsock_exists :: bool
  run_command :: "string \<Rightarrow> string list \<Rightarrow> string + int option"
  generate_key :: bytes
  verifying_key_of :: "bytes \<Rightarrow> bytes"
  enclave_bind :: "string option"
  parse_addr :: "string \<Rightarrow> string + string"
  tcp_bind :: "string \<Rightarrow> string + unit"
  axum_serve :: "string \<Rightarrow> app_state \<Rightarrow> string + unit"

datatype effect =
    Command string "string list"
  | SpawnBridge u32 u16
  | Listen string
  | Serve string app_state

definition ADD_ADDRESS :: "string list" where
  "ADD_ADDRESS = [''ip'', ''addr'', ''add'', ''127.0.0.1/8'', ''dev'', ''lo'']"

definition LINK_UP :: "string list" where
  "LINK_UP = [''ip'', ''link'', ''set'', ''dev'', ''lo'', ''up'']"

text \<open>\<open>.expect(..)\<close> on the spawn and \<open>panic!\<close> on a status that is not \<open>success()\<close>.\<close>

definition require_success :: "string + int option \<Rightarrow> (unit, string) result" where
  "require_success r =
     (case r of Inl e \<Rightarrow> Panic | Inr code \<Rightarrow> if code = Some 0 then Ok () else Panic)"

definition setup_loopback :: "host \<Rightarrow> effect list \<times> (unit, string) result" where
  "setup_loopback H =
     (let assign = run_command H ''busybox'' ADD_ADDRESS in
      case require_success assign of
        Ok _ \<Rightarrow>
          (let up = run_command H ''busybox'' LINK_UP in
           ([Command ''busybox'' ADD_ADDRESS, Command ''busybox'' LINK_UP], require_success up))
      | r \<Rightarrow> ([Command ''busybox'' ADD_ADDRESS], r))"

text \<open>Appending the effects of the next part, which runs only after success.\<close>

fun followed_by ::
    "effect list \<times> (unit, string) result \<Rightarrow> (effect list \<times> (unit, string) result)
     \<Rightarrow> effect list \<times> (unit, string) result" where
  "followed_by (es, Ok _) next_part = (es @ fst next_part, snd next_part)"
| "followed_by (es, r) next_part = (es, r)"

definition serve_app :: "host \<Rightarrow> app_state \<Rightarrow> effect list \<times> (unit, string) result" where
  "serve_app H state =
     (let bind = (case enclave_bind H of Some b \<Rightarrow> b | None \<Rightarrow> ''127.0.0.1:3000'') in
      case parse_addr H bind of
        Inl e \<Rightarrow> ([], Err e)
      | Inr addr \<Rightarrow>
          (case tcp_bind H addr of
             Inl e \<Rightarrow> ([Listen addr], Err e)
           | Inr _ \<Rightarrow>
               ([Listen addr, Serve addr state], map_err (\<lambda>e. e) (axum_serve H addr state))))"

definition main :: "host \<Rightarrow> effect list \<times> (unit, string) result" where
  "main H =
     followed_by
       (if vsock_exists H
        then followed_by (setup_loopback H) ([SpawnBridge 3000 3000], Ok ())
        else ([], Ok ()))
       (let signing = generate_key H;
            state = \<lparr>signing_key = signing, verifying_key = verifying_key_of H signing\<rparr> in
        serve_app H state)"

section \<open>The bridge\<close>

text \<open>
  The listener and the tasks it spawned, one per accepted connection. A task first connects to
  the local TCP port and then copies in both directions until the copy ends; if it cannot
  connect it ends at once.
\<close>

datatype task = Connecting | Copying | Finished

datatype bridge = Starting | Stopped | Listening "task list"

datatype bridge_event =
    BindOk
  | BindFailed string
  | Accepted
  | AcceptFailed string
  | Connected nat
  | ConnectFailed nat string
  | CopyEnded nat

inductive bridge_step :: "bridge \<Rightarrow> bridge_event \<Rightarrow> bridge \<Rightarrow> bool" where
  bind_ok: "bridge_step Starting BindOk (Listening [])"
| bind_failed: "bridge_step Starting (BindFailed e) Stopped"
| accepted: "bridge_step (Listening ts) Accepted (Listening (ts @ [Connecting]))"
| accept_failed: "bridge_step (Listening ts) (AcceptFailed e) (Listening ts)"
| connected: "i < length ts \<Longrightarrow> ts ! i = Connecting
    \<Longrightarrow> bridge_step (Listening ts) (Connected i) (Listening (ts[i := Copying]))"
| connect_failed: "i < length ts \<Longrightarrow> ts ! i = Connecting
    \<Longrightarrow> bridge_step (Listening ts) (ConnectFailed i e) (Listening (ts[i := Finished]))"
| copy_ended: "i < length ts \<Longrightarrow> ts ! i = Copying
    \<Longrightarrow> bridge_step (Listening ts) (CopyEnded i) (Listening (ts[i := Finished]))"

inductive_simps bridge_step_simps:
  "bridge_step s BindOk s'" "bridge_step s (BindFailed e) s'" "bridge_step s Accepted s'"
  "bridge_step s (AcceptFailed e) s'" "bridge_step s (Connected i) s'"
  "bridge_step s (ConnectFailed i e) s'" "bridge_step s (CopyEnded i) s'"

inductive_cases bridge_step_ListeningE: "bridge_step (Listening ts) ev s"

inductive bridge_run :: "bridge \<Rightarrow> bridge_event list \<Rightarrow> bridge \<Rightarrow> bool" where
  run_nil: "bridge_run s [] s"
| run_snoc: "bridge_run s evs s' \<Longrightarrow> bridge_step s' ev s'' \<Longrightarrow> bridge_run s (evs @ [ev]) s''"

lemma bridge_run_append: "bridge_run s' fs s'' \<Longrightarrow> bridge_run s es s' \<Longrightarrow> bridge_run s (es @ fs) s''"
proof (induction s' fs s'' rule: bridge_run.induct)
  case (run_nil s')
  then show ?case by simp
next
  case (run_snoc s' evs s1 ev s2)
  then have "bridge_run s ((es @ evs) @ [ev]) s2" by (blast intro: bridge_run.run_snoc)
  then show ?case by simp
qed

text \<open>An open task can always be brought to its end.\<close>

definition finishing :: "nat \<Rightarrow> task \<Rightarrow> bridge_event list" where
  "finishing i t =
     (case t of Connecting \<Rightarrow> [Connected i, CopyEnded i] | Copying \<Rightarrow> [CopyEnded i] | Finished \<Rightarrow> [])"

lemma finish_task:
  assumes "i < length ts"
  shows "bridge_run (Listening ts) (finishing i (ts ! i)) (Listening (ts[i := Finished]))"
proof (cases "ts ! i")
  case Connecting
  then have "bridge_step (Listening ts) (Connected i) (Listening (ts[i := Copying]))"
    using assms by (auto intro: bridge_step.intros)
  moreover have "bridge_step (Listening (ts[i := Copying])) (CopyEnded i)
      (Listening (ts[i := Copying, i := Finished]))"
    using assms by (intro bridge_step.copy_ended) simp_all
  ultimately have "bridge_run (Listening ts) (([] @ [Connected i]) @ [CopyEnded i])
      (Listening (ts[i := Copying, i := Finished]))"
    by (blast intro: bridge_run.intros)
  with Connecting show ?thesis by (simp add: finishing_def)
next
  case Copying
  then have "bridge_run (Listening ts) ([] @ [CopyEnded i]) (Listening (ts[i := Finished]))"
    using assms by (blast intro: bridge_run.intros bridge_step.intros)
  with Copying show ?thesis by (simp add: finishing_def)
next
  case Finished
  then have "ts[i := Finished] = ts" by (metis list_update_id)
  with Finished show ?thesis by (simp add: finishing_def run_nil)
qed

lemma drain_from:
  "n \<le> length ts \<Longrightarrow> \<exists>fs. bridge_run (Listening ts) fs (Listening (replicate n Finished @ drop n ts))"
proof (induction n)
  case 0
  then show ?case using run_nil by fastforce
next
  case (Suc n)
  let ?ts = "replicate n Finished @ drop n ts"
  from Suc obtain fs where fs: "bridge_run (Listening ts) fs (Listening ?ts)" by auto
  have "?ts[n := Finished] = replicate (Suc n) Finished @ drop (Suc n) ts"
    using Suc.prems
    by (simp add: list_update_append Cons_nth_drop_Suc [symmetric] replicate_append_same [symmetric]
        del: replicate_Suc) (simp add: replicate_append_same)
  with finish_task [of n ?ts] Suc.prems
  have "bridge_run (Listening ?ts) (finishing n (?ts ! n))
      (Listening (replicate (Suc n) Finished @ drop (Suc n) ts))" by simp
  from bridge_run_append [OF this fs] show ?case by blast
qed

section \<open>Properties\<close>

text \<open>
  When the server serves. It serves an address exactly when, inside an enclave, both
  loopback commands exit with status 0, the bind address (127.0.0.1:3000 unless overridden)
  parses, and the listener binds; then the effects are exactly, in this order, the two commands
  and the bridge on port 3000 (inside an enclave only), the listener, and the server with the
  key generated at start. It panics exactly when a loopback command fails inside an enclave.
\<close>

lemma main_serves:
  "(Serve addr state \<in> set (fst (main H)) \<longleftrightarrow>
      state = \<lparr>signing_key = generate_key H,
               verifying_key = verifying_key_of H (generate_key H)\<rparr>
      \<and> parse_addr H (case enclave_bind H of Some b \<Rightarrow> b | None \<Rightarrow> ''127.0.0.1:3000'') = Inr addr
      \<and> tcp_bind H addr = Inr ()
      \<and> (if vsock_exists H
         then run_command H ''busybox'' ADD_ADDRESS = Inr (Some 0)
              \<and> run_command H ''busybox'' LINK_UP = Inr (Some 0)
              \<and> fst (main H) = [Command ''busybox'' ADD_ADDRESS, Command ''busybox'' LINK_UP,
                                  SpawnBridge 3000 3000, Listen addr, Serve addr state]
         else fst (main H) = [Listen addr, Serve addr state]))
   \<and> (snd (main H) = Panic \<longleftrightarrow>
        vsock_exists H \<and> {run_command H ''busybox'' ADD_ADDRESS, run_command H ''busybox'' LINK_UP}
          \<noteq> {Inr (Some 0)})"
proof -
  have rs: "require_success r = (if r = Inr (Some 0) then Ok () else Panic)" for r
    by (auto simp: require_success_def split: sum.splits)
  show ?thesis
    by (auto simp: main_def setup_loopback_def serve_app_def Let_def rs doubleton_eq_iff
        split: sum.splits option.splits if_splits)
qed

text \<open>
  The bridge cannot get stuck: in every reachable listening state it can accept another
  connection and survives a failed accept, and every open connection can be brought to its end
  by events of its own task, in some continuation that closes all of them.
\<close>

lemma bridge_not_stuck:
  assumes "bridge_run Starting evs (Listening ts)"
  shows "bridge_step (Listening ts) Accepted (Listening (ts @ [Connecting]))
     \<and> bridge_step (Listening ts) (AcceptFailed e) (Listening ts)
     \<and> (\<exists>fs. bridge_run Starting (evs @ fs) (Listening (replicate (length ts) Finished)))"
proof -
  obtain fs where "bridge_run (Listening ts) fs (Listening (replicate (length ts) Finished))"
    using drain_from [of "length ts" ts] by auto
  from bridge_run_append [OF this assms] show ?thesis
    by (blast intro: bridge_step.intros)
qed

end
