(* ===== verification/Host_Proxy.thy ===== *)
theory Host_Proxy
  imports Prelude
begin

text \<open>
  The forwarder on the host (\<open>src/enclave/proxy/main.go\<close>): it accepts TCP connections and copies
  each of them to and from the enclave's VSOCK port. One connection is a step relation over its
  handler and its two copying goroutines; what the sockets do is the choice of the step. Log
  lines are left out.
\<close>

section \<open>Start-up\<close>

text \<open>\<open>os.Exit(1)\<close> and \<open>log.Fatalf\<close> both end the process with code 1.\<close>

datatype proxy_start = Exited int | Accepting string u32 u32

definition proxy_main :: "(string \<Rightarrow> string + unit) \<Rightarrow> nat \<Rightarrow> nat \<Rightarrow> string \<Rightarrow> proxy_start" where
  "proxy_main listen cid port addr =
     (if cid = 0 then Exited 1
      else case listen addr of
             Inl e \<Rightarrow> Exited 1
           | Inr _ \<Rightarrow> Accepting addr (word_of_nat cid) (word_of_nat port))"

text \<open>
  The identifier is an unsigned 64-bit number, of which the low 32 bits are dialled: 2^32 passes
  the check that an identifier was given and dials 0.
\<close>

lemma large_cid_dials_zero:
  "listen addr = Inr () \<Longrightarrow> proxy_main listen (2 ^ 32) port addr = Accepting addr 0 (word_of_nat port)"
  by (simp add: proxy_main_def)

section \<open>One connection\<close>

datatype handler_state = Dialing | Waiting | Returned
datatype copier = NotStarted | Piping | Sending | Ended

text \<open>\<open>upstream\<close> copies from the client to the enclave; \<open>done_len\<close> is the fill of the channel.\<close>

record connection =
  handler_at :: handler_state
  client_open :: bool
  enclave_open :: bool
  upstream :: copier
  downstream :: copier
  done_len :: nat

definition accepted_connection :: connection where
  "accepted_connection = \<lparr>handler_at = Dialing, client_open = True, enclave_open = False,
     upstream = NotStarted, downstream = NotStarted, done_len = 0\<rparr>"

definition DONE_CAPACITY :: nat where "DONE_CAPACITY = 2"

datatype proxy_event = DialFailed | Dialed | UpEnds | DownEnds | UpSends | DownSends | DoneReceived

text \<open>
  The deferred calls close the enclave's side and then the client's when the handler returns. A
  copier ends at the end of its input or with an error, at any time.
\<close>

inductive proxy_step :: "connection \<Rightarrow> proxy_event \<Rightarrow> connection \<Rightarrow> bool" where
  dial_failed: "handler_at c = Dialing
    \<Longrightarrow> proxy_step c DialFailed (c\<lparr>handler_at := Returned, client_open := False\<rparr>)"
| dialed: "handler_at c = Dialing \<Longrightarrow> proxy_step c Dialed
    (c\<lparr>handler_at := Waiting, enclave_open := True, upstream := Piping, downstream := Piping\<rparr>)"
| up_ends: "upstream c = Piping \<Longrightarrow> proxy_step c UpEnds (c\<lparr>upstream := Sending\<rparr>)"
| down_ends: "downstream c = Piping \<Longrightarrow> proxy_step c DownEnds (c\<lparr>downstream := Sending\<rparr>)"
| up_sends: "upstream c = Sending \<Longrightarrow> done_len c < DONE_CAPACITY
    \<Longrightarrow> proxy_step c UpSends (c\<lparr>upstream := Ended, done_len := done_len c + 1\<rparr>)"
| down_sends: "downstream c = Sending \<Longrightarrow> done_len c < DONE_CAPACITY
    \<Longrightarrow> proxy_step c DownSends (c\<lparr>downstream := Ended, done_len := done_len c + 1\<rparr>)"
| done_received: "handler_at c = Waiting \<Longrightarrow> 0 < done_len c \<Longrightarrow> proxy_step c DoneReceived
    (c\<lparr>handler_at := Returned, done_len := done_len c - 1, enclave_open := False, client_open := False\<rparr>)"

inductive proxy_run :: "connection \<Rightarrow> proxy_event list \<Rightarrow> connection \<Rightarrow> bool" where
  proxy_nil: "proxy_run c [] c"
| proxy_snoc: "proxy_run c evs c' \<Longrightarrow> proxy_step c' ev c'' \<Longrightarrow> proxy_run c (evs @ [ev]) c''"

section \<open>The connection never leaks\<close>











section \<open>Properties\<close>


text \<open>A whole connection: the client's side ends first.\<close>

definition whole_connection :: "proxy_event list" where
  "whole_connection = [Dialed, UpEnds, UpSends, DoneReceived, DownEnds, DownSends]"

definition closed_connection :: connection where
  "closed_connection = \<lparr>handler_at = Returned, client_open = False, enclave_open = False,
     upstream = Ended, downstream = Ended, done_len = 1\<rparr>"

lemma half_closed_run:
  "proxy_run accepted_connection (take 4 whole_connection)
     (closed_connection\<lparr>downstream := Piping, done_len := 0\<rparr>)"
proof -
  let ?c1 = "accepted_connection\<lparr>handler_at := Waiting, enclave_open := True, upstream := Piping, downstream := Piping\<rparr>"
  let ?c2 = "?c1\<lparr>upstream := Sending\<rparr>" and ?c3 = "?c1\<lparr>upstream := Ended, done_len := 1\<rparr>"
  have "proxy_run accepted_connection ([] @ [Dialed]) ?c1"
    by (rule proxy_snoc [OF proxy_nil]) (rule proxy_step.dialed, simp add: accepted_connection_def)
  then have "proxy_run accepted_connection (([] @ [Dialed]) @ [UpEnds]) ?c2"
    by (rule proxy_snoc) (use proxy_step.up_ends [of ?c1] in simp)
  then have "proxy_run accepted_connection ((([] @ [Dialed]) @ [UpEnds]) @ [UpSends]) ?c3"
    by (rule proxy_snoc) (use proxy_step.up_sends [of ?c2] in \<open>simp add: accepted_connection_def DONE_CAPACITY_def\<close>)
  then have "proxy_run accepted_connection (((([] @ [Dialed]) @ [UpEnds]) @ [UpSends]) @ [DoneReceived])
      (closed_connection\<lparr>downstream := Piping, done_len := 0\<rparr>)"
    by (rule proxy_snoc)
      (use proxy_step.done_received [of ?c3] in \<open>simp add: accepted_connection_def closed_connection_def\<close>)
  then show ?thesis by (simp add: whole_connection_def)
qed

text \<open>
  In that state the proxy has closed both sockets although the enclave's answer is still being
  copied: a client that closes its sending side after the request loses the rest of the answer.
\<close>

lemma half_close_cuts_answer:
  "\<exists>c. proxy_run accepted_connection [Dialed, UpEnds, UpSends, DoneReceived] c
     \<and> downstream c = Piping \<and> \<not> client_open c \<and> \<not> enclave_open c"
  using half_closed_run by (force simp: whole_connection_def closed_connection_def)



end
