(* ===== verification/Android_Encoding.thy ===== *)
theory Android_Encoding
  imports Android_KeyDescription
begin

text \<open>
  The writers that the decoders of \<open>Android_KeyDescription\<close> are meant to invert: the DER
  encoding of a \<open>KeyDescription\<close> as the Android documentation gives it, and of the package
  identification. What the decoders use of the \<open>der\<close> crate is its documented behaviour on DER
  input, \<open>reader_ok\<close>; the context-specific elements of an authorization list are read by the
  repository's own TLV walk.
\<close>

section \<open>DER headers\<close>

fun octet_count :: "nat \<Rightarrow> nat" where
  "octet_count n = (if n < 256 then 1 else Suc (octet_count (n div 256)))"

declare octet_count.simps [simp del]

lemma octet_count_pos: "1 \<le> octet_count n"
  by (subst octet_count.simps) simp

lemma less_octet_count: "n < 256 ^ octet_count n"
proof (induction n rule: octet_count.induct)
  case (1 n)
  show ?case
  proof (cases "n < 256")
    case False
    with 1 have "n div 256 < 256 ^ octet_count (n div 256)" by simp
    then have "n < 256 ^ octet_count (n div 256) * 256"
      using div_less_iff_less_mult [of 256 n] by simp
    with False show ?thesis by (subst octet_count.simps) simp
  qed (subst octet_count.simps; simp)
qed

lemma octet_count_le: "n < 256 ^ k \<Longrightarrow> 1 \<le> k \<Longrightarrow> octet_count n \<le> k"
proof (induction k arbitrary: n)
  case (Suc k)
  show ?case
  proof (cases "n < 256")
    case False
    with Suc.prems have "k \<noteq> 0" by (cases k) auto
    moreover have "n div 256 < 256 ^ k"
      using Suc.prems(1) by (simp add: div_less_iff_less_mult mult.commute)
    ultimately have "octet_count (n div 256) \<le> k" using Suc.IH by simp
    with False show ?thesis by (subst octet_count.simps) simp
  qed (subst octet_count.simps; simp)
qed simp

text \<open>The shortest form of a length.\<close>

definition der_len :: "nat \<Rightarrow> tlv_len" where
  "der_len n = (if n < 128 then ShortLen n else LongLen (be_bytes (octet_count n) n))"

lemma der_len_ok [simp]: "n < 2 ^ 32 \<Longrightarrow> len_ok (der_len n)"
  using octet_count_le [of n 4] octet_count_pos [of n] by (simp add: der_len_def)

lemma der_len_value [simp]: "len_value (der_len n) = n"
  using less_octet_count [of n] by (simp add: der_len_def be_nat_be_bytes)

text \<open>An element with the shortest header, of class, constructed flag, tag number and content.\<close>

definition element :: "nat \<Rightarrow> bool \<Rightarrow> nat \<Rightarrow> bytes \<Rightarrow> bytes" where
  "element cls k t c = header_encode cls k (tag_form t) (der_len (length c)) @ c"

lemma element_nonempty [simp]: "element cls k t c \<noteq> []"
  by (simp add: element_def)

lemma length_element: "length c < length (element cls k t c)"
  using length_header [of cls k "tag_form t" "der_len (length c)"] by (simp add: element_def)

lemma parse_element:
  assumes "cls < 4" "length c < 2 ^ 32"
  shows "\<exists>h. parse_tlv_header (element cls k t c @ rest) 0
       = Ok (word_of_nat cls, k, word_of_nat t, h, length c)
     \<and> drop h (element cls k t c @ rest) = c @ rest
     \<and> h + length c \<le> length (element cls k t c @ rest)"
  using parse_header_encode [OF assms(1) tag_form_ok der_len_ok [OF assms(2)], of "[]" k t "c @ rest"]
  by (intro exI [of _ "length (header_encode cls k (tag_form t) (der_len (length c)))"])
     (simp add: element_def)

lemma split_element:
  assumes "cls < 4" "length c < 2 ^ 32"
  shows "split_tlv (element cls k t c @ rest)
     = Some (\<lparr>tlv_class = word_of_nat cls, tlv_constructed = k, tlv_number = word_of_nat t, tlv_body = c\<rparr>, rest)"
proof -
  obtain h where "parse_tlv_header (element cls k t c @ rest) 0
       = Ok (word_of_nat cls, k, word_of_nat t, h, length c)"
    "drop h (element cls k t c @ rest) = c @ rest" "h + length c \<le> length (element cls k t c @ rest)"
    using parse_element [OF assms] by blast
  moreover from this(2) have "drop (h + length c) (element cls k t c @ rest) = rest"
    by (simp only: drop_drop [symmetric] add.commute [of h]) simp
  ultimately show ?thesis by (simp only: split_tlv_def result.case prod.case if_True) simp
qed

lemma tlv_items_element:
  assumes "cls < 4" "length c < 2 ^ 32"
  shows "tlv_items (element cls k t c @ rest)
     = map_option ((#) \<lparr>tlv_class = word_of_nat cls, tlv_constructed = k,
                         tlv_number = word_of_nat t, tlv_body = c\<rparr>) (tlv_items rest)"
  using split_element [OF assms] by (subst tlv_items.simps) simp

section \<open>Integers\<close>

text \<open>The shortest two's complement form.\<close>

function int_content :: "int \<Rightarrow> bytes" where
  "int_content i =
     (if - 128 \<le> i \<and> i < 128 then [word_of_int i] else int_content (i div 256) @ [word_of_int i])"
  by pat_completeness auto

termination
proof (relation "measure (\<lambda>i. nat \<bar>i\<bar>)")
  fix i :: int
  assume "\<not> (- 128 \<le> i \<and> i < 128)"
  then have "\<bar>i div 256\<bar> < \<bar>i\<bar>" by (cases "0 \<le> i") linarith+
  then show "(i div 256, i) \<in> measure (\<lambda>i. nat \<bar>i\<bar>)" by simp
qed simp

declare int_content.simps [simp del]

lemma int_content_nonempty [simp]: "int_content i \<noteq> []"
  by (subst int_content.simps) simp

lemma uint_word_of_int_u8: "uint (word_of_int i :: u8) = i mod 256"
  by (simp add: unsigned_of_int take_bit_eq_mod)

lemma unat_less_128_iff: "unat (b :: u8) < 128 \<longleftrightarrow> uint b < 128"
  using of_nat_less_iff [of "unat b" 128, where 'a = int] by simp

lemma twos_complement_single: "- 128 \<le> i \<Longrightarrow> i < 128 \<Longrightarrow> twos_complement [word_of_int i] = i"
proof -
  assume i: "- 128 \<le> i" "i < 128"
  have u: "uint (word_of_int i :: u8) = i mod 256" by (rule uint_word_of_int_u8)
  have neg: "is_negative [word_of_int i :: u8] \<longleftrightarrow> \<not> i mod 256 < 128"
    by (simp add: is_negative_def and_80_iff unat_less_128_iff u)
  show ?thesis
  proof (cases "0 \<le> i")
    case True
    with i have "i mod 256 = i" by simp
    with u i neg show ?thesis by (simp add: twos_complement_def be_nat_Cons)
  next
    case False
    with i have "i mod 256 = i + 256"
      using mod_pos_pos_trivial [of "i + 256" 256] by simp
    with u i neg show ?thesis by (simp add: twos_complement_def be_nat_Cons)
  qed
qed

lemma twos_complement_snoc:
  "bs \<noteq> [] \<Longrightarrow> twos_complement (bs @ [b]) = twos_complement bs * 256 + int (unat b)"
proof -
  assume "bs \<noteq> []"
  then have "is_negative (bs @ [b]) = is_negative bs" by (cases bs) (simp_all add: is_negative_def)
  then show ?thesis by (simp add: twos_complement_def be_nat_snoc algebra_simps)
qed

lemma twos_complement_int_content [simp]: "twos_complement (int_content i) = i"
proof (induction i rule: int_content.induct)
  case (1 i)
  show ?case
  proof (cases "- 128 \<le> i \<and> i < 128")
    case True
    then show ?thesis by (subst int_content.simps) (simp add: twos_complement_single)
  next
    case False
    with 1 have "twos_complement (int_content (i div 256)) = i div 256" by simp
    moreover have "int_content i = int_content (i div 256) @ [word_of_int i]"
      using False by (subst int_content.simps) simp
    ultimately show ?thesis by (simp add: twos_complement_snoc uint_word_of_int_u8)
  qed
qed

lemma length_int_content:
  "- (2 ^ (8 * k + 7)) \<le> i \<Longrightarrow> i < 2 ^ (8 * k + 7) \<Longrightarrow> length (int_content i) \<le> Suc k"
proof (induction k arbitrary: i)
  case 0
  then show ?case by (subst int_content.simps) simp
next
  case (Suc k)
  show ?case
  proof (cases "- 128 \<le> i \<and> i < 128")
    case True
    then show ?thesis by (subst int_content.simps) simp
  next
    case False
    have "(2 :: int) ^ (8 * Suc k + 7) = 2 ^ (8 * k + 7) * 256"
      by (simp add: power_add)
    with Suc.prems have "- (2 ^ (8 * k + 7)) \<le> i div 256" "i div 256 < 2 ^ (8 * k + 7)"
      by linarith+
    then have "length (int_content (i div 256)) \<le> Suc k" by (rule Suc.IH)
    with False show ?thesis by (subst int_content.simps) simp
  qed
qed

lemma length_int_content_i32: "length (int_content (sint (w :: i32))) \<le> 4"
  using length_int_content [of 3 "sint w"] sint_ge [of w] sint_lt [of w] by simp

lemma length_int_content_i64: "length (int_content (sint (w :: i64))) \<le> 8"
  using length_int_content [of 7 "sint w"] sint_ge [of w] sint_lt [of w] by simp

lemma int_content_nonneg:
  assumes "0 \<le> i"
  shows "\<not> is_negative (int_content i)" and "be_nat (int_content i) = nat i"
proof -
  have "int (be_nat (int_content i)) < 256 ^ length (int_content i)"
    using be_nat_less [of "int_content i"] by (metis of_nat_less_iff of_nat_numeral of_nat_power)
  then show neg: "\<not> is_negative (int_content i)"
    using assms twos_complement_int_content [of i] unfolding twos_complement_def
    by (metis diff_ge_0_iff_ge linorder_not_le)
  show "be_nat (int_content i) = nat i"
    using twos_complement_int_content [of i] neg unfolding twos_complement_def by simp
qed

section \<open>The reader of the \<open>der\<close> crate\<close>

fun tag_parts :: "der_tag \<Rightarrow> bool \<times> nat" where
  "tag_parts TBoolean = (False, 1)"
| "tag_parts TInteger = (False, 2)"
| "tag_parts TOctetString = (False, 4)"
| "tag_parts TEnumerated = (False, 10)"
| "tag_parts TSequence = (True, 16)"
| "tag_parts TSet = (True, 17)"
| "tag_parts (TOther b) = (False, 0)"

fun standard :: "der_tag \<Rightarrow> bool" where
  "standard (TOther b) = False"
| "standard t = True"

definition der_tlv :: "der_tag \<Rightarrow> bytes \<Rightarrow> bytes" where
  "der_tlv t c = element 0 (fst (tag_parts t)) (snd (tag_parts t)) c"

definition small :: "bytes \<Rightarrow> bool" where
  "small bs \<longleftrightarrow> length bs < 2 ^ 28"

text \<open>
  What the crate documents for inputs below its limit of 2^28 octets: a reader starts at the
  first octet; a header, a slice, an integer, an octet string and a boolean that are encoded in
  DER are read off the front; and the input is finished when nothing is left.
\<close>

definition reader_ok :: "crates \<Rightarrow> bool" where
  "reader_ok X \<longleftrightarrow>
     (\<forall>bs. small bs \<longrightarrow> slice_reader_new X bs = Inr bs)
     \<and> (\<forall>t c rest. standard t \<and> small (der_tlv t c @ rest) \<longrightarrow>
          der_decode_header X (der_tlv t c @ rest)
            = Inr (\<lparr>header_tag = t, header_length = length c\<rparr>, c @ rest)
          \<and> der_peek_header X (der_tlv t c @ rest) = Inr \<lparr>header_tag = t, header_length = length c\<rparr>)
     \<and> (\<forall>c rest. small (c @ rest) \<longrightarrow> der_read_slice X (c @ rest) (length c) = Inr (c, rest))
     \<and> (\<forall>i rest. small (der_tlv TInteger (int_content i) @ rest) \<longrightarrow>
          der_decode_int X (der_tlv TInteger (int_content i) @ rest) = Inr (int_content i, rest))
     \<and> (\<forall>c rest. small (der_tlv TOctetString c @ rest) \<longrightarrow>
          der_decode_octet_string X (der_tlv TOctetString c @ rest) = Inr (c, rest))
     \<and> (\<forall>b rest. small (der_tlv TBoolean [if b then 0xFF else 0] @ rest) \<longrightarrow>
          der_decode_bool X (der_tlv TBoolean [if b then 0xFF else 0] @ rest) = Inr (b, rest))
     \<and> (\<forall>bs. der_is_finished X bs \<longleftrightarrow> bs = [])"

lemma reader_okD:
  assumes "reader_ok X"
  shows "small bs \<Longrightarrow> slice_reader_new X bs = Inr bs"
    and "standard t \<Longrightarrow> small (der_tlv t c @ rest) \<Longrightarrow> der_decode_header X (der_tlv t c @ rest)
       = Inr (\<lparr>header_tag = t, header_length = length c\<rparr>, c @ rest)"
    and "standard t \<Longrightarrow> small (der_tlv t c @ rest) \<Longrightarrow> der_peek_header X (der_tlv t c @ rest)
       = Inr \<lparr>header_tag = t, header_length = length c\<rparr>"
    and "small (c @ rest) \<Longrightarrow> der_read_slice X (c @ rest) (length c) = Inr (c, rest)"
    and "small (der_tlv TInteger (int_content i) @ rest) \<Longrightarrow>
       der_decode_int X (der_tlv TInteger (int_content i) @ rest) = Inr (int_content i, rest)"
    and "small (der_tlv TOctetString c @ rest) \<Longrightarrow>
       der_decode_octet_string X (der_tlv TOctetString c @ rest) = Inr (c, rest)"
    and "small (der_tlv TBoolean [if b then 0xFF else 0] @ rest) \<Longrightarrow>
       der_decode_bool X (der_tlv TBoolean [if b then 0xFF else 0] @ rest) = Inr (b, rest)"
    and "der_is_finished X bs \<longleftrightarrow> bs = []"
proof -
  note c1 = assms [unfolded reader_ok_def]
  note c2 = c1 [THEN conjunct2] note c3 = c2 [THEN conjunct2] note c4 = c3 [THEN conjunct2]
  note c5 = c4 [THEN conjunct2] note c6 = c5 [THEN conjunct2]
  show "small bs \<Longrightarrow> slice_reader_new X bs = Inr bs"
    by (rule c1 [THEN conjunct1, rule_format])
  show "standard t \<Longrightarrow> small (der_tlv t c @ rest) \<Longrightarrow> der_decode_header X (der_tlv t c @ rest)
      = Inr (\<lparr>header_tag = t, header_length = length c\<rparr>, c @ rest)"
    by (rule c2 [THEN conjunct1, rule_format, THEN conjunct1]) (rule conjI)
  show "standard t \<Longrightarrow> small (der_tlv t c @ rest) \<Longrightarrow> der_peek_header X (der_tlv t c @ rest)
      = Inr \<lparr>header_tag = t, header_length = length c\<rparr>"
    by (rule c2 [THEN conjunct1, rule_format, THEN conjunct2]) (rule conjI)
  show "small (c @ rest) \<Longrightarrow> der_read_slice X (c @ rest) (length c) = Inr (c, rest)"
    by (rule c3 [THEN conjunct1, rule_format])
  show "small (der_tlv TInteger (int_content i) @ rest) \<Longrightarrow>
      der_decode_int X (der_tlv TInteger (int_content i) @ rest) = Inr (int_content i, rest)"
    by (rule c4 [THEN conjunct1, rule_format])
  show "small (der_tlv TOctetString c @ rest) \<Longrightarrow>
      der_decode_octet_string X (der_tlv TOctetString c @ rest) = Inr (c, rest)"
    by (rule c5 [THEN conjunct1, rule_format])
  show "small (der_tlv TBoolean [if b then 0xFF else 0] @ rest) \<Longrightarrow>
      der_decode_bool X (der_tlv TBoolean [if b then 0xFF else 0] @ rest) = Inr (b, rest)"
    by (rule c6 [THEN conjunct1, THEN spec, THEN spec, THEN mp])
  show "der_is_finished X bs \<longleftrightarrow> bs = []"
    by (rule c6 [THEN conjunct2, rule_format])
qed

lemma length_der_tlv: "length c < length (der_tlv t c)"
  by (simp add: der_tlv_def length_element)

lemma der_tlv_nonempty [simp]: "der_tlv t c \<noteq> []"
  by (simp add: der_tlv_def)

lemma small_rest: "small (a @ b) \<Longrightarrow> small b"
  by (simp add: small_def)

lemma small_first: "small (a @ b) \<Longrightarrow> small a"
  by (simp add: small_def)

lemma small_content: "small (der_tlv t c @ b) \<Longrightarrow> small (c @ b)"
  using length_der_tlv [of c t] by (simp add: small_def)

section \<open>Scalars\<close>

definition encode_i32 :: "i32 \<Rightarrow> bytes" where
  "encode_i32 w = der_tlv TInteger (int_content (sint w))"

definition encode_u64 :: "u64 \<Rightarrow> bytes" where
  "encode_u64 w = der_tlv TInteger (int_content (uint w))"

definition encode_enum :: "i32 \<Rightarrow> bytes" where
  "encode_enum w = der_tlv TEnumerated (int_content (sint w))"

lemma decode_i32_encode:
  assumes "reader_ok X" "small (encode_i32 w @ rest)"
  shows "decode_i32 X (encode_i32 w @ rest) = Ok (w, rest)"
  unfolding decode_i32_Ok_iff
  using reader_okD(5) [OF assms(1) assms(2) [unfolded encode_i32_def]] length_int_content_i32 [of w]
  by (simp add: encode_i32_def)

lemma decode_u64_encode:
  assumes "reader_ok X" "small (encode_u64 w @ rest)" "unat w < 2 ^ 63"
  shows "decode_u64 X (encode_u64 w @ rest) = Ok (w, rest)"
proof -
  have u: "nat (uint w) = unat w" by (rule nat_uint_eq)
  have "uint w < 2 ^ 63" using assms(3) of_nat_less_iff [of "unat w" "2 ^ 63", where 'a = int] by simp
  moreover have "- (2 ^ 63) \<le> uint w" by (rule order_trans [OF _ uint_ge_0]) simp
  ultimately have "length (int_content (uint w)) \<le> Suc 7"
    using length_int_content [of 7 "uint w"] by simp
  moreover have "be_nat (int_content (uint w)) = unat w" "\<not> is_negative (int_content (uint w))"
    using int_content_nonneg [OF uint_ge_0 [of w]] u by simp_all
  moreover have "der_decode_int X (encode_u64 w @ rest) = Inr (int_content (uint w), rest)"
    using assms(2) unfolding encode_u64_def by (rule reader_okD(5) [OF assms(1)])
  ultimately show ?thesis
    unfolding decode_u64_Ok_iff by (intro exI [of _ "int_content (uint w)"]) simp
qed

lemma decode_enumerated_encode:
  assumes "reader_ok X" "small (encode_enum w @ rest)"
  shows "decode_enumerated X (encode_enum w @ rest) = Ok (w, rest)"
proof -
  let ?c = "int_content (sint w)"
  have "small (?c @ rest)" using assms(2) unfolding encode_enum_def by (rule small_content)
  then have "der_read_slice X (?c @ rest) (length ?c) = Inr (?c, rest)"
    by (rule reader_okD(4) [OF assms(1)])
  moreover have "der_decode_header X (encode_enum w @ rest)
      = Inr (\<lparr>header_tag = TEnumerated, header_length = length ?c\<rparr>, ?c @ rest)"
    using assms(2) unfolding encode_enum_def by (intro reader_okD(2) [OF assms(1)]) simp_all
  ultimately show ?thesis
    unfolding decode_enumerated_Ok_iff using length_int_content_i32 [of w]
    by (intro exI [of _ "\<lparr>header_tag = TEnumerated, header_length = length ?c\<rparr>"]
        exI [of _ "?c @ rest"] exI [of _ ?c]) simp
qed

section \<open>The root of trust\<close>

fun boot_code :: "verified_boot_state \<Rightarrow> i32" where
  "boot_code Verified = 0"
| "boot_code SelfSigned = 1"
| "boot_code Unverified = 2"
| "boot_code Failed = 3"

fun level_code :: "security_level \<Rightarrow> i32" where
  "level_code Software = 0"
| "level_code TrustedEnvironment = 1"
| "level_code StrongBox = 2"

lemma boot_code_inverse [simp]: "verified_boot_state_from_i32 (boot_code st) = Some st"
  by (cases st) (simp_all add: verified_boot_state_from_i32.simps)

lemma level_code_inverse [simp]: "security_level_from_i32 (level_code l) = Some l"
  by (cases l) (simp_all add: security_level_from_i32.simps)

definition encode_bool :: "bool \<Rightarrow> bytes" where
  "encode_bool b = der_tlv TBoolean [if b then 0xFF else 0]"

definition encode_octets :: "bytes \<Rightarrow> bytes" where
  "encode_octets c = der_tlv TOctetString c"

definition encode_hash :: "bytes option \<Rightarrow> bytes" where
  "encode_hash h = (case h of None \<Rightarrow> [] | Some c \<Rightarrow> encode_octets c)"

definition root_of_trust_content :: "root_of_trust_block \<Rightarrow> bytes" where
  "root_of_trust_content r =
     encode_octets (verified_boot_key r) @ encode_bool (device_locked r)
     @ encode_enum (boot_code (boot_state r)) @ encode_hash (verified_boot_hash r)"

definition encode_root_of_trust :: "root_of_trust_block \<Rightarrow> bytes" where
  "encode_root_of_trust r = der_tlv TSequence (root_of_trust_content r)"

lemma decode_octets_encode:
  "reader_ok X \<Longrightarrow> small (encode_octets c @ rest) \<Longrightarrow>
   der_decode_octet_string X (encode_octets c @ rest) = Inr (c, rest)"
  unfolding encode_octets_def by (rule reader_okD(6))

lemma decode_bool_encode:
  "reader_ok X \<Longrightarrow> small (encode_bool b @ rest) \<Longrightarrow>
   der_decode_bool X (encode_bool b @ rest) = Inr (b, rest)"
  unfolding encode_bool_def by (rule reader_okD(7))

text \<open>A header and its content, which every composite decoder reads first.\<close>

lemma open_sequence:
  assumes "reader_ok X" "small (der_tlv t c @ rest)" "standard t"
  shows "der_decode_header X (der_tlv t c @ rest)
       = Inr (\<lparr>header_tag = t, header_length = length c\<rparr>, c @ rest)"
    and "der_read_slice X (c @ rest) (length c) = Inr (c, rest)"
    and "slice_reader_new X c = Inr c" and "small c"
proof -
  show c: "small c" using small_content [OF assms(2)] by (rule small_first)
  show "der_decode_header X (der_tlv t c @ rest)
       = Inr (\<lparr>header_tag = t, header_length = length c\<rparr>, c @ rest)"
    using assms by (intro reader_okD(2))
  show "der_read_slice X (c @ rest) (length c) = Inr (c, rest)"
    using assms(1) small_content [OF assms(2)] by (rule reader_okD(4))
  show "slice_reader_new X c = Inr c" using assms(1) c by (rule reader_okD(1))
qed

lemma decode_root_of_trust_encode:
  assumes X: "reader_ok X" and small: "small (encode_root_of_trust r @ rest)"
  shows "decode_root_of_trust X (encode_root_of_trust r @ rest) = Ok (r, rest)"
proof -
  let ?h = "encode_hash (verified_boot_hash r)"
  let ?s = "encode_enum (boot_code (boot_state r)) @ ?h"
  let ?b = "encode_bool (device_locked r) @ ?s"
  note open_rot = open_sequence [OF X small [unfolded encode_root_of_trust_def]]
  have small_c: "small (encode_octets (verified_boot_key r) @ ?b)"
    using open_rot(4) by (simp add: root_of_trust_content_def)
  note small_b = small_rest [OF small_c] note small_s = small_rest [OF small_b]
  note small_h = small_rest [OF small_s]
  have hash: "(if der_is_finished X ?h then Ok None
      else and_then (der (der_decode_octet_string X ?h)) (\<lambda>(hash, _). Ok (Some hash)))
      = Ok (verified_boot_hash r)"
    using decode_octets_encode [OF X, of _ "[]"] small_h
    by (cases "verified_boot_hash r")
       (simp_all add: encode_hash_def reader_okD(8) [OF X] der_def encode_octets_def)
  show ?thesis
    unfolding decode_root_of_trust_def encode_root_of_trust_def
    using open_rot decode_octets_encode [OF X small_c] decode_bool_encode [OF X small_b]
      decode_enumerated_encode [OF X small_s]
    by (simp add: root_of_trust_content_def der_def hash split del: if_split)
qed

section \<open>Authorization lists\<close>

text \<open>An optional field is an explicitly tagged element, or nothing.\<close>

definition field_bytes :: "nat \<Rightarrow> bytes option \<Rightarrow> bytes" where
  "field_bytes n c = (case c of None \<Rightarrow> [] | Some b \<Rightarrow> element 2 True n b)"

definition field_items :: "nat \<Rightarrow> bytes option \<Rightarrow> tlv list" where
  "field_items n c =
     (case c of
        None \<Rightarrow> []
      | Some b \<Rightarrow> [\<lparr>tlv_class = 2, tlv_constructed = True, tlv_number = word_of_nat n, tlv_body = b\<rparr>])"

definition authorization_fields :: "authorization_list \<Rightarrow> (nat \<times> bytes option) list" where
  "authorization_fields l =
     [(701, map_option encode_u64 (creation_date_time l)),
      (704, map_option encode_root_of_trust (root_of_trust l)),
      (705, map_option encode_i32 (os_version l)),
      (706, map_option encode_i32 (os_patch_level l)),
      (709, map_option encode_octets (application_id l))]"

definition authorization_content :: "authorization_list \<Rightarrow> bytes" where
  "authorization_content l = concat (map (\<lambda>(n, c). field_bytes n c) (authorization_fields l))"

definition encode_authorization_list :: "authorization_list \<Rightarrow> bytes" where
  "encode_authorization_list l = der_tlv TSequence (authorization_content l)"

lemma tlv_items_fields:
  assumes "small (concat (map (\<lambda>(n, c). field_bytes n c) fs))"
  shows "tlv_items (concat (map (\<lambda>(n, c). field_bytes n c) fs))
     = Some (concat (map (\<lambda>(n, c). field_items n c) fs))"
  using assms
proof (induction fs)
  case Nil
  then show ?case by (simp add: tlv_items.simps)
next
  case (Cons f fs)
  obtain n c where f: "f = (n, c)" by (cases f)
  let ?rest = "concat (map (\<lambda>(n, c). field_bytes n c) fs)"
  have IH: "tlv_items ?rest = Some (concat (map (\<lambda>(n, c). field_items n c) fs))"
    using Cons.prems by (intro Cons.IH) (simp add: f small_def)
  show ?case
  proof (cases c)
    case None
    with IH show ?thesis by (simp add: f field_bytes_def field_items_def)
  next
    case (Some b)
    then have "length b < 2 ^ 28"
      using Cons.prems length_element [of b 2 True n] by (simp add: f field_bytes_def small_def)
    with IH Some show ?thesis
      using tlv_items_element [of 2 b True n ?rest] by (simp add: f field_bytes_def field_items_def)
  qed
qed

text \<open>The content of each field is small when the list is, and is read back.\<close>

lemma field_content_small:
  assumes "(n, Some b) \<in> set fs" "small (concat (map (\<lambda>(n, c). field_bytes n c) fs))"
  shows "small (b @ [])"
proof -
  obtain us vs where "fs = us @ (n, Some b) # vs" using assms(1) by (auto dest: split_list)
  with assms(2) length_element [of b 2 True n] show ?thesis
    by (simp add: small_def field_bytes_def)
qed

definition authorization_ok :: "authorization_list \<Rightarrow> bool" where
  "authorization_ok l \<longleftrightarrow>
     (case creation_date_time l of None \<Rightarrow> True | Some t \<Rightarrow> unat t < 2 ^ 63)"

lemma authorization_items_decode:
  assumes X: "reader_ok X" and ok: "authorization_ok l" and small: "small (authorization_content l)"
  defines "es \<equiv> concat (map (\<lambda>(n, c). field_items n c) (authorization_fields l))"
  shows "list_all (element_ok X) es" and "fields_after X es authorization_list_default = l"
proof -
  have content: "small (b @ [])" if "(n, Some b) \<in> set (authorization_fields l)" for n b
    using that small unfolding authorization_content_def by (rule field_content_small)
  have new: "slice_reader_new X b = Inr b" if "(n, Some b) \<in> set (authorization_fields l)" for n b
    using content [OF that] by (intro reader_okD(1) [OF X]) simp
  have t: "read_field X (decode_u64 X) (encode_u64 n) = Some n" "slice_reader_new X (encode_u64 n) = Inr (encode_u64 n)"
    if "creation_date_time l = Some n" for n
    using decode_u64_encode [OF X, of n "[]"] new [of 701 "encode_u64 n"] content [of 701 "encode_u64 n"] ok that
    by (simp_all add: read_field_reader authorization_fields_def authorization_ok_def)
  have r: "read_field X (decode_root_of_trust X) (encode_root_of_trust r) = Some r"
    "slice_reader_new X (encode_root_of_trust r) = Inr (encode_root_of_trust r)"
    if "root_of_trust l = Some r" for r
    using decode_root_of_trust_encode [OF X, of r "[]"] new [of 704 "encode_root_of_trust r"]
      content [of 704 "encode_root_of_trust r"] that
    by (simp_all add: read_field_reader authorization_fields_def)
  have v: "read_field X (decode_i32 X) (encode_i32 n) = Some n" "slice_reader_new X (encode_i32 n) = Inr (encode_i32 n)"
    if "os_version l = Some n \<or> os_patch_level l = Some n" for n
    using decode_i32_encode [OF X, of n "[]"] new [of 705 "encode_i32 n"] content [of 705 "encode_i32 n"]
      new [of 706 "encode_i32 n"] content [of 706 "encode_i32 n"] that
    by (auto simp: read_field_reader authorization_fields_def)
  have a: "read_field X (\<lambda>ir. der (der_decode_octet_string X ir)) (encode_octets c) = Some c"
    "slice_reader_new X (encode_octets c) = Inr (encode_octets c)"
    if "application_id l = Some c" for c
    using decode_octets_encode [OF X, of c "[]"] new [of 709 "encode_octets c"]
      content [of 709 "encode_octets c"] that
    by (simp_all add: read_field_reader authorization_fields_def der_def)
  show "list_all (element_ok X) es"
    by (auto simp: es_def authorization_fields_def field_items_def element_ok_def is_field_def
        t r v a split: option.splits)
  show "fields_after X es authorization_list_default = l"
    by (cases l) (use t r v a in \<open>auto simp: es_def authorization_fields_def field_items_def
        fields_after_def last_field_simps is_field_def authorization_list_default_def split: option.splits\<close>)
qed

lemma decode_authorization_list_encode:
  assumes X: "reader_ok X" and ok: "authorization_ok l"
    and small: "small (encode_authorization_list l @ rest)"
  shows "decode_authorization_list X (encode_authorization_list l @ rest) = Ok (l, rest)"
proof -
  note open_list = open_sequence [OF X small [unfolded encode_authorization_list_def], simplified]
  have "tlv_items (authorization_content l)
      = Some (concat (map (\<lambda>(n, c). field_items n c) (authorization_fields l)))"
    using open_list(4) unfolding authorization_content_def by (rule tlv_items_fields)
  with open_list authorization_items_decode [OF X ok open_list(4)] show ?thesis
    unfolding decode_authorization_list_Ok_iff encode_authorization_list_def
    by (intro exI [of _ "\<lparr>header_tag = TSequence, header_length = length (authorization_content l)\<rparr>"]
        exI [of _ "authorization_content l @ rest"] exI [of _ "authorization_content l"]
        exI [of _ "concat (map (\<lambda>(n, c). field_items n c) (authorization_fields l))"]) simp
qed

section \<open>The extension\<close>

definition key_description_content :: "key_description \<Rightarrow> bytes" where
  "key_description_content kd =
     encode_i32 (attestation_version kd) @ encode_enum (level_code (attestation_security_level kd))
     @ encode_i32 (keymint_version kd) @ encode_enum (level_code (keymint_security_level kd))
     @ encode_octets (attestation_challenge kd) @ encode_octets (unique_id kd)
     @ encode_authorization_list (software_enforced kd)
     @ encode_authorization_list (hardware_enforced kd)"

definition encode_key_description :: "key_description \<Rightarrow> bytes" where
  "encode_key_description kd = der_tlv TSequence (key_description_content kd)"

lemma security_level_of_code: "security_level_of (level_code l) = Ok l"
  by (simp add: security_level_of_def)

lemma key_description_encode:
  assumes X: "reader_ok X" and small: "small (encode_key_description kd)"
    and ok: "authorization_ok (software_enforced kd)" "authorization_ok (hardware_enforced kd)"
  shows "key_description_from_der X (encode_key_description kd) = Ok kd"
proof -
  let ?c = "key_description_content kd"
  let ?e8 = "encode_authorization_list (hardware_enforced kd) @ []"
  let ?e7 = "encode_authorization_list (software_enforced kd) @ ?e8"
  let ?e6 = "encode_octets (unique_id kd) @ ?e7"
  let ?e5 = "encode_octets (attestation_challenge kd) @ ?e6"
  let ?e4 = "encode_enum (level_code (keymint_security_level kd)) @ ?e5"
  let ?e3 = "encode_i32 (keymint_version kd) @ ?e4"
  let ?e2 = "encode_enum (level_code (attestation_security_level kd)) @ ?e3"
  let ?e1 = "encode_i32 (attestation_version kd) @ ?e2"
  have small': "small (der_tlv TSequence ?c @ [])"
    using small by (simp add: encode_key_description_def)
  note open_kd = open_sequence [OF X small', simplified]
  have c: "?c = ?e1" by (simp add: key_description_content_def)
  have s1: "small ?e1" using open_kd(4) by (simp only: c)
  note s2 = small_rest [OF s1] note s3 = small_rest [OF s2] note s4 = small_rest [OF s3]
  note s5 = small_rest [OF s4] note s6 = small_rest [OF s5] note s7 = small_rest [OF s6]
  note s8 = small_rest [OF s7]
  note reads = decode_i32_encode [OF X s1] decode_enumerated_encode [OF X s2]
    decode_i32_encode [OF X s3] decode_enumerated_encode [OF X s4]
    decode_octets_encode [OF X s5] decode_octets_encode [OF X s6]
    decode_authorization_list_encode [OF X ok(1) s7] decode_authorization_list_encode [OF X ok(2) s8]
  have outer: "slice_reader_new X (der_tlv TSequence ?c) = Inr (der_tlv TSequence ?c)"
    "der_peek_header X (der_tlv TSequence ?c) = Inr \<lparr>header_tag = TSequence, header_length = length ?c\<rparr>"
    using reader_okD(1) [OF X small'] reader_okD(3) [OF X _ small'] by simp_all
  show ?thesis
    unfolding key_description_from_der_def encode_key_description_def c
    by (simp only: outer [unfolded c] open_kd [unfolded c] reads named_def unnamed_def der_def
        map_err.simps map_error.simps and_then.simps prod.case der_header.select_convs
        security_level_of_code simp_thms if_False) simp
qed

section \<open>The package identification\<close>

definition package_content :: "package_info \<Rightarrow> bytes" where
  "package_content p = encode_octets (package_name p) @ der_tlv TInteger (int_content (sint (package_version p)))"

definition encode_package :: "package_info \<Rightarrow> bytes" where
  "encode_package p = der_tlv TSequence (package_content p)"

definition application_id_content :: "attestation_application_id_block \<Rightarrow> bytes" where
  "application_id_content a =
     der_tlv TSet (concat (map encode_package (package_infos a)))
     @ der_tlv TSet (concat (map encode_octets (signature_digests a)))"

definition encode_application_id :: "attestation_application_id_block \<Rightarrow> bytes" where
  "encode_application_id a = der_tlv TSequence (application_id_content a)"

lemma package_step_encode:
  assumes X: "reader_ok X" and small: "small (encode_package p @ rest)"
  shows "package_step X (encode_package p @ rest) = Ok (p, rest)"
proof -
  note open_p = open_sequence [OF X small [unfolded encode_package_def], simplified]
  let ?v = "der_tlv TInteger (int_content (sint (package_version p))) @ []"
  have c: "package_content p = encode_octets (package_name p) @ ?v" by (simp add: package_content_def)
  have s1: "small (encode_octets (package_name p) @ ?v)" using open_p(4) by (simp only: c)
  have v: "decode_i64_from_int (int_content (sint (package_version p))) = Ok (package_version p)"
    using length_int_content_i64 [of "package_version p"] by (simp add: decode_i64_Ok_iff)
  show ?thesis
    unfolding package_step_def encode_package_def c
    by (simp only: open_p [unfolded c] decode_octets_encode [OF X s1]
        reader_okD(5) [OF X small_rest [OF s1]] v unnamed_def der_def map_err.simps map_error.simps
        and_then.simps prod.case der_header.select_convs simp_thms if_False) simp
qed

lemma digest_step_encode:
  "reader_ok X \<Longrightarrow> small (encode_octets c @ rest) \<Longrightarrow> digest_step X (encode_octets c @ rest) = Ok (c, rest)"
  by (simp add: digest_step_def unnamed_def der_def decode_octets_encode)

text \<open>A loop over a reader reads a sequence of encodings back.\<close>

lemma read_until_finished_encode:
  assumes "\<And>bs. der_is_finished X bs \<longleftrightarrow> bs = []" "\<And>x. enc x \<noteq> []"
    and "\<And>x rest. small (enc x @ rest) \<Longrightarrow> step (enc x @ rest) = Ok (x, rest)"
    and "small (concat (map enc xs))"
  shows "read_until_finished X step (concat (map enc xs)) acc = Some (Ok (acc @ xs))"
  using assms(4)
proof (induction xs arbitrary: acc)
  case Nil
  then show ?case by (subst read_until_finished.simps) (simp add: assms(1))
next
  case (Cons x xs)
  then have s: "small (enc x @ concat (map enc xs))" by simp
  have "enc x @ concat (map enc xs) \<noteq> []" using assms(2) by simp
  with Cons.IH [OF small_rest [OF s]] show ?case
    by (subst read_until_finished.simps) (simp add: assms(1) assms(3) [OF s])
qed

lemma open_set_encode:
  assumes "reader_ok X" "small (der_tlv TSet c @ rest)"
  shows "open_set X name (der_tlv TSet c @ rest) = Ok (c, rest)"
  using open_sequence [OF assms] by (simp add: open_set_def unnamed_def der_def)

lemma application_id_encode:
  assumes X: "reader_ok X" and small: "small (encode_application_id a)"
  shows "attestation_application_id X (encode_application_id a) = Some (Ok a)"
proof -
  let ?p = "concat (map encode_package (package_infos a))"
  let ?d = "concat (map encode_octets (signature_digests a))"
  let ?c = "application_id_content a"
  have small': "small (der_tlv TSequence ?c @ [])"
    using small by (simp add: encode_application_id_def)
  note open_a = open_sequence [OF X small', simplified]
  have sets: "small (der_tlv TSet ?p @ der_tlv TSet ?d @ [])"
    using open_a(4) by (simp add: application_id_content_def)
  note digests = small_rest [OF sets]
  have small_p: "small ?p" and small_d: "small ?d"
    using small_first [OF small_content [OF sets]] small_first [OF small_content [OF digests]] by simp_all
  have "open_aaid X (encode_application_id a) = Ok ?c"
    using open_a reader_okD(1) [OF X small']
    by (simp add: open_aaid_def encode_application_id_def named_def unnamed_def der_def)
  moreover have "open_set X ''packageInfos'' ?c = Ok (?p, der_tlv TSet ?d)"
    using open_set_encode [OF X sets] by (simp add: application_id_content_def)
  moreover have "open_set X ''signatureDigests'' (der_tlv TSet ?d) = Ok (?d, [])"
    using open_set_encode [OF X digests] by simp
  moreover have "read_until_finished X (package_step X) ?p [] = Some (Ok ([] @ package_infos a))"
    by (rule read_until_finished_encode)
       (use reader_okD(8) [OF X] package_step_encode [OF X] small_p in \<open>simp_all add: encode_package_def\<close>)
  moreover have "read_until_finished X (digest_step X) ?d [] = Some (Ok ([] @ signature_digests a))"
    by (rule read_until_finished_encode)
       (use reader_okD(8) [OF X] digest_step_encode [OF X] small_d in \<open>simp_all add: encode_octets_def\<close>)
  ultimately show ?thesis by (simp add: attestation_application_id_def)
qed

section \<open>A reader that keeps the contract\<close>

definition read_header :: "bytes \<Rightarrow> der_error + (der_header \<times> bytes)" where
  "read_header bs =
     (case parse_tlv_header bs 0 of
        Ok (c, k, t, h, l) \<Rightarrow> Inr (\<lparr>header_tag = tag_of_byte (hd bs), header_length = l\<rparr>, drop h bs)
      | _ \<Rightarrow> Inl Overflow)"

definition read_tagged :: "der_tag \<Rightarrow> bytes \<Rightarrow> der_error + (bytes \<times> bytes)" where
  "read_tagged t bs =
     (case read_header bs of
        Inl e \<Rightarrow> Inl e
      | Inr (h, rest) \<Rightarrow>
          if header_tag h = t then sample_slice rest (header_length h)
          else Inl (TagUnexpected t (header_tag h)))"

definition der_crates :: crates where
  "der_crates = sample_crates
     \<lparr>der_decode_header := read_header,
      der_peek_header := (\<lambda>bs. case read_header bs of Inl e \<Rightarrow> Inl e | Inr (h, _) \<Rightarrow> Inr h),
      der_decode_int := read_tagged TInteger,
      der_decode_octet_string := read_tagged TOctetString,
      der_decode_bool := (\<lambda>bs. case read_tagged TBoolean bs of
          Inl e \<Rightarrow> Inl e
        | Inr (c, rest) \<Rightarrow> if c = [0xFF] then Inr (True, rest)
            else if c = [0] then Inr (False, rest) else Inl (ValueError TBoolean))\<rparr>"

lemma read_header_der_tlv:
  assumes "standard t" "small (der_tlv t c @ rest)"
  shows "read_header (der_tlv t c @ rest)
     = Inr (\<lparr>header_tag = t, header_length = length c\<rparr>, c @ rest)"
proof -
  have c: "length c < 2 ^ 32"
    using assms(2) length_der_tlv [of c t] by (simp add: small_def)
  obtain h where "parse_tlv_header (der_tlv t c @ rest) 0
       = Ok (word_of_nat 0, fst (tag_parts t), word_of_nat (snd (tag_parts t)), h, length c)"
    "drop h (der_tlv t c @ rest) = c @ rest"
    using parse_element [of 0 c "fst (tag_parts t)" "snd (tag_parts t)" rest] c
    by (auto simp: der_tlv_def)
  moreover have "tag_of_byte (hd (der_tlv t c @ rest)) = t"
    using assms(1)
    by (cases t) (simp_all add: der_tlv_def element_def header_encode_def tag_form_def first_octet_def)
  ultimately show ?thesis by (simp add: read_header_def)
qed

lemma read_tagged_der_tlv:
  assumes "standard t" "small (der_tlv t c @ rest)"
  shows "read_tagged t (der_tlv t c @ rest) = Inr (c, rest)"
  using read_header_der_tlv [OF assms] by (simp add: read_tagged_def sample_slice_def)

lemma der_crates_ok: "reader_ok der_crates"
  unfolding reader_ok_def
  by (simp add: der_crates_def sample_crates_def read_header_der_tlv read_tagged_der_tlv
      sample_slice_def)

definition locked_root :: root_of_trust_block where
  "locked_root = \<lparr>verified_boot_key = [1, 2, 3], device_locked = True, boot_state = Verified,
     verified_boot_hash = Some [4, 5]\<rparr>"

definition full_description :: key_description where
  "full_description =
     \<lparr>attestation_version = 300, attestation_security_level = StrongBox, keymint_version = 300,
      keymint_security_level = TrustedEnvironment, attestation_challenge = [9, 9], unique_id = [],
      software_enforced = authorization_list_default\<lparr>creation_date_time := Some 1700000000000\<rparr>,
      hardware_enforced = authorization_list_default
        \<lparr>root_of_trust := Some locked_root, os_version := Some 140000, os_patch_level := Some (- 1)\<rparr>\<rparr>"

section \<open>Properties\<close>

text \<open>
  C7. Decoding inverts encoding: whatever key description is written in DER, in the field order
  and with the tags of the Android documentation, the decoder returns it; and in front of further
  input the decoder of an authorization list returns the written list and that of a root of trust
  the written block, each with the input that follows. This holds for every value of every field,
  integers of either sign included, as long as creation times are below 2^63 and each input is
  within the size limit of the DER reader.
\<close>

theorem key_description_roundtrip:
  assumes "reader_ok X" and "authorization_ok (software_enforced kd)"
    and "authorization_ok (hardware_enforced kd)" and "small (encode_key_description kd)"
    and "authorization_ok l" and "small (encode_authorization_list l @ rest)"
    and "small (encode_root_of_trust r @ rest)"
  shows "key_description_from_der X (encode_key_description kd) = Ok kd
    \<and> decode_authorization_list X (encode_authorization_list l @ rest) = Ok (l, rest)
    \<and> decode_root_of_trust X (encode_root_of_trust r @ rest) = Ok (r, rest)"
  using key_description_encode [OF assms(1,4,2,3)] decode_authorization_list_encode [OF assms(1,5,6)]
    decode_root_of_trust_encode [OF assms(1,7)] by simp

theorem key_description_roundtrip_witness:
  "key_description_from_der der_crates (encode_key_description full_description) = Ok full_description
   \<and> take 8 (encode_key_description full_description) = [0x30, 73, 2, 2, 1, 44, 10, 1]
   \<and> decode_authorization_list der_crates (encode_authorization_list (hardware_enforced full_description) @ [7])
       = Ok (hardware_enforced full_description, [7])"
proof -
  have len: "length (encode_key_description full_description) < 250"
    "length (encode_authorization_list (hardware_enforced full_description) @ [7]) < 250"
    "length (encode_root_of_trust locked_root @ [7]) < 250"
    by code_simp+
  have "small (encode_key_description full_description)" "small (encode_root_of_trust locked_root @ [7])"
    "small (encode_authorization_list (hardware_enforced full_description) @ [7])"
    using len unfolding small_def by simp_all
  moreover have "authorization_ok (software_enforced full_description)"
    "authorization_ok (hardware_enforced full_description)"
    by (simp_all add: full_description_def authorization_ok_def authorization_list_default_def)
  moreover have "take 8 (encode_key_description full_description) = [0x30, 73, 2, 2, 1, 44, 10, 1]"
    by code_simp
  ultimately show ?thesis using key_description_roundtrip [OF der_crates_ok] by blast
qed

text \<open>
  The same for the package identification: its decoder ends on every encoded block and
  returns the packages, with their signed 64-bit versions, and the digests in their order.
\<close>

lemma application_id_roundtrip:
  assumes "reader_ok X" and "small (encode_application_id a)"
  shows "attestation_application_id X (encode_application_id a) = Some (Ok a)"
  using assms by (rule application_id_encode)

definition sample_application_id :: attestation_application_id_block where
  "sample_application_id =
     \<lparr>package_infos = [\<lparr>package_name = [97, 98], package_version = - 1\<rparr>,
                       \<lparr>package_name = [99], package_version = 200\<rparr>],
      signature_digests = [[1], [2, 3]]\<rparr>"

end
