(* ===== verification/Apple_Device.thy ===== *)
theory Apple_Device
  imports Apple_Verify
begin

text \<open>
  An honest device: the encoders with which the test modules of \<open>attest-apple\<close> build
  authenticator data, COSE keys, attestation objects and signed assertions
  (\<open>authdata.rs\<close>, \<open>cose.rs\<close>, \<open>cbor.rs\<close>, \<open>assertion.rs\<close> under \<open>rust/attest-apple/src/\<close>).
  The CBOR writer and the signing key are arguments; what a theorem needs of them is that the
  reader returns the value that was written, and that a signature made with the key verifies.
  The theorems say what the verifiers answer to such inputs: an honest device is accepted, and
  a well-formed assertion gets exactly one verdict for each thing that can be wrong with it.
\<close>

section \<open>Authenticator data\<close>

definition authdata_build :: "bytes \<Rightarrow> u32 \<Rightarrow> bytes \<Rightarrow> bytes \<Rightarrow> bytes \<Rightarrow> bytes" where
  "authdata_build rp count ag cred_id cose =
     rp @ [AT_FLAG] @ be_bytes 4 (unat count) @ ag @ be_bytes 2 (length cred_id)
     @ cred_id @ cose"

definition auth_data_for :: "crates \<Rightarrow> string \<Rightarrow> u32 \<Rightarrow> bytes" where
  "auth_data_for X app_id count =
     sha256 X (as_bytes app_id) @ [0x00] @ be_bytes 4 (unat count)"

lemma authdata_parse_build:
  assumes "length rp = 32" "length ag = 16" "length cid < 2 ^ 16"
  shows "authdata_parse (authdata_build rp n ag cid cose) =
    Ok \<lparr>rp_id_hash = rp, flags = AT_FLAG, sign_count = n, aaguid = ag, credential_id = cid,
        credential_public_key = cose\<rparr>"
  using assms
  by (simp add: authdata_parse_Ok authdata_wf_def authdata_encode_def authdata_build_def AT_FLAG_def)

section \<open>CBOR objects\<close>

fun member :: "cbor_value \<Rightarrow> ('a \<Rightarrow> cbor_value) \<Rightarrow> 'a option \<Rightarrow> cbor_map" where
  "member k f None = []"
| "member k f (Some v) = [(k, f v)]"

definition cose_entries :: "int option \<Rightarrow> int option \<Rightarrow> int option \<Rightarrow> bytes option \<Rightarrow> bytes option
    \<Rightarrow> cbor_map" where
  "cose_entries kt al cr x y =
     member (CInteger 1) CInteger kt @ member (CInteger 3) CInteger al
     @ member (CInteger (- 1)) CInteger cr @ member (CInteger (- 2)) CBytes x
     @ member (CInteger (- 3)) CBytes y"

definition cose_key :: "(cbor_value \<Rightarrow> bytes) \<Rightarrow> int option \<Rightarrow> int option \<Rightarrow> int option
    \<Rightarrow> bytes option \<Rightarrow> bytes option \<Rightarrow> bytes" where
  "cose_key W kt al cr x y = W (CMap (cose_entries kt al cr x y))"

definition att_stmt :: "bytes list option \<Rightarrow> bytes option \<Rightarrow> cbor_value" where
  "att_stmt x5c receipt =
     CMap (member (CText ''x5c'') (\<lambda>certs. CArray (map CBytes certs)) x5c
           @ member (CText ''receipt'') CBytes receipt)"

definition object_value :: "string option \<Rightarrow> bytes option \<Rightarrow> cbor_value option \<Rightarrow> cbor_value" where
  "object_value fmt ad stmt =
     CMap (member (CText ''fmt'') CText fmt @ member (CText ''authData'') CBytes ad
           @ member (CText ''attStmt'') (\<lambda>s. s) stmt)"

definition build_object :: "(cbor_value \<Rightarrow> bytes) \<Rightarrow> string option \<Rightarrow> bytes option
    \<Rightarrow> cbor_value option \<Rightarrow> bytes" where
  "build_object W fmt ad stmt = W (object_value fmt ad stmt)"

definition assertion_value :: "bytes \<Rightarrow> bytes \<Rightarrow> cbor_value" where
  "assertion_value sig ad =
     CMap [(CText ''signature'', CBytes sig), (CText ''authenticatorData'', CBytes ad)]"

definition encode_assertion :: "(cbor_value \<Rightarrow> bytes) \<Rightarrow> bytes \<Rightarrow> bytes \<Rightarrow> bytes" where
  "encode_assertion W sig ad = W (assertion_value sig ad)"

text \<open>The signing key is the function from a digest to the DER signature over it.\<close>

definition sign :: "crates \<Rightarrow> (bytes \<Rightarrow> bytes) \<Rightarrow> bytes \<Rightarrow> bytes \<Rightarrow> bytes" where
  "sign X key ad client_data = key (sha256 X (ad @ sha256 X client_data))"

section \<open>What the decoders read\<close>

lemma text_keys_append [simp]: "text_keys (m @ m') \<longleftrightarrow> text_keys m \<and> text_keys m'"
  by (simp add: text_keys_def)

lemma text_keys_member [simp]: "text_keys (member (CText s) f v)"
  by (cases v) auto

definition i64_ok :: "int option \<Rightarrow> bool" where
  "i64_ok v \<longleftrightarrow> (case v of None \<Rightarrow> True | Some i \<Rightarrow> - (2 ^ 63) \<le> i \<and> i < 2 ^ 63)"

lemma cose_loop_entries:
  assumes "i64_ok kt" "i64_ok al" "i64_ok cr"
  shows "cose_loop (cose_entries kt al cr x y) cose_start =
    \<lparr>kty = kt, alg = al, crv = cr, coord_x = x, coord_y = y\<rparr>"
  using assms
  by (cases kt; cases al; cases cr; cases x; cases y)
     (simp_all add: cose_loop_eq cose_start_def cose_entries_def i64_ok_def as_i64_def i64_try_from_def)

lemma extract_cose_key:
  assumes "cbor_from_reader X (cose_key W kt al cr x y) = Inr (CMap (cose_entries kt al cr x y))"
    and "i64_ok kt" "i64_ok al" "i64_ok cr"
  shows "extract_p256_pk X (cose_key W kt al cr x y)
    = cose_finish \<lparr>kty = kt, alg = al, crv = cr, coord_x = x, coord_y = y\<rparr>"
  by (simp add: extract_p256_pk_def assms(1) cose_loop_entries [OF assms(2-4)])

lemma decode_assertion_encoded:
  assumes "cbor_from_reader X (encode_assertion W sig ad) = Inr (assertion_value sig ad)"
  shows "decode_assertion X (encode_assertion W sig ad) = Ok (sig, ad)"
  using assms by (auto simp: decode_assertion_Ok_iff assertion_value_def)

lemma decode_object_built:
  assumes "cbor_from_reader X (build_object W (Some fmt) (Some ad) (Some (att_stmt (Some certs) rc)))
    = Inr (object_value (Some fmt) (Some ad) (Some (att_stmt (Some certs) rc)))"
  shows "decode_attestation_object X (build_object W (Some fmt) (Some ad) (Some (att_stmt (Some certs) rc)))
    = Ok \<lparr>st_fmt = fmt, st_auth_data = ad, st_x5c = certs,
          st_receipt = (case rc of Some b \<Rightarrow> b | None \<Rightarrow> [])\<rparr>"
proof -
  have x5c: "is_ok (x5c_certs (CArray (map CBytes certs)))"
    by (auto simp: is_ok_iff x5c_certs_Ok_iff)
  show ?thesis
    using assms x5c
    by (cases rc)
       (auto simp: decode_attestation_object_Ok_iff object_value_def att_stmt_def x5c_entries_ok_def)
qed

section \<open>The verdict on an assertion\<close>

text \<open>What \<open>verify_assertion\<close> answers, as a function of the parts of a well-formed assertion.\<close>

definition assertion_verdict :: "crates \<Rightarrow> bytes \<Rightarrow> bytes \<Rightarrow> bytes \<Rightarrow> bytes \<Rightarrow> string
    \<Rightarrow> apple_error option" where
  "assertion_verdict X sig ad client_data attested_key app_id =
     (if length ad < 37
      then Some (Cbor (''authenticatorData too short: '' @ show_nat (length ad) @ '' bytes''))
      else if take 32 ad \<noteq> sha256 X (as_bytes app_id) then Some RpIdHashMismatch
      else (case p256_key_from_sec1 X attested_key of
              Inl e \<Rightarrow> Some (Der (''attested key parse: '' @ e))
            | Inr key \<Rightarrow>
                (case p256_signature_from_der X sig of
                   Inl e \<Rightarrow> Some (Der (''assertion signature parse: '' @ e))
                 | Inr s \<Rightarrow>
                     if p256_verify_prehash X key (sha256 X (ad @ sha256 X client_data)) s
                     then None else Some UntrustedChain)))"

lemma verify_assertion_decoded:
  assumes "decode_assertion X obj = Ok (sig, ad)"
  shows "verify_assertion X obj client_data attested_key app_id t =
    (case assertion_verdict X sig ad client_data attested_key app_id of
       Some e \<Rightarrow> Err e
     | None \<Rightarrow> Ok \<lparr>source = APPLE_APP_ATTEST_ASSERTION, attested_value = attested_key,
                   challenge = client_data, timestamp_ms = t, detail_hash = sha256 X obj\<rparr>)"
  using assms
  by (simp add: verify_assertion_def assertion_verdict_def slice_def Let_def split: sum.splits)

lemma auth_data_for_simps:
  assumes "sha256_ok X"
  shows "length (auth_data_for X app_id n) = 37" "take 32 (auth_data_for X app_id n) = sha256 X (as_bytes app_id)"
  using assms by (simp_all add: auth_data_for_def sha256_ok_def del: be_bytes.simps)

lemma assertion_verdict_honest:
  assumes "sha256_ok X" "p256_key_from_sec1 X pk = Inr key"
    "p256_signature_from_der X (sign X signer (auth_data_for X app_id n) client_data) = Inr s"
    "p256_verify_prehash X key (sha256 X (auth_data_for X app_id n @ sha256 X client_data)) s"
  shows "assertion_verdict X (sign X signer (auth_data_for X app_id n) client_data)
    (auth_data_for X app_id n) client_data pk app_id = None"
  using assms by (simp add: assertion_verdict_def auth_data_for_simps)

section \<open>A sample device\<close>

text \<open>The CBOR writer that belongs to the three objects the sample crates read.\<close>

fun sample_writer :: "cbor_value \<Rightarrow> bytes" where
  "sample_writer (CMap ((CText k, v) # m)) = (if k = ''signature'' then [3] else [1])"
| "sample_writer _ = [2]"

definition sample_signer :: "bytes \<Rightarrow> bytes" where
  "sample_signer digest = 60 # digest"

lemma sample_sha256: "sha256 sample_crates = sample_hash" "sha256_ok sample_crates"
  by (auto simp: sample_crates_def sha256_ok_def sample_hash_def min_def)

lemma sample_assertion_read:
  "auth_data_for sample_crates ''app'' 1 = sample_rp @ [0, 0, 0, 0, 1]"
  "sign sample_crates sample_signer (auth_data_for sample_crates ''app'' 1) [5]
     = 60 # sample_hash (sample_rp @ [0, 0, 0, 0, 1] @ sample_hash [5])"
  "cbor_from_reader sample_crates [3]
     = Inr (assertion_value (60 # sample_hash (sample_rp @ [0, 0, 0, 0, 1] @ sample_hash [5]))
              (sample_rp @ [0, 0, 0, 0, 1]))"
proof -
  show ad: "auth_data_for sample_crates ''app'' 1 = sample_rp @ [0, 0, 0, 0, 1]"
    by (simp add: auth_data_for_def sample_sha256 sample_rp_def be_bytes_numeral)
  show "sign sample_crates sample_signer (auth_data_for sample_crates ''app'' 1) [5]
     = 60 # sample_hash (sample_rp @ [0, 0, 0, 0, 1] @ sample_hash [5])"
    by (simp add: sign_def sample_signer_def ad sample_sha256)
  show "cbor_from_reader sample_crates [3]
     = Inr (assertion_value (60 # sample_hash (sample_rp @ [0, 0, 0, 0, 1] @ sample_hash [5]))
              (sample_rp @ [0, 0, 0, 0, 1]))"
    by (simp add: sample_crates_def assertion_value_def)
qed

section \<open>Properties\<close>

text \<open>
  An honest assertion is accepted. Whatever app, counter and client data: the authenticator
  data of the app, signed together with the client data by a key whose signatures verify, and
  written as CBOR that reads back, is accepted under that key, and the outcome carries the key,
  the client data and the hash of the object.
\<close>

lemma honest_assertion_accepted:
  assumes "sha256_ok X"
    and "ad = auth_data_for X app_id n" and "sig = sign X signer ad client_data"
    and "cbor_from_reader X (encode_assertion W sig ad) = Inr (assertion_value sig ad)"
    and "p256_key_from_sec1 X pk = Inr key" and "p256_signature_from_der X sig = Inr s"
    and "p256_verify_prehash X key (sha256 X (ad @ sha256 X client_data)) s"
  shows "verify_assertion X (encode_assertion W sig ad) client_data pk app_id t =
    Ok \<lparr>source = APPLE_APP_ATTEST_ASSERTION, attested_value = pk, challenge = client_data,
        timestamp_ms = t, detail_hash = sha256 X (encode_assertion W sig ad)\<rparr>"
  using assms verify_assertion_decoded [OF decode_assertion_encoded [OF assms(4)]]
  by (simp add: assertion_verdict_honest)

lemma honest_assertion_sample:
  "verify_assertion sample_crates [3] [5] [60] ''app'' 5000 =
    Ok \<lparr>source = APPLE_APP_ATTEST_ASSERTION, attested_value = [60], challenge = [5],
        timestamp_ms = 5000, detail_hash = sample_hash [3]\<rparr>"
proof -
  define ad where "ad = auth_data_for sample_crates ''app'' 1"
  define sig where "sig = sign sample_crates sample_signer ad [5]"
  have enc: "encode_assertion sample_writer sig ad = [3]"
    by (simp add: encode_assertion_def assertion_value_def)
  have read: "cbor_from_reader sample_crates (encode_assertion sample_writer sig ad)
      = Inr (assertion_value sig ad)"
    unfolding enc unfolding sig_def ad_def sample_assertion_read(2) unfolding sample_assertion_read(1)
    by (rule sample_assertion_read(3))
  have "p256_key_from_sec1 sample_crates [60] = Inr [60]" "p256_signature_from_der sample_crates sig = Inr sig"
    "p256_verify_prehash sample_crates [60] (sha256 sample_crates (ad @ sha256 sample_crates [5])) sig"
    by (simp_all add: sig_def sign_def sample_signer_def sample_crates_def)
  from honest_assertion_accepted [OF sample_sha256(2) ad_def sig_def read this]
  show ?thesis by (simp add: enc sample_sha256)
qed

text \<open>
  COSE keys round trip. A key written from optional members is read with exactly these members:
  it yields the uncompressed point of its two 32-byte coordinates when type, algorithm and curve
  say ES256 on P-256, and otherwise the error of the first member, in the order type, algorithm,
  curve, x, y, lengths, that is absent or wrong.
\<close>

lemma cose_key_roundtrip:
  assumes "cbor_from_reader X (cose_key W kt al cr x y) = Inr (CMap (cose_entries kt al cr x y))"
    and "i64_ok kt" "i64_ok al" "i64_ok cr"
  shows "extract_p256_pk X (cose_key W kt al cr x y) =
    (if kt \<noteq> Some 2 then Err NotP256
     else if al \<noteq> Some (- 7) then Err (Cose (''alg must be -7 (ES256), got '' @ debug_int_option al))
     else if cr \<noteq> Some 1 then Err NotP256
     else (case x of
             None \<Rightarrow> Err (Cose ''missing x coordinate'')
           | Some bx \<Rightarrow>
               (case y of
                  None \<Rightarrow> Err (Cose ''missing y coordinate'')
                | Some b_y \<Rightarrow>
                    if length bx = 32 \<and> length b_y = 32 then Ok (0x04 # bx @ b_y)
                    else Err (Cose (''x/y must be 32 bytes (got x='' @ show_nat (length bx)
                                    @ '', y='' @ show_nat (length b_y) @ '')'')))))"
  unfolding extract_cose_key [OF assms]
  by (cases x; cases y) (simp_all add: cose_finish_def to_array_def)

text \<open>
  An honest attestation is accepted. Take the app's hash, a counter of 0, the aaguid of the
  environment, any credential id and the COSE form of a P-256 key as authenticator data, with a
  certificate list that is a valid chain for the pinned root whose leaf carries the nonce of
  this data and the challenge, with or without a receipt. Written as CBOR that reads back, the
  object is accepted for the hash of the key as key id, and the outcome carries the key, the
  challenge and the hash of the object.
\<close>

lemma honest_attestation_accepted:
  assumes "sha256_ok X"
    and "cose = cose_key W (Some 2) (Some (- 7)) (Some 1) (Some x) (Some y)"
    and "ad = authdata_build (sha256 X (as_bytes app_id)) 0
           (if production then AAGUID_PRODUCTION else AAGUID_DEVELOPMENT) cid cose"
    and "obj = build_object W (Some ''apple-appattest'') (Some ad) (Some (att_stmt (Some x5c) receipt))"
    and "cbor_from_reader X cose
           = Inr (CMap (cose_entries (Some 2) (Some (- 7)) (Some 1) (Some x) (Some y)))"
    and "cbor_from_reader X obj
           = Inr (object_value (Some ''apple-appattest'') (Some ad) (Some (att_stmt (Some x5c) receipt)))"
    and "length x = 32" "length y = 32" "length cid < 2 ^ 16"
    and "apple_chain_ok X root_der x5c t certs"
    and "nonce_of X (hd certs) (sha256 X (ad @ sha256 X chal))"
  shows "verify_app_attest X root_der obj (sha256 X (0x04 # x @ y)) chal app_id production t =
    Ok \<lparr>source = APPLE_APP_ATTEST, attested_value = 0x04 # x @ y, challenge = chal,
        timestamp_ms = t, detail_hash = sha256 X obj\<rparr>"
proof -
  let ?ag = "if production then AAGUID_PRODUCTION else AAGUID_DEVELOPMENT"
  have ag: "length ?ag = 16"
    by (simp add: AAGUID_PRODUCTION_def AAGUID_DEVELOPMENT_def)
  have "authdata_parse ad = Ok \<lparr>rp_id_hash = sha256 X (as_bytes app_id), flags = AT_FLAG,
      sign_count = 0, aaguid = ?ag, credential_id = cid, credential_public_key = cose\<rparr>"
    unfolding assms(3) using assms(1,9) ag by (intro authdata_parse_build) (simp_all add: sha256_ok_def)
  moreover have "decode_attestation_object X obj = Ok \<lparr>st_fmt = ''apple-appattest'', st_auth_data = ad,
      st_x5c = x5c, st_receipt = (case receipt of Some b \<Rightarrow> b | None \<Rightarrow> [])\<rparr>"
    using assms(4,6) decode_object_built by metis
  moreover have "extract_p256_pk X cose = Ok (0x04 # x @ y)"
    using assms(2,5,7,8) cose_loop_entries [of "Some 2" "Some (- 7)" "Some 1" "Some x" "Some y"]
    by (simp add: extract_p256_pk_def cose_finish_def to_array_def i64_ok_def)
  moreover have "apple_validate_x5c_chain X root_der x5c t = Ok (hd certs)"
    using assms(10) by (auto simp: apple_validate_Ok_iff)
  moreover have "extract_nonce_extension X (hd certs) = Ok (sha256 X (ad @ sha256 X chal))"
    using assms(11) by (simp add: extract_nonce_Ok_iff)
  ultimately show ?thesis
    by (simp add: verify_app_attest_def key_id_input_def)
qed

end
