(* ===== verification/Cbor_Encoding.thy ===== *)
theory Cbor_Encoding
  imports Apple_Cbor
begin

text \<open>
  The wire format of CBOR (RFC 8949) for the values App Attest uses: a relation between a value
  and its definite-length encodings, in all the widths of a head, and the writer that chooses
  the shortest. The client's reader is proved to follow the relation; the crate \<open>ciborium\<close> is
  documented to.
\<close>

section \<open>CBOR encodings\<close>

text \<open>
  The definite-length encodings of RFC 8949: a head of a major type and a number, in any of the
  widths the number fits, followed by the content. Tags, floats and simple values are left out:
  App Attest uses none, and the client's reader refuses them.
\<close>

definition cbor_head :: "nat \<Rightarrow> nat \<Rightarrow> bytes \<Rightarrow> bool" where
  "cbor_head m n h \<longleftrightarrow>
     n < 24 \<and> h = [word_of_nat (32 * m + n)]
     \<or> list_ex (\<lambda>k. n < 256 ^ (2 ^ k) \<and> h = word_of_nat (32 * m + 24 + k) # be_bytes (2 ^ k) n) [0, 1, 2, 3]"

definition map_items :: "cbor_map \<Rightarrow> cbor_value list" where
  "map_items m = concat (map (\<lambda>(k, v). [k, v]) m)"

inductive cbor_enc :: "cbor_value \<Rightarrow> bytes \<Rightarrow> bool" and cbor_encs :: "cbor_value list \<Rightarrow> bytes \<Rightarrow> bool" where
  enc_uint: "0 \<le> i \<Longrightarrow> cbor_head 0 (nat i) h \<Longrightarrow> cbor_enc (CInteger i) h"
| enc_nint: "i < 0 \<Longrightarrow> cbor_head 1 (nat (- 1 - i)) h \<Longrightarrow> cbor_enc (CInteger i) h"
| enc_bytes: "cbor_head 2 (length b) h \<Longrightarrow> cbor_enc (CBytes b) (h @ b)"
| enc_text: "cbor_head 3 (length s) h \<Longrightarrow> cbor_enc (CText s) (h @ as_bytes s)"
| enc_array: "cbor_head 4 (length vs) h \<Longrightarrow> cbor_encs vs bs \<Longrightarrow> cbor_enc (CArray vs) (h @ bs)"
| enc_map: "cbor_head 5 (length m) h \<Longrightarrow> cbor_encs (map_items m) bs \<Longrightarrow> cbor_enc (CMap m) (h @ bs)"
| encs_Nil: "cbor_encs [] []"
| encs_Cons: "cbor_enc v b \<Longrightarrow> cbor_encs vs bs \<Longrightarrow> cbor_encs (v # vs) (b @ bs)"

inductive_cases cbor_enc_intE: "cbor_enc (CInteger i) b"
inductive_cases cbor_enc_bytesE: "cbor_enc (CBytes x) b"
inductive_cases cbor_enc_textE: "cbor_enc (CText s) b"
inductive_cases cbor_enc_mapE: "cbor_enc (CMap m) b"
inductive_cases cbor_encs_ConsE: "cbor_encs (v # vs) b"
inductive_simps cbor_encs_Nil_iff [simp]: "cbor_encs [] b"

lemma cbor_head_cases [consumes 1, case_names short long]:
  assumes "cbor_head m n h"
  obtains "n < 24" "h = [word_of_nat (32 * m + n)]"
  | k where "k \<le> 3" "n < 256 ^ (2 ^ k)" "h = word_of_nat (32 * m + (24 + k)) # be_bytes (2 ^ k) n"
  using assms that(1) that(2) [of 0] that(2) [of 1] that(2) [of 2] that(2) [of 3]
  by (auto simp: cbor_head_def)

lemma cbor_head_length: "cbor_head m n h \<Longrightarrow> 0 < length h"
  by (auto elim: cbor_head_cases)

lemma cbor_head_less: "cbor_head m n h \<Longrightarrow> n < 2 ^ 64"
proof (erule cbor_head_cases)
  fix k assume "k \<le> 3" "n < 256 ^ (2 ^ k)"
  moreover from this(1) have "(256 :: nat) ^ (2 ^ k) \<le> 256 ^ (2 ^ 3)"
    by (intro power_increasing) auto
  ultimately show ?thesis by simp
qed simp

lemma cbor_enc_length:
  "cbor_enc v b \<Longrightarrow> 0 < length b"
  "cbor_encs vs bs \<Longrightarrow> length vs \<le> length bs"
  by (induction rule: cbor_enc_cbor_encs.inducts) (auto dest: cbor_head_length simp: neq_Nil_conv)

lemma length_map_items [simp]: "length (map_items m) = 2 * length m"
  by (induction m) (auto simp: map_items_def)

lemma map_items_simps [simp]: "map_items [] = []" "map_items ((k, v) # m) = k # v # map_items m"
  by (simp_all add: map_items_def)

section \<open>The shortest encoding\<close>

definition write_head :: "nat \<Rightarrow> nat \<Rightarrow> bytes" where
  "write_head m n =
     (if n < 24 then [word_of_nat (32 * m + n)]
      else if n < 256 then word_of_nat (32 * m + 24) # be_bytes 1 n
      else if n < 256 ^ 2 then word_of_nat (32 * m + 25) # be_bytes 2 n
      else if n < 256 ^ 4 then word_of_nat (32 * m + 26) # be_bytes 4 n
      else word_of_nat (32 * m + 27) # be_bytes 8 n)"

fun cbor_write :: "cbor_value \<Rightarrow> bytes" where
  "cbor_write (CInteger i) = (if 0 \<le> i then write_head 0 (nat i) else write_head 1 (nat (- 1 - i)))"
| "cbor_write (CBytes b) = write_head 2 (length b) @ b"
| "cbor_write (CText s) = write_head 3 (length s) @ as_bytes s"
| "cbor_write (CArray vs) = write_head 4 (length vs) @ concat (map cbor_write vs)"
| "cbor_write (CMap m) = write_head 5 (length m) @ concat (map (\<lambda>(k, v). cbor_write k @ cbor_write v) m)"
| "cbor_write _ = []"

text \<open>The values the writer covers; a head holds a number below 2^64.\<close>

fun cbor_plain :: "cbor_value \<Rightarrow> bool" where
  "cbor_plain (CInteger i) \<longleftrightarrow> - (2 ^ 64) \<le> i \<and> i < 2 ^ 64"
| "cbor_plain (CBytes b) \<longleftrightarrow> length b < 2 ^ 64"
| "cbor_plain (CText s) \<longleftrightarrow> length s < 2 ^ 64"
| "cbor_plain (CArray vs) \<longleftrightarrow> length vs < 2 ^ 64 \<and> list_all cbor_plain vs"
| "cbor_plain (CMap m) \<longleftrightarrow> length m < 2 ^ 64 \<and> list_all (\<lambda>(k, v). cbor_plain k \<and> cbor_plain v) m"
| "cbor_plain _ \<longleftrightarrow> False"

lemma write_head_ok: "n < 2 ^ 64 \<Longrightarrow> cbor_head m n (write_head m n)"
  by (auto simp: cbor_head_def write_head_def)

lemma cbor_write_enc: "cbor_plain v \<Longrightarrow> cbor_enc v (cbor_write v)"
proof (induction v rule: cbor_write.induct)
  case (1 i)
  then show ?case
    using write_head_ok [of "nat i" 0] write_head_ok [of "nat (- 1 - i)" 1]
    by (cases "0 \<le> i") (simp_all add: enc_uint enc_nint nat_less_iff)
next
  case (2 b)
  then show ?case by (auto intro!: enc_bytes write_head_ok)
next
  case (3 s)
  then show ?case by (auto intro!: enc_text write_head_ok)
next
  case (4 vs)
  have "cbor_encs us (concat (map cbor_write us))" if "set us \<subseteq> set vs" for us
    using that 4 by (induction us) (auto intro!: encs_Nil encs_Cons simp: list_all_iff)
  with 4 show ?case by (auto intro!: enc_array write_head_ok)
next
  case (5 m)
  have "cbor_encs (map_items us) (concat (map (\<lambda>(k, v). cbor_write k @ cbor_write v) us))"
    if "set us \<subseteq> set m" for us
    using that
  proof (induction us)
    case Nil
    then show ?case by (simp add: encs_Nil)
  next
    case (Cons kv us)
    obtain k v where kv: "kv = (k, v)" by (cases kv)
    with Cons.prems 5 have "cbor_enc k (cbor_write k)" "cbor_enc v (cbor_write v)"
      by (fastforce simp: list_all_iff)+
    with Cons kv show ?case by (simp add: encs_Cons)
  qed
  with 5 show ?case by (auto intro!: enc_map write_head_ok)
qed auto

end
