(* ===== verification/Client_Cbor.thy ===== *)
theory Client_Cbor
  imports Apple_Device Android_StatusList Cbor_Encoding
begin

text \<open>
  The CBOR reader of the iOS demo (\<open>ios-demo/AttestKitDemo/AppAttestCBOR.swift\<close>): the struct
  \<open>CBORReader\<close> with its mutating methods, and \<open>extractAttestedPublicKey\<close>, with which the client
  takes the public key out of an attestation object. A mutating method that throws is a function
  from the reader to a result with the new reader; a Swift trap (a conversion or an addition that
  does not fit 64 bits) is \<open>Panic\<close>. The lemmas say that the reader follows the encoding relation
  below and that the client finds the key which the verifier attests.
\<close>

section \<open>The reader\<close>

datatype client_cbor_error =
    Truncated
  | UnexpectedType u8
  | MissingKey string
  | MalformedKey
  | MissingField int
  | WrongCurve

record cbor_reader =
  reader_bytes :: bytes
  reader_pos :: nat

type_synonym 'a reading = "('a \<times> cbor_reader, client_cbor_error) result"

definition CBORReader :: "bytes \<Rightarrow> cbor_reader" where
  "CBORReader bs = \<lparr>reader_bytes = bs, reader_pos = 0\<rparr>"

text \<open>\<open>Int(_:)\<close> and \<open>Int64(_:)\<close> of a \<open>UInt64\<close>, and \<open>+\<close> on non-negative \<open>Int\<close>s: they trap.\<close>

definition int_of_u64 :: "u64 \<Rightarrow> (nat, 'e) result" where
  "int_of_u64 v = (if unat v < 2 ^ 63 then Ok (unat v) else Panic)"

definition int_add :: "nat \<Rightarrow> nat \<Rightarrow> (nat, 'e) result" where
  "int_add a b = (if a + b < 2 ^ 63 then Ok (a + b) else Panic)"

definition readByte :: "cbor_reader \<Rightarrow> u8 reading" where
  "readByte r =
     (if reader_pos r < length (reader_bytes r)
      then Ok (reader_bytes r ! reader_pos r, r\<lparr>reader_pos := reader_pos r + 1\<rparr>)
      else Err Truncated)"

text \<open>\<open>for _ in 0..<k { v = (v << 8) | UInt64(try readByte()) }\<close>\<close>

fun read_bytes_be :: "nat \<Rightarrow> u64 \<Rightarrow> cbor_reader \<Rightarrow> u64 reading" where
  "read_bytes_be 0 v r = Ok (v, r)"
| "read_bytes_be (Suc k) v r =
     and_then (readByte r) (\<lambda>(b, r). read_bytes_be k (push_bit 8 v OR ucast b) r)"

definition readLength :: "u8 \<Rightarrow> cbor_reader \<Rightarrow> u64 reading" where
  "readLength info r =
     (if info \<le> 23 then Ok (ucast info, r)
      else if info = 24 then and_then (readByte r) (\<lambda>(b, r). Ok (ucast b, r))
      else if info = 25 then
        and_then (readByte r) (\<lambda>(a, r). and_then (readByte r) (\<lambda>(b, r).
          Ok (push_bit 8 (ucast a) OR ucast b, r)))
      else if info = 26 then read_bytes_be 4 0 r
      else if info = 27 then read_bytes_be 8 0 r
      else Err (UnexpectedType info))"

definition major_of :: "u8 \<Rightarrow> u8" where
  "major_of h = drop_bit 5 h"

definition info_of :: "u8 \<Rightarrow> u8" where
  "info_of h = h AND 0x1F"

text \<open>The common part of \<open>readBytes\<close> and \<open>readText\<close>: a string of major type \<open>m\<close>.\<close>

definition read_slice :: "u8 \<Rightarrow> cbor_reader \<Rightarrow> bytes reading" where
  "read_slice m r =
     and_then (readByte r) (\<lambda>(h, r).
     if major_of h \<noteq> m then Err (UnexpectedType h) else
     and_then (readLength (info_of h) r) (\<lambda>(v, r).
     and_then (int_of_u64 v) (\<lambda>len.
     and_then (int_add (reader_pos r) len) (\<lambda>last.
     if length (reader_bytes r) < last then Err Truncated else
     and_then (slice (reader_bytes r) (reader_pos r) last) (\<lambda>s.
     Ok (s, r\<lparr>reader_pos := last\<rparr>))))))"

definition readBytes :: "cbor_reader \<Rightarrow> bytes reading" where
  "readBytes r = read_slice 2 r"

definition readText :: "cbor_reader \<Rightarrow> string reading" where
  "readText r =
     and_then (read_slice 3 r) (\<lambda>(s, r).
     Ok (case from_utf8 s of Inr t \<Rightarrow> t | Inl e \<Rightarrow> [], r))"

text \<open>\<open>-1 - v\<close> cannot overflow: \<open>v\<close> is a non-negative \<open>Int64\<close>.\<close>

definition readInt :: "cbor_reader \<Rightarrow> int reading" where
  "readInt r =
     and_then (readByte r) (\<lambda>(h, r).
     and_then (readLength (info_of h) r) (\<lambda>(u, r).
     and_then (int_of_u64 u) (\<lambda>v.
     if major_of h = 0 then Ok (int v, r)
     else if major_of h = 1 then Ok (- 1 - int v, r)
     else Err (UnexpectedType h))))"

definition readMapHeader :: "cbor_reader \<Rightarrow> nat reading" where
  "readMapHeader r =
     and_then (readByte r) (\<lambda>(h, r).
     if major_of h \<noteq> 5 then Err (UnexpectedType h) else
     and_then (readLength (info_of h) r) (\<lambda>(v, r).
     and_then (int_of_u64 v) (\<lambda>n. Ok (n, r))))"

section \<open>Skipping a value\<close>

lemma readByte_Ok_iff:
  "readByte r = Ok (b, r') \<longleftrightarrow> reader_pos r < length (reader_bytes r)
     \<and> b = reader_bytes r ! reader_pos r \<and> r' = r\<lparr>reader_pos := reader_pos r + 1\<rparr>"
  by (auto simp: readByte_def)

lemma read_bytes_be_mono:
  "read_bytes_be k v r = Ok (u, r') \<Longrightarrow>
     reader_bytes r' = reader_bytes r \<and> reader_pos r \<le> reader_pos r'"
proof (induction k arbitrary: v r)
  case 0
  then show ?case by simp
next
  case (Suc k)
  from Suc.prems obtain b r1 where "readByte r = Ok (b, r1)"
    "read_bytes_be k (push_bit 8 v OR ucast b) r1 = Ok (u, r')"
    by (auto simp: result_simps)
  with Suc.IH [of "push_bit 8 v OR ucast b" r1] show ?case by (simp add: readByte_Ok_iff)
qed

lemma readLength_mono:
  "readLength info r = Ok (v, r') \<Longrightarrow>
     reader_bytes r' = reader_bytes r \<and> reader_pos r \<le> reader_pos r'"
  by (auto simp: readLength_def result_simps readByte_Ok_iff split: if_splits
      dest: read_bytes_be_mono)

text \<open>
  \<open>skip_times k\<close> is a loop that skips \<open>k\<close> values: \<open>n\<close> for an array, two for each of the \<open>n\<close>
  entries of a map.
\<close>

function (sequential) skipValue :: "cbor_reader \<Rightarrow> unit reading"
  and skip_times :: "nat \<Rightarrow> cbor_reader \<Rightarrow> unit reading" where
  "skipValue r =
     and_then (readByte r) (\<lambda>(h, r).
     if major_of h = 0 \<or> major_of h = 1 then
       and_then (readLength (info_of h) r) (\<lambda>(_, r). Ok ((), r))
     else if major_of h = 2 \<or> major_of h = 3 then
       and_then (readLength (info_of h) r) (\<lambda>(v, r).
       and_then (int_of_u64 v) (\<lambda>n.
       and_then (int_add (reader_pos r) n) (\<lambda>p. Ok ((), r\<lparr>reader_pos := p\<rparr>))))
     else if major_of h = 4 then
       and_then (readLength (info_of h) r) (\<lambda>(v, r).
       and_then (int_of_u64 v) (\<lambda>n. skip_times n r))
     else if major_of h = 5 then
       and_then (readLength (info_of h) r) (\<lambda>(v, r).
       and_then (int_of_u64 v) (\<lambda>n. skip_times (2 * n) r))
     else Err (UnexpectedType h))"
| "skip_times 0 r = Ok ((), r)"
| "skip_times (Suc k) r = and_then (skipValue r) (\<lambda>(_, r). skip_times k r)"
  by pat_completeness auto

text \<open>The input is never changed and the position never goes back; a value takes a byte.\<close>

definition consumes :: "cbor_reader \<Rightarrow> cbor_reader \<Rightarrow> bool" where
  "consumes r r' \<longleftrightarrow> reader_pos r < length (reader_bytes r)
     \<and> reader_bytes r' = reader_bytes r \<and> reader_pos r < reader_pos r'"

lemma readByte_consumes: "readByte r = Ok (b, r') \<Longrightarrow> consumes r r'"
  by (simp add: readByte_Ok_iff consumes_def)

lemma consumes_mono:
  "consumes r r' \<Longrightarrow> reader_bytes r'' = reader_bytes r' \<and> reader_pos r' \<le> reader_pos r'' \<Longrightarrow> consumes r r''"
  by (simp add: consumes_def)

lemma head_consumes:
  "readByte r = Ok (h, r1) \<Longrightarrow> readLength i r1 = Ok (v, r2) \<Longrightarrow> consumes r r2"
  using consumes_mono [OF readByte_consumes readLength_mono] by blast

lemma int_add_Ok_iff [result_simps]: "int_add a b = Ok c \<longleftrightarrow> a + b < 2 ^ 63 \<and> c = a + b"
  by (auto simp: int_add_def)

lemma int_of_u64_Ok_iff [result_simps]: "int_of_u64 v = Ok n \<longleftrightarrow> unat v < 2 ^ 63 \<and> n = unat v"
  by (auto simp: int_of_u64_def)

lemma skip_progress:
  "skipValue_skip_times_dom (Inl r) \<Longrightarrow> skipValue r = Ok (u, r') \<Longrightarrow> consumes r r'"
  "skipValue_skip_times_dom (Inr (k, r)) \<Longrightarrow> skip_times k r = Ok (u, r') \<Longrightarrow>
     reader_bytes r' = reader_bytes r \<and> reader_pos r \<le> reader_pos r'"
proof (induction r and k r arbitrary: u r' and u r' rule: skipValue_skip_times.pinduct)
  case (1 r)
  from 1(4) obtain h r1 where h: "readByte r = Ok (h, r1)"
    by (auto simp: skipValue.psimps [OF 1(1)] result_simps)
  note step = 1(4) [unfolded skipValue.psimps [OF 1(1)] h]
  consider "major_of h = 0 \<or> major_of h = 1" | "major_of h = 2 \<or> major_of h = 3"
    | "major_of h = 4" | "major_of h = 5" using step by (auto split: if_splits)
  then show ?case
  proof cases
    case 1
    with step head_consumes [OF h] show ?thesis by (auto simp: result_simps)
  next
    case 2
    with step obtain v r2 where v: "readLength (info_of h) r1 = Ok (v, r2)"
      "r' = r2\<lparr>reader_pos := reader_pos r2 + unat v\<rparr>" by (auto simp: result_simps)
    from consumes_mono [OF head_consumes [OF h v(1)]] v(2) show ?thesis by simp
  next
    case 3
    with step obtain v r2 where v: "readLength (info_of h) r1 = Ok (v, r2)" "unat v < 2 ^ 63"
      "skip_times (unat v) r2 = Ok (u, r')" by (auto simp: result_simps)
    have "reader_bytes r' = reader_bytes r2 \<and> reader_pos r2 \<le> reader_pos r'"
      by (rule 1(2) [OF h refl _ _ 3 v(1) refl _ v(3)]) (use 3 v(2) in \<open>simp_all add: int_of_u64_def\<close>)
    with consumes_mono [OF head_consumes [OF h v(1)]] show ?thesis by simp
  next
    case 4
    with step obtain v r2 where v: "readLength (info_of h) r1 = Ok (v, r2)" "unat v < 2 ^ 63"
      "skip_times (2 * unat v) r2 = Ok (u, r')" by (auto simp: result_simps)
    have "reader_bytes r' = reader_bytes r2 \<and> reader_pos r2 \<le> reader_pos r'"
      by (rule 1(3) [OF h refl _ _ _ 4 v(1) refl _ v(3)]) (use 4 v(2) in \<open>simp_all add: int_of_u64_def\<close>)
    with consumes_mono [OF head_consumes [OF h v(1)]] show ?thesis by simp
  qed
next
  case (2 r)
  then show ?case by (simp add: skip_times.psimps)
next
  case (3 k r)
  from 3(4) obtain w r1 where r1: "skipValue r = Ok (w, r1)" "skip_times k r1 = Ok (u, r')"
    by (auto simp: skip_times.psimps(2) [OF 3(1)] result_simps)
  from 3(2) [OF r1(1)] 3(3) [OF r1(1) refl r1(2)] show ?case by (auto simp: consumes_def)
qed
termination skipValue
proof (relation "measures [\<lambda>x. case x of Inl r \<Rightarrow> length (reader_bytes r) - reader_pos r
      | Inr (k, r) \<Rightarrow> length (reader_bytes r) - reader_pos r, \<lambda>x. case x of Inl r \<Rightarrow> 0 | Inr _ \<Rightarrow> 1]", goal_cases)
  case 1
  show ?case by simp
next
  case (2 r x h r1 y v r2 n)
  from head_consumes [of r h r1 "info_of h" v r2] 2 show ?case by (auto simp: consumes_def)
next
  case (3 r x h r1 y v r2 n)
  from head_consumes [of r h r1 "info_of h" v r2] 3 show ?case by (auto simp: consumes_def)
next
  case (4 k r)
  show ?case by simp
next
  case (5 k r x y r1)
  from skip_progress(1) [of r y r1] 5 show ?case by (auto simp: consumes_def)
qed

section \<open>The attested public key\<close>

fun object_members :: "nat \<Rightarrow> bytes option \<Rightarrow> cbor_reader \<Rightarrow> bytes option reading" where
  "object_members 0 authData r = Ok (authData, r)"
| "object_members (Suc n) authData r =
     and_then (readText r) (\<lambda>(key, r).
     if key = ''authData'' then
       and_then (readBytes r) (\<lambda>(b, r). object_members n (Some b) r)
     else and_then (skipValue r) (\<lambda>(_, r). object_members n authData r))"

record cose_variables =
  var_x :: "bytes option"
  var_y :: "bytes option"
  var_kty :: "int option"
  var_crv :: "int option"

fun cose_members :: "nat \<Rightarrow> cose_variables \<Rightarrow> cbor_reader \<Rightarrow> cose_variables reading" where
  "cose_members 0 c r = Ok (c, r)"
| "cose_members (Suc n) c r =
     and_then (readInt r) (\<lambda>(k, r).
     if k = 1 then and_then (readInt r) (\<lambda>(i, r). cose_members n (c\<lparr>var_kty := Some i\<rparr>) r)
     else if k = 3 then and_then (readInt r) (\<lambda>(_, r). cose_members n c r)
     else if k = - 1 then and_then (readInt r) (\<lambda>(i, r). cose_members n (c\<lparr>var_crv := Some i\<rparr>) r)
     else if k = - 2 then and_then (readBytes r) (\<lambda>(b, r). cose_members n (c\<lparr>var_x := Some b\<rparr>) r)
     else if k = - 3 then and_then (readBytes r) (\<lambda>(b, r). cose_members n (c\<lparr>var_y := Some b\<rparr>) r)
     else and_then (skipValue r) (\<lambda>(_, r). cose_members n c r))"

definition cose_point :: "cose_variables \<Rightarrow> (bytes, client_cbor_error) result" where
  "cose_point c =
     (if var_kty c \<noteq> Some 2 then Err WrongCurve
      else if var_crv c \<noteq> Some 1 then Err WrongCurve
      else (case (var_x c, var_y c) of
              (Some xb, Some yb) \<Rightarrow>
                if length xb = 32 \<and> length yb = 32 then Ok (0x04 # xb @ yb) else Err (MissingField (- 2))
            | _ \<Rightarrow> Err (MissingField (- 2))))"

definition read_cose_key :: "bytes \<Rightarrow> (bytes, client_cbor_error) result" where
  "read_cose_key coseBytes =
     and_then (readMapHeader (CBORReader coseBytes)) (\<lambda>(cn, c).
     and_then (cose_members cn \<lparr>var_x = None, var_y = None, var_kty = None, var_crv = None\<rparr> c) (\<lambda>(vars, _).
     cose_point vars))"

definition cose_part :: "bytes \<Rightarrow> (bytes, client_cbor_error) result" where
  "cose_part ad =
     (if length ad < 37 + 18 then Err Truncated else
      and_then (index ad 53) (\<lambda>hi. and_then (index ad 54) (\<lambda>lo.
      let credIdLen = push_bit 8 (ucast hi) OR ucast lo :: u16;
          cosePkStart = 55 + unat credIdLen in
      if length ad < cosePkStart then Err Truncated else slice ad cosePkStart (length ad))))"

definition extractAttestedPublicKey :: "bytes \<Rightarrow> (bytes, client_cbor_error) result" where
  "extractAttestedPublicKey attestationObject =
     and_then (readMapHeader (CBORReader attestationObject)) (\<lambda>(n, r).
     and_then (object_members n None r) (\<lambda>(authData, _).
     and_then (ok_or (MissingKey ''authData'') authData) (\<lambda>ad.
     and_then (cose_part ad) read_cose_key)))"

section \<open>Reading an encoding\<close>

definition unread :: "cbor_reader \<Rightarrow> bytes" where
  "unread r = drop (reader_pos r) (reader_bytes r)"

definition advance :: "nat \<Rightarrow> cbor_reader \<Rightarrow> cbor_reader" where
  "advance n r = r\<lparr>reader_pos := reader_pos r + n\<rparr>"

text \<open>A Swift array has fewer than 2^63 elements.\<close>

definition in_bounds :: "cbor_reader \<Rightarrow> bool" where
  "in_bounds r \<longleftrightarrow> reader_pos r \<le> length (reader_bytes r) \<and> length (reader_bytes r) < 2 ^ 63"

lemma unread_advance [simp]: "unread (advance n r) = drop n (unread r)"
  by (simp add: unread_def advance_def add.commute)

lemma advance_advance [simp]: "advance n (advance m r) = advance (m + n) r"
  by (simp add: advance_def add.assoc)

lemma advance_0 [simp]: "advance 0 r = r"
  by (simp add: advance_def)

lemma in_bounds_length: "in_bounds r \<Longrightarrow> reader_pos r + length (unread r) = length (reader_bytes r)"
  by (simp add: unread_def in_bounds_def)

lemma in_bounds_advance: "in_bounds r \<Longrightarrow> n \<le> length (unread r) \<Longrightarrow> in_bounds (advance n r)"
  using in_bounds_length [of r] by (simp add: in_bounds_def advance_def)

lemma readByte_unread:
  assumes "unread r = b # bs"
  shows "readByte r = Ok (b, advance (Suc 0) r)"
proof -
  have "reader_pos r < length (reader_bytes r)"
  proof (rule ccontr)
    assume "\<not> ?thesis"
    with assms show False by (simp add: unread_def)
  qed
  moreover have "reader_bytes r ! reader_pos r = b"
    using assms Cons_nth_drop_Suc [OF calculation] by (simp add: unread_def)
  ultimately show ?thesis by (simp add: readByte_def advance_def)
qed

lemma shift_or: "(push_bit 8 v OR ucast (b :: u8) :: 'w::len word) = v * 256 + word_of_nat (unat b)"
proof -
  have lt: "n < 8" if "bit b n" for n
    using bit_imp_le_length [OF that] by simp
  then have "push_bit 8 v AND (ucast b :: 'w word) = 0"
    by (intro bit_eqI) (auto simp: bit_simps dest!: lt)
  then have "push_bit 8 v OR (ucast b :: 'w word) = push_bit 8 v + ucast b"
    by (simp add: disjunctive_add_eq_or)
  then show ?thesis by (simp add: push_bit_eq_mult)
qed

lemma read_bytes_be_unread:
  "unread r = bs @ rest \<Longrightarrow>
     read_bytes_be (length bs) (word_of_nat n) r
       = Ok (word_of_nat (n * 256 ^ length bs + be_nat bs), advance (length bs) r)"
proof (induction bs arbitrary: n r)
  case Nil
  then show ?case by simp
next
  case (Cons b bs)
  from Cons.prems have 1: "readByte r = Ok (b, advance (Suc 0) r)" by (simp add: readByte_unread)
  have 2: "push_bit 8 (word_of_nat n) OR ucast b = (word_of_nat (n * 256 + unat b) :: u64)"
    by (simp add: shift_or)
  show ?case
    using Cons.prems Cons.IH [of "advance (Suc 0) r" "n * 256 + unat b"]
    by (simp only: list.size read_bytes_be.simps add_Suc_right add_0_right 1 and_then.simps prod.case 2)
       (simp add: be_nat_Cons algebra_simps)
qed

text \<open>The first byte of a head.\<close>

lemma head_byte:
  assumes "i < 32" "m < 8"
  shows "major_of (word_of_nat (32 * m + i)) = word_of_nat m" "info_of (word_of_nat (32 * m + i)) = word_of_nat i"
proof -
  define w :: u8 where "w = word_of_nat (32 * m + i)"
  have u: "unat w = 32 * m + i"
    unfolding w_def unat_word_of_nat_u8 using assms by simp
  have "unat (major_of w) = drop_bit 5 (unat w)"
    by (simp only: major_of_def unat_drop_bit_eq)
  then have "unat (major_of w) = m"
    using assms by (simp add: u drop_bit_eq_div)
  moreover have "info_of w = take_bit 5 w"
    by (simp add: info_of_def take_bit_eq_mask mask_eq_exp_minus_1)
  then have "unat (info_of w) = take_bit 5 (unat w)"
    by (simp only: unsigned_take_bit_eq)
  then have "unat (info_of w) = i"
    using assms by (simp add: u take_bit_eq_mod)
  ultimately show "major_of (word_of_nat (32 * m + i)) = word_of_nat m"
    "info_of (word_of_nat (32 * m + i)) = word_of_nat i"
    unfolding w_def [symmetric] using assms by (auto intro!: unat_inject simp: unat_word_of_nat_u8)
qed

lemma two_bytes:
  "and_then (readByte r) (\<lambda>(a, r). and_then (readByte r) (\<lambda>(b, r). Ok (push_bit 8 (ucast a) OR ucast b, r)))
    = read_bytes_be 2 0 r"
proof -
  have "read_bytes_be 2 0 r = read_bytes_be (Suc (Suc 0)) 0 r"
    by (simp only: numeral_2_eq_2)
  then show ?thesis by (simp add: case_prod_unfold)
qed

text \<open>A head is read as its major type and its number.\<close>

lemma ucast_small: "n < 256 \<Longrightarrow> ucast (word_of_nat n :: u8) = (word_of_nat n :: u64)"
proof -
  assume "n < 256"
  then have "unat (word_of_nat n :: u8) = n" by (simp only: unat_word_of_nat_u8) simp
  moreover have "ucast (w :: u8) = (word_of_nat (unat w) :: u64)" for w by simp
  ultimately show ?thesis by metis
qed

lemma readLength_be:
  assumes "k \<le> 3" "unread r = be_bytes (2 ^ k) n @ rest" "n < 256 ^ (2 ^ k)"
  shows "readLength (word_of_nat (24 + k)) r = Ok (word_of_nat n, advance (2 ^ k) r)"
proof -
  have be: "read_bytes_be (2 ^ k) 0 r = Ok (word_of_nat n, advance (2 ^ k) r)"
    using read_bytes_be_unread [OF assms(2), of 0] assms(3) by (simp add: be_nat_be_bytes)
  from assms(1) consider "k = 0" | "k = 1" | "k = 2" | "k = 3" by linarith
  then show ?thesis
  proof cases
    case 1
    with assms(2) obtain b where "unread r = b # rest" "b = word_of_nat n" by (auto)
    with 1 assms(3) show ?thesis by (simp add: readLength_def readByte_unread ucast_small)
  next
    case 2
    with be show ?thesis by (simp add: readLength_def two_bytes)
  next
    case 3
    with be show ?thesis by (simp add: readLength_def)
  next
    case 4
    with be show ?thesis by (simp add: readLength_def)
  qed
qed


lemma head_read:
  assumes "cbor_head m n h" "m < 8" "unread r = h @ rest"
  obtains b where "readByte r = Ok (b, advance (Suc 0) r)" "major_of b = word_of_nat m"
    "readLength (info_of b) (advance (Suc 0) r) = Ok (word_of_nat n, advance (length h) r)"
  using assms(1)
proof (cases rule: cbor_head_cases)
  case short
  then have "readByte r = Ok (word_of_nat (32 * m + n), advance (Suc 0) r)"
    using assms(3) by (simp add: readByte_unread)
  moreover have "readLength (word_of_nat n) (advance (Suc 0) r) = Ok (word_of_nat n, advance (length h) r)"
  proof -
    have "unat (word_of_nat n :: u8) = n" using short by (simp only: unat_word_of_nat_u8) simp
    then have "(word_of_nat n :: u8) \<le> 23" using short by (simp add: word_le_nat_alt)
    then show ?thesis using short by (simp add: readLength_def ucast_small)
  qed
  ultimately show ?thesis using that head_byte [of n m] short assms(2) by simp
next
  case (long k)
  then have "readByte r = Ok (word_of_nat (32 * m + (24 + k)), advance (Suc 0) r)"
    using assms(3) by (simp add: readByte_unread)
  moreover have "readLength (word_of_nat (24 + k)) (advance (Suc 0) r) = Ok (word_of_nat n, advance (length h) r)"
    using readLength_be [of k "advance (Suc 0) r" n rest] long assms(3) by simp
  ultimately show ?thesis using that head_byte [of "24 + k" m] long assms(2) by simp
qed

lemma int_of_word: "n < 2 ^ 63 \<Longrightarrow> int_of_u64 (word_of_nat n) = Ok n"
  by (simp add: int_of_u64_def unat_of_nat)

section \<open>The methods on encoded values\<close>

lemma advance_bytes [simp]: "reader_bytes (advance n r) = reader_bytes r" "reader_pos (advance n r) = reader_pos r + n"
  by (simp_all add: advance_def)

lemma advance_update [simp]: "(advance n r)\<lparr>reader_pos := p\<rparr> = r\<lparr>reader_pos := p\<rparr>"
  by (simp add: advance_def)

lemma read_slice_enc:
  assumes "cbor_head m (length b) h" "m < 8" "unread r = h @ b @ rest" "in_bounds r"
  shows "read_slice (word_of_nat m) r = Ok (b, advance (length (h @ b)) r)"
proof -
  from head_read [OF assms(1-3)] obtain x where x: "readByte r = Ok (x, advance (Suc 0) r)"
    "major_of x = word_of_nat m"
    "readLength (info_of x) (advance (Suc 0) r) = Ok (word_of_nat (length b), advance (length h) r)" .
  have len: "reader_pos r + length h + length b \<le> length (reader_bytes r)"
    using in_bounds_length [OF assms(4)] assms(3) by simp
  then have small: "reader_pos r + length h + length b < 2 ^ 63"
    using assms(4) by (simp add: in_bounds_def)
  have "take (length b) (drop (reader_pos r + length h) (reader_bytes r)) = b"
    using arg_cong [OF assms(3), of "\<lambda>xs. take (length b) (drop (length h) xs)"]
    by (simp add: unread_def add.commute)
  then have "read_slice (word_of_nat m) r = Ok (b, r\<lparr>reader_pos := reader_pos r + length h + length b\<rparr>)"
    using len small by (simp add: read_slice_def x int_of_word int_add_def slice_def)
  then show ?thesis by (simp add: advance_def add.assoc)
qed

lemma readBytes_enc:
  assumes "cbor_enc (CBytes x) b" "unread r = b @ rest" "in_bounds r"
  shows "readBytes r = Ok (x, advance (length b) r)"
  using assms(1)
proof (rule cbor_enc_bytesE)
  fix h assume "b = h @ x" "cbor_head 2 (length x) h"
  with read_slice_enc [of 2 x h r rest] assms(2,3) show ?thesis by (simp add: readBytes_def)
qed

text \<open>What \<open>readText\<close> returns for a text: an ill-formed one is read as the empty string.\<close>

definition client_text :: "string \<Rightarrow> string" where
  "client_text s = (case from_utf8 (as_bytes s) of Inr t \<Rightarrow> t | Inl e \<Rightarrow> [])"

lemma client_text_authData [simp]: "client_text s = ''authData'' \<longleftrightarrow> s = ''authData''"
proof -
  have "client_text s = s \<or> client_text s = []"
    by (simp add: client_text_def from_utf8_def split: option.splits)
  moreover have "from_utf8 (as_bytes ''authData'') = Inr ''authData''"
    by (rule from_utf8_plain) (simp add: ascii_def)
  ultimately show ?thesis by (auto simp: client_text_def)
qed

lemma readText_enc:
  assumes "cbor_enc (CText s) b" "unread r = b @ rest" "in_bounds r"
  shows "readText r = Ok (client_text s, advance (length b) r)"
  using assms(1)
proof (rule cbor_enc_textE)
  fix h assume "b = h @ as_bytes s" "cbor_head 3 (length s) h"
  with read_slice_enc [of 3 "as_bytes s" h r rest] assms(2,3)
  show ?thesis by (simp add: readText_def client_text_def)
qed

lemma readInt_enc:
  assumes "cbor_enc (CInteger i) b" "unread r = b @ rest" "- (2 ^ 63) \<le> i" "i < 2 ^ 63"
  shows "readInt r = Ok (i, advance (length b) r)"
  using assms(1)
proof (rule cbor_enc_intE)
  assume i: "0 \<le> i" and head: "cbor_head 0 (nat i) b"
  define n where "n = nat i"
  obtain x where "readByte r = Ok (x, advance (Suc 0) r)" "major_of x = word_of_nat 0"
    "readLength (info_of x) (advance (Suc 0) r) = Ok (word_of_nat n, advance (length b) r)"
    using head_read [OF head _ assms(2)] by (auto simp: n_def)
  moreover have "n < 2 ^ 63" "int n = i" using i assms(4) by (simp_all add: n_def nat_less_iff)
  ultimately show ?thesis by (simp add: readInt_def int_of_word)
next
  assume i: "i < 0" and head: "cbor_head (Suc 0) (nat (- 1 - i)) b"
  define n where "n = nat (- 1 - i)"
  obtain x where "readByte r = Ok (x, advance (Suc 0) r)" "major_of x = word_of_nat 1"
    "readLength (info_of x) (advance (Suc 0) r) = Ok (word_of_nat n, advance (length b) r)"
    using head_read [OF head _ assms(2)] by (auto simp: n_def)
  moreover have "n < 2 ^ 63" "- 1 - int n = i" using i assms(3) by (simp_all add: n_def nat_less_iff)
  ultimately show ?thesis by (simp add: readInt_def int_of_word)
qed

lemma readMapHeader_enc:
  assumes "cbor_enc (CMap m) b" "unread r = b @ rest" "in_bounds r"
  obtains h bs where "b = h @ bs" "cbor_encs (map_items m) bs"
    "readMapHeader r = Ok (length m, advance (length h) r)"
  using assms(1)
proof (rule cbor_enc_mapE)
  fix h bs assume b: "b = h @ bs" "cbor_head 5 (length m) h" "cbor_encs (map_items m) bs"
  obtain x where x: "readByte r = Ok (x, advance (Suc 0) r)" "major_of x = word_of_nat 5"
    "readLength (info_of x) (advance (Suc 0) r) = Ok (word_of_nat (length m), advance (length h) r)"
    using head_read [OF b(2), of r "bs @ rest"] assms(2) b(1) by auto
  have "length m < 2 ^ 63"
    using cbor_enc_length(2) [OF b(3)] in_bounds_length [OF assms(3)] assms(2,3) b(1)
    by (simp add: in_bounds_def)
  with x have "readMapHeader r = Ok (length m, advance (length h) r)"
    by (simp add: readMapHeader_def int_of_word)
  with b that show ?thesis by blast
qed

declare skipValue.simps [simp del]

text \<open>How a value that starts with a head of a number below 2^63 is skipped.\<close>

lemma skip_head:
  assumes "cbor_head m n h" "unread r = h @ rest"
  shows "m < 2 \<Longrightarrow> skipValue r = Ok ((), advance (length h) r)"
    and "m = 2 \<or> m = 3 \<Longrightarrow> reader_pos r + length h + n < 2 ^ 63 \<Longrightarrow>
      skipValue r = Ok ((), advance (length h + n) r)"
    and "m = 4 \<Longrightarrow> n < 2 ^ 63 \<Longrightarrow> skipValue r = skip_times n (advance (length h) r)"
    and "m = 5 \<Longrightarrow> n < 2 ^ 63 \<Longrightarrow> skipValue r = skip_times (2 * n) (advance (length h) r)"
proof -
  have read: "\<exists>x. readByte r = Ok (x, advance (Suc 0) r) \<and> major_of x = word_of_nat m
    \<and> readLength (info_of x) (advance (Suc 0) r) = Ok (word_of_nat n, advance (length h) r)" if "m < 8"
    using head_read [OF assms(1) that assms(2)] by blast
  show "skipValue r = Ok ((), advance (length h) r)" if "m < 2"
  proof -
    from that have "m = 0 \<or> m = 1" by linarith
    with read show ?thesis by (auto simp: skipValue.simps [of r])
  qed
  show "skipValue r = Ok ((), advance (length h + n) r)"
    if "m = 2 \<or> m = 3" "reader_pos r + length h + n < 2 ^ 63"
  proof -
    from that read obtain x where "readByte r = Ok (x, advance (Suc 0) r)" "major_of x = 2 \<or> major_of x = 3"
      "readLength (info_of x) (advance (Suc 0) r) = Ok (word_of_nat n, advance (length h) r)" by auto
    then have "skipValue r = Ok ((), r\<lparr>reader_pos := reader_pos r + length h + n\<rparr>)"
      using that(2) by (auto simp: skipValue.simps [of r] int_of_word int_add_def)
    then show ?thesis by (simp add: advance_def add.assoc)
  qed
  show "skipValue r = skip_times n (advance (length h) r)" if "m = 4" "n < 2 ^ 63"
    using that read by (auto simp: skipValue.simps [of r] int_of_word)
  show "skipValue r = skip_times (2 * n) (advance (length h) r)" if "m = 5" "n < 2 ^ 63"
    using that read by (auto simp: skipValue.simps [of r] int_of_word)
qed

lemma in_bounds_less: "in_bounds r \<Longrightarrow> unread r = bs @ rest \<Longrightarrow> reader_pos r + length bs < 2 ^ 63"
  using in_bounds_length [of r] by (simp add: in_bounds_def)

lemma skip_enc:
  "cbor_enc v b \<Longrightarrow> (\<And>r rest. unread r = b @ rest \<Longrightarrow> in_bounds r \<Longrightarrow>
     skipValue r = Ok ((), advance (length b) r))"
  "cbor_encs vs bs \<Longrightarrow> (\<And>r rest. unread r = bs @ rest \<Longrightarrow> in_bounds r \<Longrightarrow>
     skip_times (length vs) r = Ok ((), advance (length bs) r))"
proof (induction rule: cbor_enc_cbor_encs.inducts)
  case (enc_uint i h)
  then show ?case using skip_head(1) by simp
next
  case (enc_nint i h)
  then show ?case using skip_head(1) by simp
next
  case (enc_bytes b h)
  then show ?case using skip_head(2) [of 2 "length b" h r "b @ rest"] in_bounds_less [of r "h @ b" rest] by simp
next
  case (enc_text s h)
  then show ?case using skip_head(2) [of 3 "length s" h r "as_bytes s @ rest"] in_bounds_less [of r "h @ as_bytes s" rest] by simp
next
  case (enc_array vs h bs)
  have "length vs < 2 ^ 63"
    using cbor_enc_length(2) [OF enc_array.hyps(2)] in_bounds_less [of r "h @ bs" rest] enc_array.prems by simp
  then have "skipValue r = skip_times (length vs) (advance (length h) r)"
    using skip_head(3) [OF enc_array.hyps(1), of r "bs @ rest"] enc_array.prems by simp
  moreover have "in_bounds (advance (length h) r)"
    using enc_array.prems by (intro in_bounds_advance) simp_all
  ultimately show ?case using enc_array.IH [of "advance (length h) r" rest] enc_array.prems by simp
next
  case (enc_map m h bs)
  have "length m < 2 ^ 63"
    using cbor_enc_length(2) [OF enc_map.hyps(2)] in_bounds_less [of r "h @ bs" rest] enc_map.prems by simp
  then have "skipValue r = skip_times (2 * length m) (advance (length h) r)"
    using skip_head(4) [OF enc_map.hyps(1), of r "bs @ rest"] enc_map.prems by simp
  moreover have "in_bounds (advance (length h) r)"
    using enc_map.prems by (intro in_bounds_advance) simp_all
  ultimately show ?case using enc_map.IH [of "advance (length h) r" rest] enc_map.prems by simp
next
  case encs_Nil
  then show ?case by simp
next
  case (encs_Cons v b vs bs)
  have "in_bounds (advance (length b) r)"
    using encs_Cons.prems by (intro in_bounds_advance) simp_all
  then show ?case
    using encs_Cons.IH(1) [of r "bs @ rest"] encs_Cons.IH(2) [of "advance (length b) r" rest] encs_Cons.prems
    by simp
qed

section \<open>The client's loops on encoded maps\<close>

text \<open>
  The client reads the members it knows at the type it expects, every one of them and not only
  the last of a key, and an integer key that does not fit 64 bits would trap.
\<close>

definition object_readable :: "cbor_map \<Rightarrow> bool" where
  "object_readable m \<longleftrightarrow> text_keys m \<and> list_all (\<lambda>(k, v). k = CText ''authData'' \<longrightarrow> cbor_as_bytes v \<noteq> None) m"

fun cose_member_readable :: "cbor_value \<times> cbor_value \<Rightarrow> bool" where
  "cose_member_readable (CInteger i, v) \<longleftrightarrow>
     - (2 ^ 63) \<le> i \<and> i < 2 ^ 63
     \<and> (i = 1 \<or> i = 3 \<or> i = - 1 \<longrightarrow> as_i64 v \<noteq> None) \<and> (i = - 2 \<or> i = - 3 \<longrightarrow> cbor_as_bytes v \<noteq> None)"
| "cose_member_readable _ \<longleftrightarrow> False"

lemma case_option_id [simp]: "(case x of None \<Rightarrow> None | Some y \<Rightarrow> Some y) = x"
  by (cases x) auto

lemma object_members_enc:
  "cbor_encs (map_items m) bs \<Longrightarrow> unread r = bs @ rest \<Longrightarrow> in_bounds r \<Longrightarrow> object_readable m \<Longrightarrow>
     object_members (length m) ad r
       = Ok (overwrite ad cbor_as_bytes (last_value (CText ''authData'') m), advance (length bs) r)"
proof (induction m arbitrary: bs ad r)
  case Nil
  then show ?case by simp
next
  case (Cons kv m)
  obtain s v where kv: "kv = (CText s, v)" "object_readable m" "s = ''authData'' \<Longrightarrow> \<exists>b. v = CBytes b"
    using Cons.prems(4) by (cases kv) (auto simp: object_readable_def)
  from Cons.prems(1) obtain kb vb mb where bs: "bs = kb @ vb @ mb" "cbor_enc (CText s) kb" "cbor_enc v vb"
    "cbor_encs (map_items m) mb"
    by (auto simp: kv(1) elim!: cbor_encs_ConsE)
  let ?rv = "advance (length kb) r" and ?rm = "advance (length kb + length vb) r"
  have in_b: "in_bounds ?rv" "in_bounds ?rm"
    using Cons.prems(2,3) bs(1) by (intro in_bounds_advance; simp)+
  have key: "readText r = Ok (client_text s, ?rv)"
    using readText_enc [OF bs(2) _ Cons.prems(3)] Cons.prems(2) bs(1) by simp
  have rest: "object_members (length m) ad' ?rm
      = Ok (overwrite ad' cbor_as_bytes (last_value (CText ''authData'') m), advance (length bs) r)" for ad'
    using Cons.IH [OF bs(4) _ in_b(2) kv(2), of ad'] Cons.prems(2) bs(1) by (simp add: add.assoc)
  show ?case
  proof (cases "s = ''authData''")
    case True
    then obtain b where b: "v = CBytes b" using kv(3) by blast
    have "readBytes ?rv = Ok (b, ?rm)"
      using readBytes_enc [of b vb ?rv "mb @ rest"] bs in_b(1) Cons.prems(2) b by simp
    with True b key rest [of "Some b"] show ?thesis
      by (simp add: kv(1) overwrite_def split: option.split)
  next
    case False
    have "skipValue ?rv = Ok ((), ?rm)"
      using skip_enc(1) [OF bs(3) _ in_b(1), of "mb @ rest"] Cons.prems(2) bs(1) by simp
    with False key rest [of ad] show ?thesis by (simp add: kv(1))
  qed
qed

definition cose_values :: "cbor_map \<Rightarrow> cose_variables \<Rightarrow> cose_variables" where
  "cose_values m c =
     \<lparr>var_x = overwrite (var_x c) cbor_as_bytes (last_value (CInteger (- 2)) m),
      var_y = overwrite (var_y c) cbor_as_bytes (last_value (CInteger (- 3)) m),
      var_kty = overwrite (var_kty c) as_i64 (last_value (CInteger 1) m),
      var_crv = overwrite (var_crv c) as_i64 (last_value (CInteger (- 1)) m)\<rparr>"

lemma cose_members_enc:
  "cbor_encs (map_items m) bs \<Longrightarrow> unread r = bs @ rest \<Longrightarrow> in_bounds r \<Longrightarrow>
     list_all cose_member_readable m \<Longrightarrow>
     cose_members (length m) c r = Ok (cose_values m c, advance (length bs) r)"
proof (induction m arbitrary: bs c r)
  case Nil
  then show ?case by (simp add: cose_values_def)
next
  case (Cons kv m)
  obtain i v where kv: "kv = (CInteger i, v)" "- (2 ^ 63) \<le> i" "i < 2 ^ 63"
    "i = 1 \<or> i = 3 \<or> i = - 1 \<Longrightarrow> \<exists>j. v = CInteger j \<and> - (2 ^ 63) \<le> j \<and> j < 2 ^ 63"
    "i = - 2 \<or> i = - 3 \<Longrightarrow> \<exists>b. v = CBytes b" "list_all cose_member_readable m"
    using Cons.prems(4) by (cases kv; cases "fst kv") (auto simp: as_i64_Some_iff)
  from Cons.prems(1) obtain kb vb mb where bs: "bs = kb @ vb @ mb" "cbor_enc (CInteger i) kb" "cbor_enc v vb"
    "cbor_encs (map_items m) mb"
    by (auto simp: kv(1) elim!: cbor_encs_ConsE)
  let ?rv = "advance (length kb) r" and ?rm = "advance (length kb + length vb) r"
  have in_b: "in_bounds ?rv" "in_bounds ?rm"
    using Cons.prems(2,3) bs(1) by (intro in_bounds_advance; simp)+
  have key: "readInt r = Ok (i, ?rv)"
    using readInt_enc [OF bs(2) _ kv(2,3)] Cons.prems(2) bs(1) by simp
  have rest: "cose_members (length m) c' ?rm = Ok (cose_values m c', advance (length bs) r)" for c'
    using Cons.IH [OF bs(4) _ in_b(2) kv(6), of c'] Cons.prems(2) bs(1) by (simp add: add.assoc)
  consider "i = 1 \<or> i = 3 \<or> i = - 1" | "i = - 2 \<or> i = - 3" | "i \<noteq> 1" "i \<noteq> 3" "i \<noteq> - 1" "i \<noteq> - 2" "i \<noteq> - 3"
    by blast
  then show ?case
  proof cases
    case 1
    then obtain j where j: "v = CInteger j" "- (2 ^ 63) \<le> j" "j < 2 ^ 63" using kv(4) by blast
    have "readInt ?rv = Ok (j, ?rm)"
      using readInt_enc [of j vb ?rv "mb @ rest"] bs Cons.prems(2) j by simp
    with 1 j key rest show ?thesis
      by (auto simp: kv(1) cose_values_def overwrite_def as_i64_def i64_try_from_def split: option.split)
  next
    case 2
    then obtain b where b: "v = CBytes b" using kv(5) by blast
    have "readBytes ?rv = Ok (b, ?rm)"
      using readBytes_enc [of b vb ?rv "mb @ rest"] bs in_b(1) Cons.prems(2) b by simp
    with 2 b key rest show ?thesis
      by (auto simp: kv(1) cose_values_def overwrite_def split: option.split)
  next
    case 3
    have "skipValue ?rv = Ok ((), ?rm)"
      using skip_enc(1) [OF bs(3) _ in_b(1), of "mb @ rest"] Cons.prems(2) bs(1) by simp
    with 3 key rest [of c] show ?thesis by (simp add: kv(1) cose_values_def)
  qed
qed

section \<open>The key the client finds\<close>

lemma in_bounds_start:
  "length bs < 2 ^ 63 \<Longrightarrow> in_bounds (CBORReader bs)" "unread (CBORReader bs) = bs"
  by (simp_all add: in_bounds_def CBORReader_def unread_def)

lemma read_cose_key_enc:
  assumes "cbor_enc (CMap cm) cb" "list_all cose_member_readable cm" "length (cb @ rest) < 2 ^ 63"
  shows "read_cose_key (cb @ rest)
    = cose_point (cose_values cm \<lparr>var_x = None, var_y = None, var_kty = None, var_crv = None\<rparr>)"
proof -
  let ?r = "CBORReader (cb @ rest)"
  note start = in_bounds_start(1) [OF assms(3)] in_bounds_start(2) [of "cb @ rest"]
  obtain h bs where b: "cb = h @ bs" "cbor_encs (map_items cm) bs"
    "readMapHeader ?r = Ok (length cm, advance (length h) ?r)"
    using readMapHeader_enc [OF assms(1) start(2,1)] .
  have "in_bounds (advance (length h) ?r)"
    using start b(1) by (intro in_bounds_advance) simp_all
  from cose_members_enc [OF b(2) _ this assms(2)] start(2) b show ?thesis
    by (simp add: read_cose_key_def)
qed

lemma object_members_start:
  assumes "cbor_enc (CMap m) ob" "object_readable m" "length (ob @ rest) < 2 ^ 63"
  shows "extractAttestedPublicKey (ob @ rest) =
    and_then (ok_or (MissingKey ''authData'') (Option.bind (last_value (CText ''authData'') m) cbor_as_bytes))
      (\<lambda>ad. and_then (cose_part ad) read_cose_key)"
proof -
  let ?r = "CBORReader (ob @ rest)"
  note start = in_bounds_start(1) [OF assms(3)] in_bounds_start(2) [of "ob @ rest"]
  obtain h bs where b: "ob = h @ bs" "cbor_encs (map_items m) bs"
    "readMapHeader ?r = Ok (length m, advance (length h) ?r)"
    using readMapHeader_enc [OF assms(1) start(2,1)] .
  have "in_bounds (advance (length h) ?r)"
    using start b(1) by (intro in_bounds_advance) simp_all
  moreover have "overwrite None f v = Option.bind v f" for f :: "cbor_value \<Rightarrow> bytes option" and v
    by (cases v) auto
  ultimately show ?thesis
    using object_members_enc [OF b(2) _ _ assms(2), of "advance (length h) ?r" rest None] start(2) b
    by (simp add: extractAttestedPublicKey_def)
qed

text \<open>
  The client finds the same bytes as the verifier's parser of the authenticator data, which in
  addition looks at the AT flag.
\<close>

lemma cred_id_len:
  assumes "55 \<le> length ad"
  shows "unat (push_bit 8 (ucast (ad ! 53)) OR ucast (ad ! 54) :: u16) = be_nat (take 2 (drop 53 ad))"
proof -
  have two: "take 2 (drop 53 ad) = [ad ! 53, ad ! 54]"
    using assms by (simp add: take_Suc_conv_app_nth numeral_2_eq_2)
  have "push_bit 8 (ucast (ad ! 53)) OR ucast (ad ! 54) = (word_of_nat (be_nat [ad ! 53, ad ! 54]) :: u16)"
    by (simp add: shift_or be_nat_Cons mult.commute)
  moreover have "be_nat [ad ! 53, ad ! 54] < 2 ^ 16"
    using be_nat_less [of "[ad ! 53, ad ! 54]"] by simp
  ultimately show ?thesis by (simp add: two unat_of_nat)
qed

lemma cose_part_parse:
  assumes "authdata_parse ad = Ok a"
  shows "cose_part ad = Ok (credential_public_key a)"
proof -
  define n where "n = be_nat (take 2 (drop 53 ad))"
  from assms have "authdata_error ad = None" "a = authdata_fields ad"
    by (simp_all add: authdata_parse_Ok_iff)
  then have len: "55 \<le> length ad" "55 + n \<le> length ad" and a: "credential_public_key a = drop (55 + n) ad"
    by (auto simp: authdata_error_def authdata_fields_def Let_def n_def split: if_splits)
  have "unat (push_bit 8 (ucast (ad ! 53)) OR ucast (ad ! 54) :: u16) = n"
    using cred_id_len [OF len(1)] by (simp add: n_def)
  with len a show ?thesis
    by (simp add: cose_part_def index_def Let_def slice_from)
qed

text \<open>
  What the client needs of an object that the verifier accepted: the CBOR of the object and of
  the key is in a definite-length encoding, possibly followed by other bytes, and its members
  have the types the client reads.
\<close>

definition client_readable :: "crates \<Rightarrow> bytes \<Rightarrow> bool" where
  "client_readable X obj \<longleftrightarrow>
     length obj < 2 ^ 63
     \<and> (\<exists>m ob rest. cbor_from_reader X obj = Inr (CMap m) \<and> obj = ob @ rest \<and> cbor_enc (CMap m) ob
          \<and> object_readable m
          \<and> (\<forall>ad a. last_value (CText ''authData'') m = Some (CBytes ad) \<and> authdata_parse ad = Ok a \<longrightarrow>
               (\<exists>cm cb tl. cbor_from_reader X (credential_public_key a) = Inr (CMap cm)
                  \<and> credential_public_key a = cb @ tl \<and> length (credential_public_key a) < 2 ^ 63
                  \<and> cbor_enc (CMap cm) cb \<and> list_all cose_member_readable cm)))"

lemma client_finds_key:
  assumes "decode_attestation_object X obj = Ok st" "authdata_parse (st_auth_data st) = Ok a"
    and "extract_p256_pk X (credential_public_key a) = Ok pk" and "client_readable X obj"
  shows "extractAttestedPublicKey obj = Ok pk"
proof -
  from assms(4) obtain m ob rest where m: "length obj < 2 ^ 63" "cbor_from_reader X obj = Inr (CMap m)"
    "obj = ob @ rest" "cbor_enc (CMap m) ob" "object_readable m"
    and key: "\<And>ad a. last_value (CText ''authData'') m = Some (CBytes ad) \<Longrightarrow> authdata_parse ad = Ok a \<Longrightarrow>
      \<exists>cm cb tl. cbor_from_reader X (credential_public_key a) = Inr (CMap cm)
        \<and> credential_public_key a = cb @ tl \<and> length (credential_public_key a) < 2 ^ 63
        \<and> cbor_enc (CMap cm) cb \<and> list_all cose_member_readable cm"
    unfolding client_readable_def by blast
  from assms(1) m(2) have ad: "last_value (CText ''authData'') m = Some (CBytes (st_auth_data st))"
    by (auto simp: decode_attestation_object_Ok_iff)
  obtain cm cb tl where cm: "cbor_from_reader X (credential_public_key a) = Inr (CMap cm)"
    "credential_public_key a = cb @ tl" "length (credential_public_key a) < 2 ^ 63"
    "cbor_enc (CMap cm) cb" "list_all cose_member_readable cm"
    using key [OF ad assms(2)] by blast
  from assms(3) cm(1) obtain x y where xy: "last_value (CInteger 1) cm = Some (CInteger 2)"
    "last_value (CInteger (- 1)) cm = Some (CInteger 1)" "last_value (CInteger (- 2)) cm = Some (CBytes x)"
    "last_value (CInteger (- 3)) cm = Some (CBytes y)" "length x = 32" "length y = 32" "pk = 0x04 # x @ y"
    by (auto simp: extract_p256_pk_Ok_iff)
  have "read_cose_key (credential_public_key a) = Ok pk"
    using read_cose_key_enc [OF cm(4,5), of tl] cm(2,3) xy
    by (simp add: cose_values_def cose_point_def as_i64_def i64_try_from_def)
  then show ?thesis
    using object_members_start [OF m(4,5), of rest] m(1,3) ad cose_part_parse [OF assms(2)] by simp
qed

section \<open>Where the client differs from a CBOR reader\<close>

text \<open>A declared length of 2^63 or more is not an error but a trap: the conversion to \<open>Int\<close> fails.\<close>

lemma int_of_word_big: "2 ^ 63 \<le> n \<Longrightarrow> n < 2 ^ 64 \<Longrightarrow> int_of_u64 (word_of_nat n) = Panic"
  by (simp add: int_of_u64_def unat_of_nat)

lemma huge_length_traps:
  assumes "2 ^ 63 \<le> n" "n < 2 ^ 64"
  shows "extractAttestedPublicKey ([0xA1, 0x7B] @ be_bytes 8 n @ rest) = Panic"
proof -
  define r where "r = CBORReader ([0xA1, 0x7B] @ be_bytes 8 n @ rest)"
  have u: "unread r = 0xA1 # 0x7B # be_bytes 8 n @ rest"
    by (simp add: r_def CBORReader_def unread_def del: be_bytes.simps)
  have first: "readMapHeader r = Ok (1, advance (Suc 0) r)"
    using u by (simp add: readMapHeader_def readByte_unread major_of_def info_of_def readLength_def
        int_of_u64_def del: be_bytes.simps)
  have "cbor_head 3 n (0x7B # be_bytes 8 n)"
    using assms(2) by (simp add: cbor_head_def del: be_bytes.simps)
  then obtain b where b: "readByte (advance (Suc 0) r) = Ok (b, advance (Suc 0) (advance (Suc 0) r))"
    "major_of b = word_of_nat 3"
    "readLength (info_of b) (advance (Suc 0) (advance (Suc 0) r))
       = Ok (word_of_nat n, advance (length (0x7B # be_bytes 8 n)) (advance (Suc 0) r))"
    using head_read [of 3 n "0x7B # be_bytes 8 n" "advance (Suc 0) r" rest] u
    by (auto simp del: advance_advance be_bytes.simps)
  have "read_slice 3 (advance (Suc 0) r) = Panic"
    using b by (simp add: read_slice_def int_of_word_big [OF assms] del: advance_advance)
  then show ?thesis
    unfolding extractAttestedPublicKey_def r_def [symmetric] first by (simp add: readText_def)
qed

text \<open>
  A skipped string need not be there: \<open>skipValue\<close> moves the position past the end without a
  check. So an object that ends inside the content of its last member is taken like a whole one.
\<close>

lemma object_members_add:
  "object_members (j + k) ad r = and_then (object_members j ad r) (\<lambda>(ad, r). object_members k ad r)"
proof (induction j arbitrary: ad r)
  case 0
  then show ?case by simp
next
  case (Suc j)
  have "and_then (if c then x else y) f = (if c then and_then x f else and_then y f)"
    for c and x y :: "bytes option reading" and f :: "_ \<Rightarrow> bytes option reading" by simp
  then show ?case by (simp add: Suc and_then_assoc case_prod_unfold cong: if_cong)
qed

lemma truncated_object_taken:
  assumes "cbor_head 5 (Suc (length m)) h" "cbor_encs (map_items m) bs" "object_readable m"
    and "cbor_enc (CText s) kb" "s \<noteq> ''authData''" "cbor_head 2 n hb"
    and "length (h @ bs @ kb @ hb) + n < 2 ^ 63"
  shows "extractAttestedPublicKey (h @ bs @ kb @ hb) =
    and_then (ok_or (MissingKey ''authData'') (Option.bind (last_value (CText ''authData'') m) cbor_as_bytes))
      (\<lambda>ad. and_then (cose_part ad) read_cose_key)"
proof -
  define r where "r = CBORReader (h @ bs @ kb @ hb)"
  have start: "in_bounds r" "unread r = h @ bs @ kb @ hb"
    using assms(7) by (simp_all add: r_def in_bounds_start)
  obtain b where b: "readByte r = Ok (b, advance (Suc 0) r)" "major_of b = word_of_nat 5"
    "readLength (info_of b) (advance (Suc 0) r) = Ok (word_of_nat (Suc (length m)), advance (length h) r)"
    using head_read [OF assms(1) _ start(2)] by auto
  have small: "Suc (length m) < 2 ^ 63"
    using cbor_enc_length(2) [OF assms(2)] cbor_enc_length(1) [OF assms(4)] assms(7) by simp
  have header: "readMapHeader r = Ok (Suc (length m), advance (length h) r)"
    unfolding readMapHeader_def b by (simp add: b int_of_word [OF small] del: of_nat_Suc)
  let ?r1 = "advance (length h) r" and ?r2 = "advance (length h + length bs) r"
  let ?r3 = "advance (length h + length bs + length kb) r"
  let ?ad = "overwrite None cbor_as_bytes (last_value (CText ''authData'') m)"
  have in_b: "in_bounds ?r1" "in_bounds ?r2"
    using start by (intro in_bounds_advance; simp)+
  have members: "object_members (length m) None ?r1 = Ok (?ad, ?r2)"
    using object_members_enc [OF assms(2) _ in_b(1) assms(3), of "kb @ hb" None] start(2) by simp
  have key: "readText ?r2 = Ok (client_text s, ?r3)"
    using readText_enc [OF assms(4) _ in_b(2), of hb] start(2) by simp
  have "skipValue ?r3 = Ok ((), advance (length hb + n) ?r3)"
    using skip_head(2) [OF assms(6), of ?r3 "[]"] start(2) assms(7)
    by (simp add: r_def CBORReader_def)
  then have "object_members (length m + 1) None ?r1
      = Ok (?ad, advance (length hb + n) ?r3)"
    unfolding object_members_add using members key assms(5) by simp
  moreover have "overwrite None f v = Option.bind v f" for f :: "cbor_value \<Rightarrow> bytes option" and v
    by (cases v) auto
  ultimately show ?thesis
    by (simp add: extractAttestedPublicKey_def r_def [symmetric] header)
qed

end
