(* ===== verification/Client_Demo.thy ===== *)
theory Client_Demo
  imports Client_Cbor
begin

text \<open>
  The iOS demo (\<open>ios-demo/AttestKitDemo\<close>): \<open>AttestService\<close> (\<open>AttestService.swift\<close>), which drives
  the platform's App Attest service and remembers the attested key, and \<open>AttestViewModel\<close>
  (\<open>ContentView.swift\<close>), which runs the two buttons and writes every capture to a file. An
  \<open>async\<close> method is a task that waits for the platform and goes on when the answer comes, so
  tasks interleave at their \<open>await\<close>s; what the platform answers is the choice of the step. The
  views, which only show this state, are left out.
\<close>

section \<open>Data\<close>

datatype client_error =
    Unsupported
  | GenerateKeyFailed string
  | AttestKeyFailed string
  | AssertionFailed string
  | NoActiveKey
  | CborParseFailed client_cbor_error

record attestation_capture =
  att_key_id_bytes :: bytes
  att_object :: bytes
  att_public_key :: bytes
  att_challenge :: bytes
  att_app_id :: string
  att_production :: bool

record assertion_capture =
  asr_object :: bytes
  asr_client_data :: bytes
  asr_public_key :: bytes
  asr_app_id :: string

text \<open>The struct kept in \<open>UserDefaults\<close> as JSON, which Foundation encodes and decodes.\<close>

record active_key =
  act_key_id :: string
  act_attested_key_hex :: string
  act_app_id :: string

text \<open>
  What the code takes from the platform: the text of an error value, and base64 decoding.
\<close>

record ios =
  describe_cbor_error :: "client_cbor_error \<Rightarrow> string"
  base64_decoded :: "string \<Rightarrow> bytes option"

record app_config =
  bundle_identifier :: "string option"
  app_attest_supported :: bool

definition team_id :: string where
  "team_id = ''5354N269JS''"

definition is_production :: bool where
  "is_production = False"

definition client_app_id :: "string \<Rightarrow> string" where
  "client_app_id bundle = team_id @ ''.'' @ bundle"

fun error_description :: "ios \<Rightarrow> client_error \<Rightarrow> string" where
  "error_description I Unsupported =
     ''App Attest is not supported on this device or simulator. Run on a real device.''"
| "error_description I (GenerateKeyFailed e) = ''generateKey failed: '' @ e"
| "error_description I (AttestKeyFailed e) = ''attestKey failed: '' @ e"
| "error_description I (AssertionFailed e) = ''generateAssertion failed: '' @ e"
| "error_description I NoActiveKey = ''No active attested key. Run an attestation first.''"
| "error_description I (CborParseFailed e) =
     ''Failed to parse attestationObject CBOR: '' @ describe_cbor_error I e"

section \<open>Hexadecimal\<close>

definition data_hex :: "bytes \<Rightarrow> string" where
  "data_hex bs = concat (map hex_byte bs)"

definition hex_value :: "char \<Rightarrow> nat option" where
  "hex_value c =
     (let n = of_char c :: nat in
      if 48 \<le> n \<and> n \<le> 57 then Some (n - 48)
      else if 97 \<le> n \<and> n \<le> 102 then Some (n - 87)
      else if 65 \<le> n \<and> n \<le> 70 then Some (n - 55)
      else None)"

text \<open>\<open>UInt8(_, radix: 16)\<close> of two characters: a sign and a digit is a numeral, too.\<close>

definition u8_radix16 :: "char \<Rightarrow> char \<Rightarrow> u8 option" where
  "u8_radix16 c d =
     (if c = CHR ''+'' then map_option word_of_nat (hex_value d)
      else if c = CHR ''-'' then (if hex_value d = Some 0 then Some 0 else None)
      else Option.bind (hex_value c) (\<lambda>x. map_option (\<lambda>y. word_of_nat (16 * x + y)) (hex_value d)))"

fun data_of_hex :: "string \<Rightarrow> bytes option" where
  "data_of_hex [] = Some []"
| "data_of_hex [c] = None"
| "data_of_hex (c # d # cs) =
     Option.bind (u8_radix16 c d) (\<lambda>b. map_option (\<lambda>bs. b # bs) (data_of_hex cs))"

lemma of_char_hex_digit: "n < 16 \<Longrightarrow> (of_char (hex_digit n) :: nat) = (if n < 10 then 48 + n else 87 + n)"
  by (simp add: hex_digit_def)

lemma hex_value_digit: "n < 16 \<Longrightarrow> hex_value (hex_digit n) = Some n"
  by (simp add: hex_value_def of_char_hex_digit)

lemma hex_digit_no_sign: "n < 16 \<Longrightarrow> hex_digit n \<noteq> CHR ''+'' \<and> hex_digit n \<noteq> CHR ''-''"
proof -
  assume "n < 16"
  then have "(of_char (hex_digit n) :: nat) \<noteq> of_char CHR ''+''" "(of_char (hex_digit n) :: nat) \<noteq> of_char CHR ''-''"
    by (simp_all add: of_char_hex_digit)
  then show ?thesis by metis
qed

text \<open>The hexadecimal form in the defaults is read back as the same key.\<close>

lemma data_of_hex_data_hex [simp]: "data_of_hex (data_hex bs) = Some bs"
proof (induction bs)
  case Nil
  then show ?case by (simp add: data_hex_def)
next
  case (Cons b bs)
  have lt: "unat b div 16 < 16" "unat b mod 16 < 16"
    using unat_u8_less [of b] by auto
  have "16 * (unat b div 16) + unat b mod 16 = unat b" by simp
  then have "u8_radix16 (hex_digit (unat b div 16)) (hex_digit (unat b mod 16)) = Some b"
    using lt hex_digit_no_sign [OF lt(1)]
    by (simp add: u8_radix16_def hex_value_digit flip: of_nat_add of_nat_mult)
  with Cons show ?case by (simp add: data_hex_def hex_byte_def)
qed

lemma data_hex_inj: "data_hex a = data_hex b \<Longrightarrow> a = b"
  by (metis data_of_hex_data_hex option.inject)

section \<open>Fixture files\<close>

text \<open>A line \<open>"key": value\<close> of a fixture, and the value \<open>"text"\<close>.\<close>

definition dq :: "string \<Rightarrow> string" where
  "dq s = CHR 0x22 # s @ [CHR 0x22]"

definition fixture_line :: "string \<Rightarrow> string \<Rightarrow> string" where
  "fixture_line k v = ''  '' @ dq k @ '': '' @ v"

fun fixture_lines :: "string list \<Rightarrow> string" where
  "fixture_lines [] = []"
| "fixture_lines [l] = l @ [CHR 0x0A]"
| "fixture_lines (l # ls) = l @ '','' @ [CHR 0x0A] @ fixture_lines ls"

definition attestation_fixture_json :: "attestation_capture \<Rightarrow> string" where
  "attestation_fixture_json c =
     ''{'' @ [CHR 0x0A] @ fixture_lines
       [fixture_line ''attestation_object_hex'' (dq (data_hex (att_object c))),
        fixture_line ''attested_value_hex'' (dq (data_hex (att_public_key c))),
        fixture_line ''key_id_hex'' (dq (data_hex (att_key_id_bytes c))),
        fixture_line ''challenge_hex'' (dq (data_hex (att_challenge c))),
        fixture_line ''app_id'' (dq (att_app_id c)),
        fixture_line ''production'' (if att_production c then ''true'' else ''false'')] @ ''}''"

definition assertion_fixture_json :: "assertion_capture \<Rightarrow> string" where
  "assertion_fixture_json c =
     ''{'' @ [CHR 0x0A] @ fixture_lines
       [fixture_line ''assertion_object_hex'' (dq (data_hex (asr_object c))),
        fixture_line ''client_data_hex'' (dq (data_hex (asr_client_data c))),
        fixture_line ''attested_key_hex'' (dq (data_hex (asr_public_key c))),
        fixture_line ''app_id'' (dq (asr_app_id c))] @ ''}''"

text \<open>\<open>Int(_:)\<close> of a string: an optional sign, digits, and a value of 64 bits.\<close>

definition decimal_digit :: "char \<Rightarrow> nat option" where
  "decimal_digit c =
     (let n = of_char c :: nat in if 48 \<le> n \<and> n \<le> 57 then Some (n - 48) else None)"

fun decimal_value :: "nat \<Rightarrow> string \<Rightarrow> nat option" where
  "decimal_value v [] = Some v"
| "decimal_value v (c # cs) =
     (case decimal_digit c of None \<Rightarrow> None | Some d \<Rightarrow> decimal_value (10 * v + d) cs)"

definition int_magnitude :: "string \<Rightarrow> nat option" where
  "int_magnitude s = (if s = [] then None else decimal_value 0 s)"

fun swift_int :: "string \<Rightarrow> int option" where
  "swift_int [] = None"
| "swift_int (c # cs) =
     Option.bind
       (if c = CHR ''-'' then map_option (\<lambda>n. - int n) (int_magnitude cs)
        else if c = CHR ''+'' then map_option int (int_magnitude cs)
        else map_option int (int_magnitude (c # cs)))
       i64_try_from"

definition has_prefix :: "string \<Rightarrow> string \<Rightarrow> bool" where
  "has_prefix p s \<longleftrightarrow> take (length p) s = p"

definition has_suffix :: "string \<Rightarrow> string \<Rightarrow> bool" where
  "has_suffix p s \<longleftrightarrow> length p \<le> length s \<and> drop (length s - length p) s = p"

definition fixture_number :: "string \<Rightarrow> string \<Rightarrow> int option" where
  "fixture_number kind name =
     (if has_prefix (kind @ ''_'') name \<and> has_suffix ''.json'' name
      then swift_int (let t = drop (length kind + 1) name in take (length t - length ''.json'') t)
      else None)"

text \<open>\<open>max().map { $0 + 1 } ?? 1\<close>; the addition traps on the largest \<open>Int\<close>.\<close>

fun largest :: "int list \<Rightarrow> int option" where
  "largest [] = None"
| "largest (i # is) = (case largest is of None \<Rightarrow> Some i | Some j \<Rightarrow> Some (max i j))"

definition next_number :: "string \<Rightarrow> string list \<Rightarrow> (int, string) result" where
  "next_number kind names =
     (case largest (List.map_filter (fixture_number kind) names) of
        None \<Rightarrow> Ok 1
      | Some i \<Rightarrow> if i + 1 < 2 ^ 63 then Ok (i + 1) else Panic)"

text \<open>\<open>%03d\<close> prints the low 32 bits as a signed number, in at least three characters.\<close>

definition pad_zeros :: "nat \<Rightarrow> string \<Rightarrow> string" where
  "pad_zeros w s = replicate (w - length s) (CHR ''0'') @ s"

definition format_03d :: "int \<Rightarrow> string" where
  "format_03d i =
     (let j = sint (word_of_int i :: i32) in
      if j < 0 then ''-'' @ pad_zeros 2 (show_nat (nat (- j))) else pad_zeros 3 (show_nat (nat j)))"

definition fixture_name :: "string \<Rightarrow> int \<Rightarrow> string" where
  "fixture_name kind i = kind @ ''_'' @ format_03d i @ ''.json''"

type_synonym directory = "(string \<times> string) list"

text \<open>
  What the file system does for one call: there is no documents directory, or there is, and its
  listing may fail (\<open>try?\<close> takes that for an empty directory) and the write may fail with an error.
  An atomic write replaces the file of that name.
\<close>

datatype file_access = NoDirectory string | Directory bool "string option"

fun listed :: "file_access \<Rightarrow> bool" where
  "listed (NoDirectory e) \<longleftrightarrow> True"
| "listed (Directory ok failure) \<longleftrightarrow> ok"

definition write_file :: "string \<Rightarrow> string \<Rightarrow> directory \<Rightarrow> directory" where
  "write_file name text docs = (name, text) # filter (\<lambda>(n, _). n \<noteq> name) docs"

fun writeFixture :: "string \<Rightarrow> string \<Rightarrow> file_access \<Rightarrow> directory
    \<Rightarrow> (string \<times> directory, string) result" where
  "writeFixture kind json (NoDirectory e) docs = Err e"
| "writeFixture kind json (Directory ok failure) docs =
     and_then (next_number kind (if ok then map fst docs else [])) (\<lambda>i.
     case failure of
       Some e \<Rightarrow> Err e
     | None \<Rightarrow> Ok (fixture_name kind i, write_file (fixture_name kind i) json docs))"

text \<open>A failed listing restarts the numbers, and the first fixture is replaced.\<close>

lemma unlisted_fixture_lost:
  "writeFixture kind json (Directory False None) [(fixture_name kind 1, old)]
    = Ok (fixture_name kind 1, [(fixture_name kind 1, json)])"
  by (simp add: next_number_def write_file_def map_filter_def)

section \<open>Fresh file names\<close>

lemma decimal_value_append:
  "decimal_value v (s @ t) = Option.bind (decimal_value v s) (\<lambda>w. decimal_value w t)"
  by (induction v s rule: decimal_value.induct) (auto split: option.split)

lemma decimal_digit_char: "d < 10 \<Longrightarrow> decimal_digit (digit_char d) = Some d"
  by (simp add: decimal_digit_def digit_char_def)

lemma decimal_value_show: "decimal_value 0 (show_nat n) = Some n"
proof (induction n rule: show_nat.induct)
  case (1 n)
  show ?case
  proof (cases "n < 10")
    case True
    then show ?thesis by (simp add: show_nat.simps [of n] decimal_digit_char)
  next
    case False
    with 1 show ?thesis
      by (simp add: show_nat.simps [of n] decimal_value_append decimal_digit_char)
  qed
qed

lemma decimal_value_zeros: "decimal_value 0 (replicate k (CHR ''0'') @ s) = decimal_value 0 s"
  by (induction k) (simp_all add: decimal_digit_def)

lemma show_nat_digits: "c \<in> set (show_nat n) \<Longrightarrow> \<exists>d < 10. c = digit_char d"
proof (induction n rule: show_nat.induct)
  case (1 n)
  show ?case
  proof (cases "n < 10")
    case True
    with 1 show ?thesis by (auto simp: show_nat.simps [of n])
  next
    case False
    with 1 show ?thesis by (auto simp: show_nat.simps [of n] intro: exI [of _ "n mod 10"])
  qed
qed

lemma show_nat_nonempty: "show_nat n \<noteq> []"
  by (subst show_nat.simps) simp

lemma swift_int_padded:
  assumes "n < 2 ^ 63"
  shows "swift_int (pad_zeros w (show_nat n)) = Some (int n)"
proof -
  have val: "decimal_value 0 (pad_zeros w (show_nat n)) = Some n"
    by (simp add: pad_zeros_def decimal_value_zeros decimal_value_show)
  obtain c cs where c: "pad_zeros w (show_nat n) = c # cs"
    using show_nat_nonempty [of n] by (cases "pad_zeros w (show_nat n)") (auto simp: pad_zeros_def)
  have "c \<in> set (pad_zeros w (show_nat n))" by (simp add: c)
  then have "c = CHR ''0'' \<or> (\<exists>d < 10. c = digit_char d)"
    by (auto simp: pad_zeros_def dest: show_nat_digits split: if_splits)
  then have "(of_char c :: nat) \<noteq> of_char CHR ''+''" "(of_char c :: nat) \<noteq> of_char CHR ''-''"
    by (auto simp: digit_char_def)
  then have "c \<noteq> CHR ''+''" "c \<noteq> CHR ''-''" by metis+
  then show ?thesis
    using val assms by (simp add: c int_magnitude_def i64_try_from_def)
qed

lemma fixture_number_name:
  assumes "0 \<le> i" "i < 2 ^ 31"
  shows "fixture_number kind (fixture_name kind i) = Some i"
proof -
  have "sint (word_of_int i :: i32) = i"
    using assms by (simp add: sint_uint uint_word_of_int signed_take_bit_int_eq_self)
  then have "format_03d i = pad_zeros 3 (show_nat (nat i))"
    using assms by (simp add: format_03d_def Let_def)
  moreover have "swift_int (pad_zeros 3 (show_nat (nat i))) = Some i"
    using swift_int_padded [of "nat i" 3] assms by (simp add: nat_less_iff)
  ultimately show ?thesis
    by (simp add: fixture_number_def fixture_name_def has_prefix_def has_suffix_def Let_def)
qed

lemma largest_ge: "i \<in> set is \<Longrightarrow> \<exists>j. largest is = Some j \<and> i \<le> j"
  by (induction "is" arbitrary: i) (auto split: option.splits, fastforce+)

lemma next_number_fresh:
  assumes "next_number kind names = Ok i" "name \<in> set names" "fixture_number kind name = Some j"
  shows "j < i"
proof -
  have "j \<in> set (List.map_filter (fixture_number kind) names)"
    using assms(2,3) by (force simp: map_filter_def)
  then obtain l where "largest (List.map_filter (fixture_number kind) names) = Some l" "j \<le> l"
    using largest_ge by blast
  with assms(1) show ?thesis by (auto simp: next_number_def split: if_splits)
qed

section \<open>State\<close>

text \<open>What a task waits for, or what it is about to hand to the view model.\<close>

datatype attest_task =
    GeneratingKey bytes string
  | AttestingKey bytes string string
  | AttestReturned "(attestation_capture, client_error) result"
  | AttestDone

datatype assert_task =
    AssertCalled bytes
  | GeneratingAssertion bytes string bytes string
  | AssertReturned "(assertion_capture, client_error) result"
  | AssertDone

record demo =
  defaults :: "active_key option"
  documents :: directory
  last_attestation :: "attestation_capture option"
  last_assertion :: "assertion_capture option"
  saved_attestation_file :: "string option"
  saved_assertion_file :: "string option"
  error_message :: "string option"
  is_attesting :: bool
  is_asserting :: bool
  attest_tasks :: "attest_task list"
  assert_tasks :: "assert_task list"
  crashed :: bool

definition demo_start :: demo where
  "demo_start =
     \<lparr>defaults = None, documents = [], last_attestation = None, last_assertion = None,
      saved_attestation_file = None, saved_assertion_file = None, error_message = None,
      is_attesting = False, is_asserting = False, attest_tasks = [], assert_tasks = [], crashed = False\<rparr>"

text \<open>The pair a completion handler gets: a value and an error, each possibly missing.\<close>

type_synonym 'a answer = "'a option \<times> string option"

fun completion :: "(string \<Rightarrow> client_error) \<Rightarrow> string \<Rightarrow> 'a answer \<Rightarrow> ('a, client_error) result" where
  "completion fail nothing (v, Some e) = Err (fail e)"
| "completion fail nothing (None, None) = Err (fail nothing)"
| "completion fail nothing (Some v, None) = Ok v"

section \<open>AttestService\<close>

text \<open>The property \<open>activeKey\<close>.\<close>

definition activeKey :: "demo \<Rightarrow> (string \<times> bytes \<times> string) option" where
  "activeKey s =
     (case defaults s of
        None \<Rightarrow> None
      | Some stored \<Rightarrow>
          map_option (\<lambda>pk. (act_key_id stored, pk, act_app_id stored))
            (data_of_hex (act_attested_key_hex stored)))"

text \<open>\<open>attest\<close>: up to the first \<open>await\<close>, after the key is generated, and after it is attested.\<close>

definition attest_called :: "app_config \<Rightarrow> bytes \<Rightarrow> string \<Rightarrow> attest_task" where
  "attest_called cfg chal app_id =
     (if app_attest_supported cfg then GeneratingKey chal app_id else AttestReturned (Err Unsupported))"

definition key_generated :: "bytes \<Rightarrow> string \<Rightarrow> string answer \<Rightarrow> attest_task" where
  "key_generated chal app_id answer =
     (case completion GenerateKeyFailed ''nil keyId'' answer of
        Ok kid \<Rightarrow> AttestingKey chal app_id kid
      | Err e \<Rightarrow> AttestReturned (Err e)
      | Panic \<Rightarrow> AttestReturned Panic)"

definition key_id_bytes :: "ios \<Rightarrow> string \<Rightarrow> bytes" where
  "key_id_bytes I kid = (case base64_decoded I kid of Some b \<Rightarrow> b | None \<Rightarrow> [])"

definition key_attested :: "ios \<Rightarrow> bytes \<Rightarrow> string \<Rightarrow> string \<Rightarrow> bytes answer
    \<Rightarrow> active_key option \<times> (attestation_capture, client_error) result" where
  "key_attested I chal app_id kid answer =
     (case completion AttestKeyFailed ''nil attestation'' answer of
        Err e \<Rightarrow> (None, Err e)
      | Panic \<Rightarrow> (None, Panic)
      | Ok obj \<Rightarrow>
          (case extractAttestedPublicKey obj of
             Err e \<Rightarrow> (None, Err (CborParseFailed e))
           | Panic \<Rightarrow> (None, Panic)
           | Ok pk \<Rightarrow>
               (Some \<lparr>act_key_id = kid, act_attested_key_hex = data_hex pk, act_app_id = app_id\<rparr>,
                Ok \<lparr>att_key_id_bytes = key_id_bytes I kid, att_object = obj, att_public_key = pk,
                    att_challenge = chal, att_app_id = app_id, att_production = is_production\<rparr>)))"

text \<open>\<open>assert\<close>: up to its \<open>await\<close>, and after the assertion is made.\<close>

definition assert_called :: "app_config \<Rightarrow> bytes \<Rightarrow> demo \<Rightarrow> assert_task" where
  "assert_called cfg client_data s =
     (if \<not> app_attest_supported cfg then AssertReturned (Err Unsupported)
      else (case activeKey s of
              None \<Rightarrow> AssertReturned (Err NoActiveKey)
            | Some (kid, pk, app_id) \<Rightarrow> GeneratingAssertion client_data kid pk app_id))"

definition assertion_made :: "bytes \<Rightarrow> bytes \<Rightarrow> string \<Rightarrow> bytes answer \<Rightarrow> (assertion_capture, client_error) result" where
  "assertion_made client_data pk app_id answer =
     and_then (completion AssertionFailed ''nil assertion'' answer) (\<lambda>a.
     Ok \<lparr>asr_object = a, asr_client_data = client_data, asr_public_key = pk, asr_app_id = app_id\<rparr>)"

section \<open>AttestViewModel\<close>

definition attest_tapped :: "app_config \<Rightarrow> int + bytes \<Rightarrow> demo \<Rightarrow> demo" where
  "attest_tapped cfg random s =
     (case bundle_identifier cfg of
        None \<Rightarrow> s\<lparr>error_message := Some ''No bundle identifier.''\<rparr>
      | Some bundle \<Rightarrow>
          (case random of
             Inl status \<Rightarrow>
               s\<lparr>error_message := Some (''SecRandomCopyBytes failed: '' @ show_int status), is_attesting := False\<rparr>
           | Inr chal \<Rightarrow>
               s\<lparr>is_attesting := True,
                 attest_tasks := attest_tasks s @ [attest_called cfg chal (client_app_id bundle)]\<rparr>))"

definition attest_returned :: "ios \<Rightarrow> (attestation_capture, client_error) result \<Rightarrow> file_access
    \<Rightarrow> demo \<Rightarrow> demo" where
  "attest_returned I r fa s =
     (case r of
        Panic \<Rightarrow> s\<lparr>crashed := True\<rparr>
      | Err e \<Rightarrow> s\<lparr>error_message := Some (error_description I e), is_attesting := False\<rparr>
      | Ok cap \<Rightarrow>
          (let s = s\<lparr>last_attestation := Some cap, last_assertion := None,
                     saved_assertion_file := None, error_message := None\<rparr> in
           case writeFixture ''attestation'' (attestation_fixture_json cap) fa (documents s) of
             Panic \<Rightarrow> s\<lparr>crashed := True\<rparr>
           | Err e \<Rightarrow> s\<lparr>error_message := Some e, is_attesting := False\<rparr>
           | Ok (name, docs) \<Rightarrow>
               s\<lparr>documents := docs, saved_attestation_file := Some name, is_attesting := False\<rparr>))"

text \<open>The payload the demo signs.\<close>

definition demo_client_data :: "string \<Rightarrow> bytes \<Rightarrow> bytes" where
  "demo_client_data stamp nonce =
     as_bytes (''{'' @ dq ''demo'' @ '':'' @ dq ''AttestKitDemo'' @ '','' @ dq ''timestamp'' @ '':'' @ dq stamp
               @ '','' @ dq ''nonce'' @ '':'' @ dq (data_hex nonce) @ ''}'')"

definition assert_tapped :: "string \<Rightarrow> bytes \<Rightarrow> demo \<Rightarrow> demo" where
  "assert_tapped stamp nonce s =
     s\<lparr>is_asserting := True, assert_tasks := assert_tasks s @ [AssertCalled (demo_client_data stamp nonce)]\<rparr>"

definition assert_returned :: "ios \<Rightarrow> (assertion_capture, client_error) result \<Rightarrow> file_access
    \<Rightarrow> demo \<Rightarrow> demo" where
  "assert_returned I r fa s =
     (case r of
        Panic \<Rightarrow> s\<lparr>crashed := True\<rparr>
      | Err e \<Rightarrow> s\<lparr>error_message := Some (error_description I e), is_asserting := False\<rparr>
      | Ok cap \<Rightarrow>
          (let s = s\<lparr>last_assertion := Some cap, error_message := None\<rparr> in
           case writeFixture ''assertion'' (assertion_fixture_json cap) fa (documents s) of
             Panic \<Rightarrow> s\<lparr>crashed := True\<rparr>
           | Err e \<Rightarrow> s\<lparr>error_message := Some e, is_asserting := False\<rparr>
           | Ok (name, docs) \<Rightarrow>
               s\<lparr>documents := docs, saved_assertion_file := Some name, is_asserting := False\<rparr>))"

definition clearActiveKey :: "demo \<Rightarrow> demo" where
  "clearActiveKey s =
     s\<lparr>defaults := None, last_attestation := None, last_assertion := None,
       saved_attestation_file := None, saved_assertion_file := None\<rparr>"

section \<open>Steps\<close>

text \<open>
  What happens next: a button is tapped, with the random bytes and the time stamp the code then
  asks for; the platform answers the task of an index; or a task goes on, and the platform
  refuses or does the write of its fixture. The buttons are disabled while a task of their kind
  runs, but a view shows an old state for a moment, so a tap is possible at any time.
\<close>

datatype demo_event =
    AttestTapped "int + bytes"
  | KeyGenerated nat "string answer"
  | KeyAttested nat "bytes answer"
  | AttestResumed nat file_access
  | AssertTapped string bytes
  | AssertRequested nat
  | AssertionMade nat "bytes answer"
  | AssertResumed nat file_access
  | KeyForgotten

fun demo_event_step :: "ios \<Rightarrow> app_config \<Rightarrow> demo_event \<Rightarrow> demo \<Rightarrow> demo option" where
  "demo_event_step I cfg (AttestTapped random) s = Some (attest_tapped cfg random s)"
| "demo_event_step I cfg (KeyGenerated i answer) s =
     (case get (attest_tasks s) i of
        Some (GeneratingKey chal app_id) \<Rightarrow>
          Some (s\<lparr>attest_tasks := (attest_tasks s)[i := key_generated chal app_id answer]\<rparr>)
      | _ \<Rightarrow> None)"
| "demo_event_step I cfg (KeyAttested i answer) s =
     (case get (attest_tasks s) i of
        Some (AttestingKey chal app_id kid) \<Rightarrow>
          (case key_attested I chal app_id kid answer of
             (_, Panic) \<Rightarrow> Some (s\<lparr>crashed := True\<rparr>)
           | (None, r) \<Rightarrow> Some (s\<lparr>attest_tasks := (attest_tasks s)[i := AttestReturned r]\<rparr>)
           | (Some stored, r) \<Rightarrow>
               Some (s\<lparr>defaults := Some stored, attest_tasks := (attest_tasks s)[i := AttestReturned r]\<rparr>))
      | _ \<Rightarrow> None)"
| "demo_event_step I cfg (AttestResumed i fa) s =
     (case get (attest_tasks s) i of
        Some (AttestReturned r) \<Rightarrow>
          Some (attest_returned I r fa (s\<lparr>attest_tasks := (attest_tasks s)[i := AttestDone]\<rparr>))
      | _ \<Rightarrow> None)"
| "demo_event_step I cfg (AssertTapped stamp nonce) s = Some (assert_tapped stamp nonce s)"
| "demo_event_step I cfg (AssertRequested i) s =
     (case get (assert_tasks s) i of
        Some (AssertCalled client_data) \<Rightarrow>
          Some (s\<lparr>assert_tasks := (assert_tasks s)[i := assert_called cfg client_data s]\<rparr>)
      | _ \<Rightarrow> None)"
| "demo_event_step I cfg (AssertionMade i answer) s =
     (case get (assert_tasks s) i of
        Some (GeneratingAssertion client_data kid pk app_id) \<Rightarrow>
          Some (s\<lparr>assert_tasks :=
            (assert_tasks s)[i := AssertReturned (assertion_made client_data pk app_id answer)]\<rparr>)
      | _ \<Rightarrow> None)"
| "demo_event_step I cfg (AssertResumed i fa) s =
     (case get (assert_tasks s) i of
        Some (AssertReturned r) \<Rightarrow>
          Some (assert_returned I r fa (s\<lparr>assert_tasks := (assert_tasks s)[i := AssertDone]\<rparr>))
      | _ \<Rightarrow> None)"
| "demo_event_step I cfg KeyForgotten s = Some (clearActiveKey s)"

text \<open>
  The states after a sequence of events, the latest first, of which each satisfies the
  assumption \<open>H\<close> about the platform in the state it meets. A crashed app takes no more steps.
\<close>

inductive demo_run :: "ios \<Rightarrow> app_config \<Rightarrow> (demo \<Rightarrow> demo_event \<Rightarrow> bool) \<Rightarrow> demo_event list \<Rightarrow> demo \<Rightarrow> bool"
  for I cfg H where
  demo_run_start: "demo_run I cfg H [] demo_start"
| demo_run_step: "demo_run I cfg H es s \<Longrightarrow> \<not> crashed s \<Longrightarrow> H s e \<Longrightarrow> demo_event_step I cfg e s = Some s'
    \<Longrightarrow> demo_run I cfg H (e # es) s'"

inductive_cases demo_run_ConsE: "demo_run I cfg H (e # es) s"

text \<open>How an event changes the tasks, the defaults and the files.\<close>

lemma get_in_set: "get xs i = Some x \<Longrightarrow> x \<in> set xs"
  by (auto simp: get_def split: if_splits)

section \<open>The platform's App Attest service\<close>

text \<open>
  The contract of \<open>DCAppAttestService\<close> as the demo uses it. \<open>attest_answer kid h obj\<close> and
  \<open>assertion_answer kid h obj\<close> say which objects the service may return for a key and a client
  data hash; \<open>public_key\<close> is the key that a key id names. What an attestation object or an
  assertion is worth is left to the two predicates on captures.
\<close>

locale app_attest_service =
  fixes I :: ios and hash :: "bytes \<Rightarrow> bytes" and app_id :: string
    and public_key :: "string \<Rightarrow> bytes option"
    and attest_answer :: "string \<Rightarrow> bytes \<Rightarrow> bytes \<Rightarrow> bool"
    and assertion_answer :: "string \<Rightarrow> bytes \<Rightarrow> bytes \<Rightarrow> bool"
    and attestation_verifies :: "attestation_capture \<Rightarrow> bool"
    and assertion_verifies :: "assertion_capture \<Rightarrow> bool"
  assumes attest_key: "attest_answer kid (hash chal) obj \<Longrightarrow>
      \<exists>pk. public_key kid = Some pk \<and> extractAttestedPublicKey obj = Ok pk
        \<and> attestation_verifies \<lparr>att_key_id_bytes = key_id_bytes I kid, att_object = obj, att_public_key = pk,
            att_challenge = chal, att_app_id = app_id, att_production = is_production\<rparr>"
    and generate_assertion: "assertion_answer kid (hash client_data) obj \<Longrightarrow> public_key kid = Some pk \<Longrightarrow>
      assertion_verifies \<lparr>asr_object = obj, asr_client_data = client_data, asr_public_key = pk,
        asr_app_id = app_id\<rparr>"

text \<open>An answer of the service, in the state in which it arrives.\<close>

fun service_answers :: "(bytes \<Rightarrow> bytes) \<Rightarrow> (string \<Rightarrow> bytes \<Rightarrow> bytes \<Rightarrow> bool)
    \<Rightarrow> (string \<Rightarrow> bytes \<Rightarrow> bytes \<Rightarrow> bool) \<Rightarrow> demo \<Rightarrow> demo_event \<Rightarrow> bool" where
  "service_answers hash att asr s (KeyAttested i (Some obj, None)) \<longleftrightarrow>
     (case get (attest_tasks s) i of
        Some (AttestingKey chal app_id kid) \<Rightarrow> att kid (hash chal) obj
      | _ \<Rightarrow> True)"
| "service_answers hash att asr s (AssertionMade i (Some obj, None)) \<longleftrightarrow>
     (case get (assert_tasks s) i of
        Some (GeneratingAssertion client_data kid pk app_id) \<Rightarrow> asr kid (hash client_data) obj
      | _ \<Rightarrow> True)"
| "service_answers hash att asr s _ \<longleftrightarrow> True"

fun attest_task_ok :: "string \<Rightarrow> (attestation_capture \<Rightarrow> bool) \<Rightarrow> attest_task \<Rightarrow> bool" where
  "attest_task_ok app_id av (GeneratingKey chal a) \<longleftrightarrow> a = app_id"
| "attest_task_ok app_id av (AttestingKey chal a kid) \<longleftrightarrow> a = app_id"
| "attest_task_ok app_id av (AttestReturned (Ok cap)) \<longleftrightarrow> av cap"
| "attest_task_ok app_id av _ \<longleftrightarrow> True"

fun assert_task_ok :: "string \<Rightarrow> (string \<Rightarrow> bytes option) \<Rightarrow> (assertion_capture \<Rightarrow> bool) \<Rightarrow> assert_task \<Rightarrow> bool" where
  "assert_task_ok app_id pub sv (GeneratingAssertion client_data kid pk a) \<longleftrightarrow> a = app_id \<and> pub kid = Some pk"
| "assert_task_ok app_id pub sv (AssertReturned (Ok cap)) \<longleftrightarrow> sv cap"
| "assert_task_ok app_id pub sv _ \<longleftrightarrow> True"

definition stored_ok :: "string \<Rightarrow> (string \<Rightarrow> bytes option) \<Rightarrow> active_key \<Rightarrow> bool" where
  "stored_ok app_id pub k \<longleftrightarrow>
     act_app_id k = app_id \<and> (\<exists>pk. act_attested_key_hex k = data_hex pk \<and> pub (act_key_id k) = Some pk)"

definition document_ok :: "(attestation_capture \<Rightarrow> bool) \<Rightarrow> (assertion_capture \<Rightarrow> bool) \<Rightarrow> string \<Rightarrow> bool" where
  "document_ok av sv text \<longleftrightarrow>
     (\<exists>c. av c \<and> text = attestation_fixture_json c) \<or> (\<exists>c. sv c \<and> text = assertion_fixture_json c)"

definition demo_inv :: "string \<Rightarrow> (string \<Rightarrow> bytes option) \<Rightarrow> (attestation_capture \<Rightarrow> bool)
    \<Rightarrow> (assertion_capture \<Rightarrow> bool) \<Rightarrow> demo \<Rightarrow> bool" where
  "demo_inv app_id pub av sv s \<longleftrightarrow>
     pred_option (stored_ok app_id pub) (defaults s)
     \<and> list_all (attest_task_ok app_id av) (attest_tasks s)
     \<and> list_all (assert_task_ok app_id pub sv) (assert_tasks s)
     \<and> list_all (\<lambda>(name, text). document_ok av sv text) (documents s)"

lemma list_all_get: "list_all P xs \<Longrightarrow> get xs i = Some x \<Longrightarrow> P x"
  by (auto simp: list_all_iff dest: get_in_set)

lemma list_all_put: "list_all P xs \<Longrightarrow> P y \<Longrightarrow> list_all P (xs[i := y])"
  using set_update_subset_insert [of xs i y] by (auto simp: list_all_iff)

lemma writeFixture_docs:
  "writeFixture kind text fa docs = Ok (name, docs') \<Longrightarrow>
     \<exists>i. (listed fa \<longrightarrow> next_number kind (map fst docs) = Ok i)
       \<and> name = fixture_name kind i \<and> docs' = write_file name text docs"
  by (cases fa) (auto simp: result_simps split: option.splits if_splits)

lemma list_all_written:
  "list_all (\<lambda>(n, t). P t) docs \<Longrightarrow> P text \<Longrightarrow> list_all (\<lambda>(n, t). P t) (write_file name text docs)"
  by (auto simp: write_file_def list_all_iff)

lemma attest_returned_fields:
  "attest_tasks (attest_returned I r fa s) = attest_tasks s"
  "assert_tasks (attest_returned I r fa s) = assert_tasks s"
  "defaults (attest_returned I r fa s) = defaults s"
  by (simp_all add: attest_returned_def Let_def split: result.split)

lemma assert_returned_fields:
  "attest_tasks (assert_returned I r fa s) = attest_tasks s"
  "assert_tasks (assert_returned I r fa s) = assert_tasks s"
  "defaults (assert_returned I r fa s) = defaults s"
  by (simp_all add: assert_returned_def Let_def split: result.split)

text \<open>The files after a task has returned: as before, or with the fixture of its capture written.\<close>

lemma attest_returned_documents:
  "documents (attest_returned I r fa s) = documents s
   \<or> (\<exists>cap i. r = Ok cap \<and> (listed fa \<longrightarrow> next_number ''attestation'' (map fst (documents s)) = Ok i)
        \<and> documents (attest_returned I r fa s)
          = write_file (fixture_name ''attestation'' i) (attestation_fixture_json cap) (documents s))"
  by (auto simp: attest_returned_def Let_def split: result.split dest!: writeFixture_docs)

lemma assert_returned_documents:
  "documents (assert_returned I r fa s) = documents s
   \<or> (\<exists>cap i. r = Ok cap \<and> (listed fa \<longrightarrow> next_number ''assertion'' (map fst (documents s)) = Ok i)
        \<and> documents (assert_returned I r fa s)
          = write_file (fixture_name ''assertion'' i) (assertion_fixture_json cap) (documents s))"
  by (auto simp: assert_returned_def Let_def split: result.split dest!: writeFixture_docs)

lemma activeKey_stored:
  "pred_option (stored_ok app_id pub) (defaults s) \<Longrightarrow> activeKey s = Some (kid, pk, a) \<Longrightarrow>
     a = app_id \<and> pub kid = Some pk"
  by (auto simp: activeKey_def stored_ok_def split: option.splits)

context app_attest_service
begin

text \<open>A key id that the service attested is stored with its key, and the capture verifies.\<close>

lemma key_attested_ok:
  assumes "case answer of (Some obj, None) \<Rightarrow> attest_answer kid (hash chal) obj | _ \<Rightarrow> True"
  shows "pred_option (stored_ok app_id public_key) (fst (key_attested I chal app_id kid answer))
    \<and> attest_task_ok app_id attestation_verifies (AttestReturned (snd (key_attested I chal app_id kid answer)))"
proof -
  obtain v e where answer: "answer = (v, e)" by (cases answer)
  show ?thesis
  proof (cases "\<exists>obj. v = Some obj \<and> e = None")
    case True
    with assms answer obtain obj where obj: "v = Some obj" "e = None" "attest_answer kid (hash chal) obj"
      by auto
    with attest_key [OF obj(3)] answer show ?thesis
      by (auto simp: key_attested_def stored_ok_def)
  next
    case False
    then show ?thesis
      by (cases v; cases e) (auto simp: key_attested_def answer)
  qed
qed

lemma assertion_made_ok:
  assumes "case answer of (Some obj, None) \<Rightarrow> assertion_answer kid (hash client_data) obj | _ \<Rightarrow> True"
    and "public_key kid = Some pk"
  shows "assert_task_ok app_id public_key assertion_verifies
    (AssertReturned (assertion_made client_data pk app_id answer))"
  using assms generate_assertion
  by (cases answer; cases "fst answer"; cases "snd answer") (auto simp: assertion_made_def)

end

context app_attest_service
begin

lemma step_inv:
  assumes inv: "demo_inv app_id public_key attestation_verifies assertion_verifies s"
    and answers: "service_answers hash attest_answer assertion_answer s e"
    and bid: "bundle_identifier cfg = Some bundle" "client_app_id bundle = app_id"
    and step: "demo_event_step I cfg e s = Some s'"
  shows "demo_inv app_id public_key attestation_verifies assertion_verifies s'"
proof (cases e)
  case (AttestTapped random)
  then show ?thesis
    using inv step bid by (cases random) (auto simp: demo_inv_def attest_tapped_def attest_called_def)
next
  case (KeyGenerated i answer)
  with step obtain chal a where task: "get (attest_tasks s) i = Some (GeneratingKey chal a)"
    "s' = s\<lparr>attest_tasks := (attest_tasks s)[i := key_generated chal a answer]\<rparr>"
    by (auto split: option.splits attest_task.splits)
  moreover have "attest_task_ok app_id attestation_verifies (key_generated chal a answer)"
    using list_all_get [OF _ task(1), of "attest_task_ok app_id attestation_verifies"] inv
    by (auto simp: demo_inv_def key_generated_def split: result.split)
  ultimately show ?thesis using inv by (simp add: demo_inv_def list_all_put)
next
  case (KeyAttested i answer)
  with step obtain chal a kid where task: "get (attest_tasks s) i = Some (AttestingKey chal a kid)"
    by (auto split: option.splits attest_task.splits)
  have "a = app_id"
    using list_all_get [OF _ task, of "attest_task_ok app_id attestation_verifies"] inv
    by (simp add: demo_inv_def)
  moreover have "case answer of (Some obj, None) \<Rightarrow> attest_answer kid (hash chal) obj | _ \<Rightarrow> True"
    using answers task KeyAttested by (cases answer; cases "fst answer"; cases "snd answer") auto
  ultimately show ?thesis
    using key_attested_ok [where answer = answer and kid = kid and chal = chal] inv step task KeyAttested
    by (cases "key_attested I chal app_id kid answer"; cases "fst (key_attested I chal app_id kid answer)";
        cases "snd (key_attested I chal app_id kid answer)")
       (auto simp: demo_inv_def list_all_put)
next
  case (AttestResumed i fa)
  with step obtain r where task: "get (attest_tasks s) i = Some (AttestReturned r)"
    "s' = attest_returned I r fa (s\<lparr>attest_tasks := (attest_tasks s)[i := AttestDone]\<rparr>)"
    by (auto split: option.splits attest_task.splits)
  have r: "attest_task_ok app_id attestation_verifies (AttestReturned r)"
    using list_all_get [OF _ task(1), of "attest_task_ok app_id attestation_verifies"] inv by (simp add: demo_inv_def)
  have "list_all (\<lambda>(name, text). document_ok attestation_verifies assertion_verifies text) (documents s')"
    using attest_returned_documents [of I r fa "s\<lparr>attest_tasks := (attest_tasks s)[i := AttestDone]\<rparr>"] inv r
    by (auto simp: task(2) demo_inv_def document_ok_def intro!: list_all_written)
  then show ?thesis using inv by (simp add: demo_inv_def task(2) attest_returned_fields list_all_put)
next
  case (AssertTapped stamp nonce)
  then show ?thesis using inv step by (auto simp: demo_inv_def assert_tapped_def)
next
  case (AssertRequested i)
  with step obtain cd where task: "s' = s\<lparr>assert_tasks := (assert_tasks s)[i := assert_called cfg cd s]\<rparr>"
    by (auto split: option.splits assert_task.splits)
  moreover have "assert_task_ok app_id public_key assertion_verifies (assert_called cfg cd s)"
    using activeKey_stored [of app_id public_key s] inv
    by (auto simp: assert_called_def demo_inv_def split: option.split)
  ultimately show ?thesis using inv by (simp add: demo_inv_def list_all_put)
next
  case (AssertionMade i answer)
  with step obtain cd kid pk a where task: "get (assert_tasks s) i = Some (GeneratingAssertion cd kid pk a)"
    "s' = s\<lparr>assert_tasks := (assert_tasks s)[i := AssertReturned (assertion_made cd pk a answer)]\<rparr>"
    by (auto split: option.splits assert_task.splits)
  have "a = app_id" "public_key kid = Some pk"
    using list_all_get [OF _ task(1), of "assert_task_ok app_id public_key assertion_verifies"] inv
    by (simp_all add: demo_inv_def)
  moreover have "case answer of (Some obj, None) \<Rightarrow> assertion_answer kid (hash cd) obj | _ \<Rightarrow> True"
    using answers task(1) AssertionMade by (cases answer; cases "fst answer"; cases "snd answer") auto
  ultimately show ?thesis
    using assertion_made_ok [where answer = answer and kid = kid and client_data = cd and pk = pk] inv by (simp add: demo_inv_def task(2) list_all_put)
next
  case (AssertResumed i fa)
  with step obtain r where task: "get (assert_tasks s) i = Some (AssertReturned r)"
    "s' = assert_returned I r fa (s\<lparr>assert_tasks := (assert_tasks s)[i := AssertDone]\<rparr>)"
    by (auto split: option.splits assert_task.splits)
  have r: "assert_task_ok app_id public_key assertion_verifies (AssertReturned r)"
    using list_all_get [OF _ task(1), of "assert_task_ok app_id public_key assertion_verifies"] inv by (simp add: demo_inv_def)
  have "list_all (\<lambda>(name, text). document_ok attestation_verifies assertion_verifies text) (documents s')"
    using assert_returned_documents [of I r fa "s\<lparr>assert_tasks := (assert_tasks s)[i := AssertDone]\<rparr>"] inv r
    by (auto simp: task(2) demo_inv_def document_ok_def intro!: list_all_written)
  then show ?thesis using inv by (simp add: demo_inv_def task(2) assert_returned_fields list_all_put)
next
  case KeyForgotten
  then show ?thesis using inv step by (auto simp: demo_inv_def clearActiveKey_def)
qed

lemma run_inv:
  assumes "demo_run I cfg (service_answers hash attest_answer assertion_answer) es s"
    and "bundle_identifier cfg = Some bundle" "client_app_id bundle = app_id"
  shows "demo_inv app_id public_key attestation_verifies assertion_verifies s"
  using assms(1)
proof (induction rule: demo_run.induct)
  case demo_run_start
  then show ?case by (simp add: demo_inv_def demo_start_def)
next
  case (demo_run_step es s e s')
  show ?case by (rule step_inv [OF demo_run_step.IH demo_run_step.hyps(3) assms(2,3) demo_run_step.hyps(4)])
qed

text \<open>Every file the demo has written holds a capture that verifies.\<close>

lemma documents_verify:
  assumes "demo_run I cfg (service_answers hash attest_answer assertion_answer) es s"
    and "bundle_identifier cfg = Some bundle" "client_app_id bundle = app_id"
    and "(name, text) \<in> set (documents s)"
  shows "(\<exists>c. attestation_verifies c \<and> text = attestation_fixture_json c)
    \<or> (\<exists>c. assertion_verifies c \<and> text = assertion_fixture_json c)"
  using run_inv [OF assms(1-3)] assms(4) by (auto simp: demo_inv_def list_all_iff document_ok_def)

end

section \<open>No fixture is lost\<close>

text \<open>The names in the directory: fixtures with numbers up to \<open>n\<close>.\<close>

definition names_upto :: "nat \<Rightarrow> string list \<Rightarrow> bool" where
  "names_upto n names \<longleftrightarrow> distinct names
     \<and> (\<forall>name \<in> set names. \<exists>kind i. (kind = ''attestation'' \<or> kind = ''assertion'')
          \<and> 1 \<le> i \<and> i \<le> int n \<and> name = fixture_name kind i)"

lemma fixture_number_kinds:
  "fixture_number ''attestation'' (fixture_name ''assertion'' i) = None"
  "fixture_number ''assertion'' (fixture_name ''attestation'' i) = None"
  by (simp_all add: fixture_number_def fixture_name_def has_prefix_def)

lemma largest_in: "largest is = Some j \<Longrightarrow> j \<in> set is"
  by (induction "is" arbitrary: j) (auto split: option.splits if_splits simp: max_def)

lemma next_number_bound:
  assumes "names_upto n names" "n < 2 ^ 31" "next_number kind names = Ok i"
    and "kind = ''attestation'' \<or> kind = ''assertion''"
  shows "1 \<le> i \<and> i \<le> int n + 1 \<and> (i < 2 ^ 31 \<longrightarrow> fixture_name kind i \<notin> set names)"
proof -
  have number: "1 \<le> j \<and> j \<le> int n"
    if "name \<in> set names" "fixture_number kind name = Some j" for name j
  proof -
    from assms(1) that(1) obtain k m where m: "k = ''attestation'' \<or> k = ''assertion''"
      "1 \<le> m" "m \<le> int n" "name = fixture_name k m"
      unfolding names_upto_def by blast
    have k: "fixture_number k (fixture_name k m) = Some m"
      using m assms(2) by (intro fixture_number_name) auto
    show ?thesis
    proof (cases "k = kind")
      case True
      with k that(2) m show ?thesis by simp
    next
      case False
      with m(1,4) assms(4) that(2) show ?thesis by (auto simp: fixture_number_kinds)
    qed
  qed
  have "1 \<le> i \<and> i \<le> int n + 1"
  proof (cases "largest (List.map_filter (fixture_number kind) names)")
    case None
    with assms(3) show ?thesis by (simp add: next_number_def)
  next
    case (Some j)
    from largest_in [OF this] obtain name where "name \<in> set names" "fixture_number kind name = Some j"
      by (auto simp: map_filter_def)
    from number [OF this] Some assms(3) show ?thesis by (auto simp: next_number_def split: if_splits)
  qed
  moreover have "fixture_name kind i \<notin> set names" if "i < 2 ^ 31"
  proof
    assume "fixture_name kind i \<in> set names"
    from next_number_fresh [OF assms(3) this fixture_number_name] that \<open>1 \<le> i \<and> _\<close> show False by simp
  qed
  ultimately show ?thesis by blast
qed

lemma write_fresh:
  assumes "names_upto n (map fst docs)" "n + 1 < 2 ^ 31" "next_number kind (map fst docs) = Ok i"
    and "kind = ''attestation'' \<or> kind = ''assertion''"
  shows "names_upto (Suc n) (map fst (write_file (fixture_name kind i) text docs))
    \<and> set docs \<subseteq> set (write_file (fixture_name kind i) text docs)"
proof -
  have i: "1 \<le> i" "i \<le> int n + 1" "fixture_name kind i \<notin> set (map fst docs)"
    using next_number_bound [OF assms(1) _ assms(3,4)] assms(2) by auto
  then have "write_file (fixture_name kind i) text docs = (fixture_name kind i, text) # docs"
    by (force simp: write_file_def filter_id_conv)
  moreover have "\<exists>k m. (k = ''attestation'' \<or> k = ''assertion'') \<and> 1 \<le> m \<and> m \<le> int (Suc n) \<and> name = fixture_name k m"
    if "name \<in> insert (fixture_name kind i) (set (map fst docs))" for name
    using that
  proof
    assume "name = fixture_name kind i"
    with i assms(4) show ?thesis by (intro exI [of _ kind] exI [of _ i]) simp
  next
    assume "name \<in> set (map fst docs)"
    with assms(1) obtain k m where "k = ''attestation'' \<or> k = ''assertion''" "1 \<le> m" "m \<le> int n"
      "name = fixture_name k m" unfolding names_upto_def by blast
    then show ?thesis by (intro exI [of _ k] exI [of _ m]) simp
  qed
  ultimately show ?thesis using assms(1) i(3) by (simp add: names_upto_def subset_insertI)
qed

definition documents_step :: "bool \<Rightarrow> directory \<Rightarrow> directory \<Rightarrow> bool" where
  "documents_step ok docs docs' \<longleftrightarrow> docs' = docs
     \<or> (\<exists>kind i text. (kind = ''attestation'' \<or> kind = ''assertion'')
          \<and> (ok \<longrightarrow> next_number kind (map fst docs) = Ok i) \<and> docs' = write_file (fixture_name kind i) text docs)"

text \<open>The event is not a write for which the listing fails.\<close>

fun event_listed :: "demo_event \<Rightarrow> bool" where
  "event_listed (AttestResumed i fa) \<longleftrightarrow> listed fa"
| "event_listed (AssertResumed i fa) \<longleftrightarrow> listed fa"
| "event_listed e \<longleftrightarrow> True"

lemma documents_step_refl [simp]: "documents_step ok docs docs"
  by (simp add: documents_step_def)

lemma returned_step:
  "documents_step (listed fa) (documents s) (documents (attest_returned I r fa s))"
  "documents_step (listed fb) (documents s) (documents (assert_returned I q fb s))"
  using attest_returned_documents [of I r fa s] assert_returned_documents [of I q fb s]
  unfolding documents_step_def by blast+

lemma step_documents:
  assumes "demo_event_step I cfg e s = Some s'"
  shows "documents_step (event_listed e) (documents s) (documents s')"
proof (cases e)
  case (AttestResumed i fa)
  with assms obtain r where "s' = attest_returned I r fa (s\<lparr>attest_tasks := (attest_tasks s)[i := AttestDone]\<rparr>)"
    by (auto split: option.splits attest_task.splits)
  then show ?thesis
    using AttestResumed returned_step(1) [of fa "s\<lparr>attest_tasks := (attest_tasks s)[i := AttestDone]\<rparr>"] by simp
next
  case (AssertResumed i fa)
  with assms obtain r where "s' = assert_returned I r fa (s\<lparr>assert_tasks := (assert_tasks s)[i := AssertDone]\<rparr>)"
    by (auto split: option.splits assert_task.splits)
  then show ?thesis
    using AssertResumed returned_step(2) [of fa "s\<lparr>assert_tasks := (assert_tasks s)[i := AssertDone]\<rparr>"] by simp
next
  case (AttestTapped random)
  with assms show ?thesis by (cases random) (auto simp: attest_tapped_def split: option.splits)
next
  case (KeyAttested i answer)
  with assms obtain chal a kid where "get (attest_tasks s) i = Some (AttestingKey chal a kid)"
    by (auto split: option.splits attest_task.splits)
  with assms KeyAttested show ?thesis
    by (cases "key_attested I chal a kid answer"; cases "fst (key_attested I chal a kid answer)";
        cases "snd (key_attested I chal a kid answer)") auto
next
  case (AssertTapped stamp nonce)
  with assms show ?thesis by (auto simp: assert_tapped_def)
next
  case KeyForgotten
  with assms show ?thesis by (auto simp: clearActiveKey_def)
next
  case (KeyGenerated i answer)
  with assms obtain ts where "s' = s\<lparr>attest_tasks := ts\<rparr>"
    by (auto split: option.splits attest_task.splits)
  then show ?thesis by simp
next
  case (AssertRequested i)
  with assms obtain ts where "s' = s\<lparr>assert_tasks := ts\<rparr>"
    by (auto split: option.splits assert_task.splits)
  then show ?thesis by simp
next
  case (AssertionMade i answer)
  with assms obtain ts where "s' = s\<lparr>assert_tasks := ts\<rparr>"
    by (auto split: option.splits assert_task.splits)
  then show ?thesis by simp
qed

lemma run_names:
  "demo_run I cfg H es s \<Longrightarrow> length es < 2 ^ 31 - 1 \<Longrightarrow> list_all event_listed es \<Longrightarrow> names_upto (length es) (map fst (documents s))"
proof (induction rule: demo_run.induct)
  case demo_run_start
  then show ?case by (simp add: names_upto_def demo_start_def)
next
  case (demo_run_step es s e s')
  then have inv: "names_upto (length es) (map fst (documents s))" by simp
  have "documents s' = documents s \<Longrightarrow> ?case"
    using inv by (fastforce simp: names_upto_def)
  moreover have "?case" if "kind = ''attestation'' \<or> kind = ''assertion''"
    "next_number kind (map fst (documents s)) = Ok i"
    "documents s' = write_file (fixture_name kind i) content (documents s)" for kind i content
    using write_fresh [OF inv _ that(2,1), of content] that(3) demo_run_step.prems by simp
  ultimately show ?case
    using step_documents [OF demo_run_step.hyps(4)] demo_run_step.prems unfolding documents_step_def by auto
qed

end
