(* ===== verification/Client_Phone.thy ===== *)
theory Client_Phone
  imports Client_Demo
begin

text \<open>
  The demo on an honest phone: a platform service built from the encoders of \<open>Apple_Device\<close> and
  the CBOR writer of \<open>Cbor_Encoding\<close>, which provides the interface \<open>app_attest_service\<close>. The
  properties join the client with the verifiers: the client and the verifier find the same key,
  and whatever the demo writes to a file verifies.
\<close>

section \<open>The phone\<close>

text \<open>
  A key id names the coordinates of a key in the Secure Enclave; the signer is the private key.
  \<open>phone_chain\<close> is the certificate list that Apple issues for a nonce.
\<close>

record phone =
  phone_app :: string
  phone_point :: "string \<Rightarrow> (bytes \<times> bytes) option"
  phone_signer :: "string \<Rightarrow> bytes \<Rightarrow> bytes"
  phone_credential :: "string \<Rightarrow> bytes"
  phone_chain :: "bytes \<Rightarrow> bytes list"
  phone_receipt :: "bytes option"

definition phone_key :: "phone \<Rightarrow> string \<Rightarrow> bytes option" where
  "phone_key P kid = map_option (\<lambda>(x, y). 0x04 # x @ y) (phone_point P kid)"

definition cose_of_point :: "bytes \<Rightarrow> bytes \<Rightarrow> bytes" where
  "cose_of_point x y = cose_key cbor_write (Some 2) (Some (- 7)) (Some 1) (Some x) (Some y)"

definition phone_auth_data :: "crates \<Rightarrow> phone \<Rightarrow> string \<Rightarrow> bytes \<Rightarrow> bytes \<Rightarrow> bytes" where
  "phone_auth_data X P kid x y =
     authdata_build (sha256 X (as_bytes (phone_app P))) 0 AAGUID_DEVELOPMENT (phone_credential P kid)
       (cose_of_point x y)"

definition phone_statement :: "crates \<Rightarrow> phone \<Rightarrow> bytes \<Rightarrow> bytes \<Rightarrow> cbor_value" where
  "phone_statement X P ad h = att_stmt (Some (phone_chain P (sha256 X (ad @ h)))) (phone_receipt P)"

definition phone_object_value :: "crates \<Rightarrow> phone \<Rightarrow> string \<Rightarrow> bytes \<Rightarrow> bytes \<Rightarrow> bytes \<Rightarrow> cbor_value" where
  "phone_object_value X P kid x y h =
     (let ad = phone_auth_data X P kid x y in
      object_value (Some ''apple-appattest'') (Some ad) (Some (phone_statement X P ad h)))"

definition phone_attests :: "crates \<Rightarrow> phone \<Rightarrow> string \<Rightarrow> bytes \<Rightarrow> bytes \<Rightarrow> bool" where
  "phone_attests X P kid h obj \<longleftrightarrow>
     (case phone_point P kid of
        None \<Rightarrow> False
      | Some (x, y) \<Rightarrow> obj = cbor_write (phone_object_value X P kid x y h))"

definition phone_assertion_value :: "crates \<Rightarrow> phone \<Rightarrow> string \<Rightarrow> u32 \<Rightarrow> bytes \<Rightarrow> cbor_value" where
  "phone_assertion_value X P kid count h =
     (let ad = auth_data_for X (phone_app P) count in
      assertion_value (phone_signer P kid (sha256 X (ad @ h))) ad)"

definition phone_asserts :: "crates \<Rightarrow> phone \<Rightarrow> string \<Rightarrow> bytes \<Rightarrow> bytes \<Rightarrow> bool" where
  "phone_asserts X P kid h obj \<longleftrightarrow>
     phone_point P kid \<noteq> None \<and> (\<exists>count. obj = cbor_write (phone_assertion_value X P kid count h))"

text \<open>
  What makes the phone honest, with the crates that will read its objects: its keys are points
  of 32-byte coordinates whose signatures verify, a key id is the base64 form of the hash of its
  key, Apple's chain for a nonce is valid at the time and carries the nonce, and the CBOR reader
  returns what was written.
\<close>

definition reads_back :: "crates \<Rightarrow> cbor_value \<Rightarrow> bool" where
  "reads_back X v \<longleftrightarrow> cbor_plain v \<and> length (cbor_write v) < 2 ^ 63 \<and> cbor_from_reader X (cbor_write v) = Inr v"

definition signs_for :: "crates \<Rightarrow> (bytes \<Rightarrow> bytes) \<Rightarrow> bytes \<Rightarrow> bool" where
  "signs_for X signer pk \<longleftrightarrow>
     (\<exists>key. p256_key_from_sec1 X pk = Inr key
        \<and> (\<forall>d. \<exists>sg. p256_signature_from_der X (signer d) = Inr sg \<and> p256_verify_prehash X key d sg))"

definition phone_key_ok :: "crates \<Rightarrow> ios \<Rightarrow> phone \<Rightarrow> string \<Rightarrow> bytes \<Rightarrow> bytes \<Rightarrow> bool" where
  "phone_key_ok X I P kid x y \<longleftrightarrow>
     length x = 32 \<and> length y = 32 \<and> length (phone_credential P kid) < 2 ^ 16
     \<and> base64_decoded I kid = Some (sha256 X (0x04 # x @ y))
     \<and> signs_for X (phone_signer P kid) (0x04 # x @ y)
     \<and> reads_back X (CMap (cose_entries (Some 2) (Some (- 7)) (Some 1) (Some x) (Some y)))
     \<and> (\<forall>h. reads_back X (phone_object_value X P kid x y h))
     \<and> (\<forall>h count. reads_back X (phone_assertion_value X P kid count h))"

text \<open>Apple's chain for every nonce that an attestation of the key can have.\<close>

definition phone_chain_ok :: "crates \<Rightarrow> bytes \<Rightarrow> u64 \<Rightarrow> phone \<Rightarrow> string \<Rightarrow> bytes \<Rightarrow> bytes \<Rightarrow> bool" where
  "phone_chain_ok X root_der t P kid x y \<longleftrightarrow>
     (\<forall>h. let n = sha256 X (phone_auth_data X P kid x y @ h) in
        \<exists>certs. apple_chain_ok X root_der (phone_chain P n) t certs \<and> nonce_of X (hd certs) n)"

definition phone_ok :: "crates \<Rightarrow> bytes \<Rightarrow> u64 \<Rightarrow> ios \<Rightarrow> phone \<Rightarrow> bool" where
  "phone_ok X root_der t I P \<longleftrightarrow> sha256_ok X
     \<and> (\<forall>kid x y. phone_point P kid = Some (x, y) \<longrightarrow>
          phone_key_ok X I P kid x y \<and> phone_chain_ok X root_der t P kid x y)"

section \<open>What the client does with the phone's objects\<close>

lemma phone_key_okD:
  assumes "phone_key_ok X I P kid x y"
  shows "length x = 32" "length y = 32" "length (phone_credential P kid) < 2 ^ 16"
    "base64_decoded I kid = Some (sha256 X (0x04 # x @ y))" "signs_for X (phone_signer P kid) (0x04 # x @ y)"
    "reads_back X (CMap (cose_entries (Some 2) (Some (- 7)) (Some 1) (Some x) (Some y)))"
    "reads_back X (phone_object_value X P kid x y h)" "reads_back X (phone_assertion_value X P kid count h)"
  using assms unfolding phone_key_ok_def by blast+

lemma reads_backD:
  assumes "reads_back X v"
  shows "cbor_plain v" "length (cbor_write v) < 2 ^ 63" "cbor_from_reader X (cbor_write v) = Inr v"
  using assms unfolding reads_back_def by blast+

lemma phone_readable:
  assumes "sha256_ok X" "phone_key_ok X I P kid x y"
  shows "client_readable X (cbor_write (phone_object_value X P kid x y h))"
proof -
  let ?ad = "phone_auth_data X P kid x y" and ?cm = "cose_entries (Some 2) (Some (- 7)) (Some 1) (Some x) (Some y)"
  define m where "m = [(CText ''fmt'', CText ''apple-appattest''), (CText ''authData'', CBytes ?ad),
    (CText ''attStmt'', phone_statement X P ?ad h)]"
  have v: "phone_object_value X P kid x y h = CMap m"
    by (simp add: phone_object_value_def object_value_def m_def Let_def)
  note read = reads_backD [OF phone_key_okD(7) [OF assms(2), of h, unfolded v]]
  note cm = reads_backD [OF phone_key_okD(6) [OF assms(2)]]
  have cose: "cose_of_point x y = cbor_write (CMap ?cm)"
    by (simp only: cose_of_point_def cose_key_def)
  define au where "au = \<lparr>rp_id_hash = sha256 X (as_bytes (phone_app P)), flags = AT_FLAG, sign_count = 0,
      aaguid = AAGUID_DEVELOPMENT, credential_id = phone_credential P kid,
      credential_public_key = cbor_write (CMap ?cm)\<rparr>"
  have parse: "authdata_parse ?ad = Ok au"
    unfolding phone_auth_data_def cose au_def using assms(1) phone_key_okD(3) [OF assms(2)]
    by (intro authdata_parse_build) (simp_all add: sha256_ok_def AAGUID_DEVELOPMENT_def)
  have "list_all cose_member_readable ?cm"
    by (simp add: cose_entries_def as_i64_def i64_try_from_def)
  moreover have "object_readable m" "last_value (CText ''authData'') m = Some (CBytes ?ad)"
    by (simp_all add: m_def object_readable_def text_keys_def)
  moreover have "credential_public_key au = cbor_write (CMap ?cm) @ []"
    by (simp add: au_def del: cbor_write.simps)
  ultimately have "\<exists>cm cb tl. cbor_from_reader X (credential_public_key a) = Inr (CMap cm)
      \<and> credential_public_key a = cb @ tl \<and> length (credential_public_key a) < 2 ^ 63
      \<and> cbor_enc (CMap cm) cb \<and> list_all cose_member_readable cm"
    if "last_value (CText ''authData'') m = Some (CBytes ad)" "authdata_parse ad = Ok a" for ad a
    using that parse cm cbor_write_enc [OF cm(1)]
    by (metis append.right_neutral cbor_value.inject(2) option.inject result.inject(1))
  moreover have "cbor_write (CMap m) = cbor_write (CMap m) @ []" by simp
  ultimately show ?thesis
    unfolding client_readable_def v
    using read cbor_write_enc [OF read(1)] \<open>object_readable m\<close> by blast
qed

section \<open>The phone keeps the contract of the service\<close>

lemma phone_okD:
  assumes "phone_ok X root_der t I P"
  shows "sha256_ok X" "phone_point P kid = Some (x, y) \<Longrightarrow> phone_key_ok X I P kid x y"
    "phone_point P kid = Some (x, y) \<Longrightarrow> phone_chain_ok X root_der t P kid x y"
  using assms unfolding phone_ok_def by blast+

lemma phone_attestation_accepted:
  assumes ok: "phone_ok X root_der t I P" and point: "phone_point P kid = Some (x, y)"
    and obj: "obj = cbor_write (phone_object_value X P kid x y (sha256 X chal))"
  shows "verify_app_attest X root_der obj (key_id_bytes I kid) chal (phone_app P) is_production t =
      Ok \<lparr>source = APPLE_APP_ATTEST, attested_value = 0x04 # x @ y, challenge = chal,
          timestamp_ms = t, detail_hash = sha256 X obj\<rparr>"
    and "extractAttestedPublicKey obj = Ok (0x04 # x @ y)"
proof -
  note keys = phone_key_okD [OF phone_okD(2) [OF ok point]]
  define ad where "ad = phone_auth_data X P kid x y"
  have ad: "ad = authdata_build (sha256 X (as_bytes (phone_app P))) 0
      (if is_production then AAGUID_PRODUCTION else AAGUID_DEVELOPMENT) (phone_credential P kid) (cose_of_point x y)"
    by (simp add: ad_def phone_auth_data_def is_production_def)
  define x5c where "x5c = phone_chain P (sha256 X (ad @ sha256 X chal))"
  have v: "phone_object_value X P kid x y (sha256 X chal)
      = object_value (Some ''apple-appattest'') (Some ad) (Some (att_stmt (Some x5c) (phone_receipt P)))"
    by (simp add: phone_object_value_def phone_statement_def x5c_def ad_def Let_def)
  have cose: "cbor_from_reader X (cose_of_point x y)
      = Inr (CMap (cose_entries (Some 2) (Some (- 7)) (Some 1) (Some x) (Some y)))"
    using reads_backD(3) [OF keys(6)] by (simp only: cose_of_point_def cose_key_def)
  have read: "cbor_from_reader X obj
      = Inr (object_value (Some ''apple-appattest'') (Some ad) (Some (att_stmt (Some x5c) (phone_receipt P))))"
    unfolding obj v [symmetric] by (rule reads_backD(3) [OF keys(7)])
  have built: "obj = build_object cbor_write (Some ''apple-appattest'') (Some ad)
      (Some (att_stmt (Some x5c) (phone_receipt P)))"
    unfolding obj v build_object_def ..
  obtain certs where certs: "apple_chain_ok X root_der x5c t certs"
    "nonce_of X (hd certs) (sha256 X (ad @ sha256 X chal))"
    using phone_okD(3) [OF ok point] unfolding phone_chain_ok_def Let_def ad_def [symmetric] x5c_def by blast
  have "key_id_bytes I kid = sha256 X (0x04 # x @ y)"
    by (simp add: key_id_bytes_def keys(4))
  then show accepted: "verify_app_attest X root_der obj (key_id_bytes I kid) chal (phone_app P) is_production t =
      Ok \<lparr>source = APPLE_APP_ATTEST, attested_value = 0x04 # x @ y, challenge = chal,
          timestamp_ms = t, detail_hash = sha256 X obj\<rparr>"
    using honest_attestation_accepted [OF phone_okD(1) [OF ok] cose_of_point_def ad built cose read keys(1-3) certs]
    by simp
  from app_attest_OkD [OF accepted] obtain st a where "decode_attestation_object X obj = Ok st"
    "authdata_parse (st_auth_data st) = Ok a" "extract_p256_pk X (credential_public_key a) = Ok (0x04 # x @ y)"
    by auto
  from client_finds_key [OF this] phone_readable [OF phone_okD(1,2) [OF ok] , OF point]
  show "extractAttestedPublicKey obj = Ok (0x04 # x @ y)" unfolding obj by blast
qed

lemma phone_assertion_accepted:
  assumes ok: "phone_ok X root_der t I P" and point: "phone_point P kid = Some (x, y)"
    and obj: "obj = cbor_write (phone_assertion_value X P kid count (sha256 X client_data))"
  shows "verify_assertion X obj client_data (0x04 # x @ y) (phone_app P) t =
      Ok \<lparr>source = APPLE_APP_ATTEST_ASSERTION, attested_value = 0x04 # x @ y, challenge = client_data,
          timestamp_ms = t, detail_hash = sha256 X obj\<rparr>"
proof -
  note keys = phone_key_okD [OF phone_okD(2) [OF ok point]]
  define ad where "ad = auth_data_for X (phone_app P) count"
  define sg where "sg = sign X (phone_signer P kid) ad client_data"
  have v: "phone_assertion_value X P kid count (sha256 X client_data) = assertion_value sg ad"
    by (simp add: phone_assertion_value_def sg_def sign_def ad_def Let_def)
  have built: "obj = encode_assertion cbor_write sg ad"
    unfolding obj v encode_assertion_def ..
  have read: "cbor_from_reader X (encode_assertion cbor_write sg ad) = Inr (assertion_value sg ad)"
    unfolding built [symmetric] unfolding obj v [symmetric] by (rule reads_backD(3) [OF keys(8)])
  from keys(5) obtain key s where "p256_key_from_sec1 X (0x04 # x @ y) = Inr key"
    "p256_signature_from_der X sg = Inr s" "p256_verify_prehash X key (sha256 X (ad @ sha256 X client_data)) s"
    unfolding signs_for_def sg_def sign_def by blast
  from honest_assertion_accepted [OF phone_okD(1) [OF ok] ad_def sg_def read this] show ?thesis
    by (simp only: built)
qed

text \<open>What the captures are worth: the verifiers accept them.\<close>

definition attestation_fixture_ok :: "crates \<Rightarrow> bytes \<Rightarrow> u64 \<Rightarrow> attestation_capture \<Rightarrow> bool" where
  "attestation_fixture_ok X root_der t c \<longleftrightarrow>
     verify_app_attest X root_der (att_object c) (att_key_id_bytes c) (att_challenge c) (att_app_id c)
       (att_production c) t
     = Ok \<lparr>source = APPLE_APP_ATTEST, attested_value = att_public_key c, challenge = att_challenge c,
           timestamp_ms = t, detail_hash = sha256 X (att_object c)\<rparr>"

definition assertion_fixture_ok :: "crates \<Rightarrow> u64 \<Rightarrow> assertion_capture \<Rightarrow> bool" where
  "assertion_fixture_ok X t c \<longleftrightarrow>
     verify_assertion X (asr_object c) (asr_client_data c) (asr_public_key c) (asr_app_id c) t
     = Ok \<lparr>source = APPLE_APP_ATTEST_ASSERTION, attested_value = asr_public_key c,
           challenge = asr_client_data c, timestamp_ms = t, detail_hash = sha256 X (asr_object c)\<rparr>"

interpretation phone_service: app_attest_service I "sha256 X" "phone_app P" "phone_key P"
  "\<lambda>kid h obj. phone_ok X root_der t I P \<and> phone_attests X P kid h obj"
  "\<lambda>kid h obj. phone_ok X root_der t I P \<and> phone_asserts X P kid h obj"
  "attestation_fixture_ok X root_der t" "assertion_fixture_ok X t"
  for X root_der t I P
proof
  fix kid chal obj
  assume *: "phone_ok X root_der t I P \<and> phone_attests X P kid (sha256 X chal) obj"
  then obtain x y where "phone_point P kid = Some (x, y)"
    "obj = cbor_write (phone_object_value X P kid x y (sha256 X chal))"
    by (auto simp: phone_attests_def split: option.splits)
  with phone_attestation_accepted [of X root_der t I P kid x y obj chal] *
  show "\<exists>pk. phone_key P kid = Some pk \<and> extractAttestedPublicKey obj = Ok pk
      \<and> attestation_fixture_ok X root_der t \<lparr>att_key_id_bytes = key_id_bytes I kid, att_object = obj,
          att_public_key = pk, att_challenge = chal, att_app_id = phone_app P, att_production = is_production\<rparr>"
    by (simp add: phone_key_def attestation_fixture_ok_def)
next
  fix kid client_data obj pk
  assume *: "phone_ok X root_der t I P \<and> phone_asserts X P kid (sha256 X client_data) obj" "phone_key P kid = Some pk"
  then obtain x y count where "phone_point P kid = Some (x, y)" "pk = 0x04 # x @ y"
    "obj = cbor_write (phone_assertion_value X P kid count (sha256 X client_data))"
    by (auto simp: phone_asserts_def phone_key_def)
  with phone_assertion_accepted [of X root_der t I P kid x y obj count client_data] *
  show "assertion_fixture_ok X t \<lparr>asr_object = obj, asr_client_data = client_data, asr_public_key = pk,
      asr_app_id = phone_app P\<rparr>"
    by (simp add: assertion_fixture_ok_def)
qed

section \<open>A sample phone\<close>

definition sample_bundle :: string where
  "sample_bundle = ''demo''"

definition sample_x :: bytes where "sample_x = replicate 32 8"
definition sample_y :: bytes where "sample_y = replicate 32 9"

definition sample_app_hash :: bytes where
  "sample_app_hash = sample_hash (as_bytes (client_app_id sample_bundle))"

definition sample_phone :: phone where
  "sample_phone =
     \<lparr>phone_app = client_app_id sample_bundle,
      phone_point = (\<lambda>kid. if kid = ''k'' then Some (sample_x, sample_y) else None),
      phone_signer = (\<lambda>kid d. sample_pk @ d), phone_credential = (\<lambda>kid. [7]),
      phone_chain = (\<lambda>n. [[23], [21]]), phone_receipt = None\<rparr>"

definition sample_ios :: ios where
  "sample_ios =
     \<lparr>describe_cbor_error = (\<lambda>e. ''CBORError''),
      base64_decoded = (\<lambda>s. if s = ''k'' then Some (sample_hash sample_pk) else None)\<rparr>"

definition sample_cose_map :: cbor_map where
  "sample_cose_map = cose_entries (Some 2) (Some (- 7)) (Some 1) (Some sample_x) (Some sample_y)"

definition sample_phone_auth_data :: bytes where
  "sample_phone_auth_data =
     authdata_build sample_app_hash 0 AAGUID_DEVELOPMENT [7] (cbor_write (CMap sample_cose_map))"

definition sample_object_value :: cbor_value where
  "sample_object_value =
     object_value (Some ''apple-appattest'') (Some sample_phone_auth_data) (Some (att_stmt (Some [[23], [21]]) None))"

definition sample_assertion_sig :: bytes where
  "sample_assertion_sig = sample_pk @ sample_app_hash"

definition sample_assertion_prefix :: bytes where
  "sample_assertion_prefix =
     write_head 5 2 @ cbor_write (CText ''signature'') @ cbor_write (CBytes sample_assertion_sig)
     @ cbor_write (CText ''authenticatorData'') @ write_head 2 37"

text \<open>The three kinds of objects differ in the number of their members.\<close>

definition sample_phone_reader :: "bytes \<Rightarrow> string + cbor_value" where
  "sample_phone_reader bs =
     (if take 1 bs = [0xA5] then Inr (CMap sample_cose_map)
      else if take 1 bs = [0xA3] then Inr sample_object_value
      else if take 1 bs = [0xA2]
        then Inr (assertion_value sample_assertion_sig (drop (length sample_assertion_prefix) bs))
      else Inl ''unknown object'')"

definition phone_crates :: crates where
  "phone_crates = sample_crates
     \<lparr>cbor_from_reader := sample_phone_reader, nonce_extension_from_der := (\<lambda>b. Inr sample_app_hash)\<rparr>"

lemma phone_crates_simps [simp]:
  "sha256 phone_crates = sample_hash" "cbor_from_reader phone_crates = sample_phone_reader"
  "nonce_extension_from_der phone_crates b = Inr sample_app_hash"
  "p256_signature_from_der phone_crates = Inr"
  "p256_key_from_sec1 phone_crates k = (if k = [] then Inl ''empty key'' else Inr k)"
  "p256_verify_prehash phone_crates k m s = (s = k @ m)"
  by (simp_all add: phone_crates_def sample_crates_def)

lemma length_sample_hash [simp]: "length (sample_hash m) = 32"
  using sample_sha256(2) by (simp add: sha256_ok_def sample_sha256(1))

lemma length_app_hash [simp]: "length sample_app_hash = 32"
  by (simp add: sample_app_hash_def)

lemma sample_hash_append: "length r = 32 \<Longrightarrow> sample_hash (r @ m) = r"
  by (simp add: sample_hash_def)

lemma sample_cose_written: "cose_of_point sample_x sample_y = cbor_write (CMap sample_cose_map)"
  by (simp only: cose_of_point_def cose_key_def sample_cose_map_def)

lemma sample_phone_values:
  "phone_auth_data phone_crates sample_phone kid sample_x sample_y = sample_phone_auth_data"
  "phone_object_value phone_crates sample_phone kid sample_x sample_y h = sample_object_value"
  "sample_hash (sample_phone_auth_data @ h) = sample_app_hash"
proof -
  show ad: "phone_auth_data phone_crates sample_phone kid sample_x sample_y = sample_phone_auth_data"
    by (simp add: phone_auth_data_def sample_phone_auth_data_def sample_phone_def sample_app_hash_def
        sample_cose_written del: cbor_write.simps)
  show "phone_object_value phone_crates sample_phone kid sample_x sample_y h = sample_object_value"
    unfolding phone_object_value_def Let_def ad phone_statement_def
    by (simp add: sample_object_value_def sample_phone_def)
  show "sample_hash (sample_phone_auth_data @ h) = sample_app_hash"
    by (simp add: sample_phone_auth_data_def authdata_build_def sample_hash_append)
qed

lemma sample_phone_assertion:
  "cbor_write (phone_assertion_value phone_crates sample_phone kid count h)
     = sample_assertion_prefix @ auth_data_for phone_crates (client_app_id sample_bundle) count"
  "phone_assertion_value phone_crates sample_phone kid count h
     = assertion_value sample_assertion_sig (auth_data_for phone_crates (client_app_id sample_bundle) count)"
proof -
  let ?ad = "auth_data_for phone_crates (client_app_id sample_bundle) count"
  have ad: "?ad = sample_app_hash @ [0] @ be_bytes 4 (unat count)"
    by (simp add: auth_data_for_def sample_app_hash_def)
  show v: "phone_assertion_value phone_crates sample_phone kid count h = assertion_value sample_assertion_sig ?ad"
    by (simp add: phone_assertion_value_def sample_phone_def sample_assertion_sig_def ad sample_hash_append
        del: be_bytes.simps)
  have "length ?ad = 37" by (simp add: ad del: be_bytes.simps)
  then show "cbor_write (phone_assertion_value phone_crates sample_phone kid count h) = sample_assertion_prefix @ ?ad"
    unfolding v by (simp add: assertion_value_def sample_assertion_prefix_def numeral_2_eq_2)
qed

lemma sample_write_lengths:
  "length (cbor_write (CMap sample_cose_map)) < 100" "length sample_phone_auth_data < 200"
  "length (cbor_write sample_object_value) < 300" "length sample_assertion_prefix < 200"
  by (simp_all add: sample_cose_map_def cose_entries_def write_head_def sample_x_def sample_y_def
      sample_phone_auth_data_def authdata_build_def AAGUID_DEVELOPMENT_def sample_object_value_def
      object_value_def att_stmt_def sample_assertion_prefix_def sample_assertion_sig_def sample_pk_def
      del: be_bytes.simps)

lemma sample_reads_back:
  "reads_back phone_crates (CMap sample_cose_map)" "reads_back phone_crates sample_object_value"
  "reads_back phone_crates (phone_assertion_value phone_crates sample_phone kid count h)"
proof -
  have "cbor_plain (CMap sample_cose_map)"
    by (simp add: sample_cose_map_def cose_entries_def sample_x_def sample_y_def)
  moreover have "take 1 (cbor_write (CMap sample_cose_map)) = [0xA5]"
    by (simp add: sample_cose_map_def cose_entries_def write_head_def)
  ultimately show "reads_back phone_crates (CMap sample_cose_map)"
    using sample_write_lengths(1) by (simp add: reads_back_def sample_phone_reader_def del: cbor_write.simps)
  have "cbor_plain sample_object_value"
    using sample_write_lengths(2) by (simp add: sample_object_value_def object_value_def att_stmt_def)
  moreover have "take 1 (cbor_write sample_object_value) = [0xA3]"
    by (simp add: sample_object_value_def object_value_def write_head_def)
  ultimately show "reads_back phone_crates sample_object_value"
    using sample_write_lengths(3) by (simp add: reads_back_def sample_phone_reader_def)
  let ?ad = "auth_data_for phone_crates (client_app_id sample_bundle) count"
  have ad: "length ?ad = 37"
    by (simp add: auth_data_for_def del: be_bytes.simps)
  have "cbor_plain (assertion_value sample_assertion_sig ?ad)"
    using ad by (simp add: assertion_value_def sample_assertion_sig_def sample_pk_def)
  moreover have "take 1 (sample_assertion_prefix @ ?ad) = [0xA2]"
    by (simp add: sample_assertion_prefix_def write_head_def)
  ultimately show "reads_back phone_crates (phone_assertion_value phone_crates sample_phone kid count h)"
    unfolding reads_back_def sample_phone_assertion(1) unfolding sample_phone_assertion(2)
    using sample_write_lengths(4) ad by (simp add: sample_phone_reader_def)
qed

lemma sample_phone_chain:
  "apple_validate_x5c_chain phone_crates [20] [[23], [21]] 5000 = Ok sample_apple_leaf"
  by (simp add: apple_validate_x5c_chain_def parse_chain_with_def phone_crates_def sample_crates_def
      apple_check_validity_def check_validity_with_def sample_cert_defs system_time_from_secs_def
      apple_check_is_ca_def check_is_ca_with_def find_extension_def check_inner_chain_def index_def
      get_def apple_verify_signature_def oid_defs apple_verify_p256_def verify_with_defs
      verify_steps_def)

lemma sample_phone_nonce: "extract_nonce_extension phone_crates sample_apple_leaf = Ok sample_app_hash"
  by (simp add: extract_nonce_extension_def sample_cert_defs APPLE_NONCE_EXTENSION_def to_array_def)

lemma sample_phone_ok: "phone_ok phone_crates [20] 5000 sample_ios sample_phone"
proof -
  have pk: "0x04 # sample_x @ sample_y = sample_pk"
    by (simp add: sample_x_def sample_y_def sample_pk_def)
  have "signs_for phone_crates (phone_signer sample_phone kid) sample_pk" for kid
    unfolding signs_for_def by (intro exI [of _ sample_pk]) (simp add: sample_phone_def sample_pk_def)
  then have key: "phone_key_ok phone_crates sample_ios sample_phone ''k'' sample_x sample_y"
    unfolding phone_key_ok_def pk sample_phone_values sample_cose_map_def [symmetric]
    using sample_reads_back
    by (simp add: sample_x_def sample_y_def sample_phone_def sample_ios_def del: cbor_write.simps)
  obtain certs where certs: "apple_chain_ok phone_crates [20] [[23], [21]] 5000 certs"
    "hd certs = sample_apple_leaf"
    using sample_phone_chain by (auto simp: apple_validate_Ok_iff)
  have nonce: "nonce_of phone_crates (hd certs) sample_app_hash"
    using sample_phone_nonce by (simp add: certs(2) extract_nonce_Ok_iff)
  have "phone_chain_ok phone_crates [20] 5000 sample_phone ''k'' sample_x sample_y"
    unfolding phone_chain_ok_def sample_phone_values phone_crates_simps Let_def
    using certs(1) nonce by (auto simp: sample_phone_def)
  with key show ?thesis
    unfolding phone_ok_def by (auto simp: sample_phone_def sha256_ok_def)
qed

section \<open>A sample session\<close>

text \<open>One attestation and then one assertion, each with its fixture written.\<close>

definition sample_config :: app_config where
  "sample_config = \<lparr>bundle_identifier = Some sample_bundle, app_attest_supported = True\<rparr>"

abbreviation sample_answers :: "demo \<Rightarrow> demo_event \<Rightarrow> bool" where
  "sample_answers \<equiv>
     service_answers sample_hash (phone_attests phone_crates sample_phone) (phone_asserts phone_crates sample_phone)"

definition sample_attestation :: attestation_capture where
  "sample_attestation =
     \<lparr>att_key_id_bytes = sample_hash sample_pk, att_object = cbor_write sample_object_value,
      att_public_key = sample_pk, att_challenge = [1, 2, 3], att_app_id = client_app_id sample_bundle,
      att_production = False\<rparr>"

definition sample_client_data :: bytes where
  "sample_client_data = demo_client_data ''now'' [4, 5]"

definition sample_assertion :: assertion_capture where
  "sample_assertion =
     \<lparr>asr_object = cbor_write (phone_assertion_value phone_crates sample_phone ''k'' 1 (sample_hash sample_client_data)),
      asr_client_data = sample_client_data, asr_public_key = sample_pk, asr_app_id = client_app_id sample_bundle\<rparr>"

definition sample_session :: "demo_event list" where
  "sample_session = rev
     [AttestTapped (Inr [1, 2, 3]), KeyGenerated 0 (Some ''k'', None),
      KeyAttested 0 (Some (cbor_write sample_object_value), None), AttestResumed 0 (Directory True None),
      AssertTapped ''now'' [4, 5], AssertRequested 0,
      AssertionMade 0 (Some (asr_object sample_assertion), None), AssertResumed 0 (Directory True None)]"

definition sample_documents :: directory where
  "sample_documents =
     [(fixture_name ''assertion'' 1, assertion_fixture_json sample_assertion),
      (fixture_name ''attestation'' 1, attestation_fixture_json sample_attestation)]"

lemma sample_point: "phone_point sample_phone ''k'' = Some (sample_x, sample_y)"
  by (simp add: sample_phone_def)

lemma sample_point_pk: "0x04 # sample_x @ sample_y = sample_pk"
  by (simp add: sample_x_def sample_y_def sample_pk_def)

lemma sample_client_key: "extractAttestedPublicKey (cbor_write sample_object_value) = Ok sample_pk"
  using phone_attestation_accepted(2) [OF sample_phone_ok sample_point refl, of "[]"]
  unfolding sample_phone_values sample_point_pk .

lemma sample_key_attested:
  "key_attested sample_ios [1, 2, 3] (client_app_id sample_bundle) ''k'' (Some (cbor_write sample_object_value), None)
    = (Some \<lparr>act_key_id = ''k'', act_attested_key_hex = data_hex sample_pk, act_app_id = client_app_id sample_bundle\<rparr>,
       Ok sample_attestation)"
  by (simp add: key_attested_def sample_client_key sample_attestation_def key_id_bytes_def sample_ios_def
      is_production_def)

definition session_state :: "nat \<Rightarrow> demo" where
  "session_state n =
    (let stored = \<lparr>act_key_id = ''k'', act_attested_key_hex = data_hex sample_pk,
                   act_app_id = client_app_id sample_bundle\<rparr>;
         s1 = demo_start\<lparr>is_attesting := True, attest_tasks := [GeneratingKey [1, 2, 3] (client_app_id sample_bundle)]\<rparr>;
         s2 = s1\<lparr>attest_tasks := [AttestingKey [1, 2, 3] (client_app_id sample_bundle) ''k'']\<rparr>;
         s3 = s2\<lparr>defaults := Some stored, attest_tasks := [AttestReturned (Ok sample_attestation)]\<rparr>;
         s4 = s3\<lparr>attest_tasks := [AttestDone], last_attestation := Some sample_attestation, is_attesting := False,
                 documents := [(fixture_name ''attestation'' 1, attestation_fixture_json sample_attestation)],
                 saved_attestation_file := Some (fixture_name ''attestation'' 1)\<rparr>;
         s5 = s4\<lparr>is_asserting := True, assert_tasks := [AssertCalled sample_client_data]\<rparr>;
         s6 = s5\<lparr>assert_tasks := [GeneratingAssertion sample_client_data ''k'' sample_pk (client_app_id sample_bundle)]\<rparr>;
         s7 = s6\<lparr>assert_tasks := [AssertReturned (Ok sample_assertion)]\<rparr>;
         s8 = s7\<lparr>assert_tasks := [AssertDone], last_assertion := Some sample_assertion, is_asserting := False,
                 documents := sample_documents, saved_assertion_file := Some (fixture_name ''assertion'' 1)\<rparr>
     in [demo_start, s1, s2, s3, s4, s5, s6, s7, s8] ! n)"

lemmas session_defs = session_state_def Let_def demo_start_def

lemma fixture_names_differ: "fixture_name ''attestation'' i \<noteq> fixture_name ''assertion'' j"
  by (simp add: fixture_name_def)

lemma session_attest:
  "demo_event_step sample_ios sample_config (AttestTapped (Inr [1, 2, 3])) (session_state 0) = Some (session_state 1)"
  "demo_event_step sample_ios sample_config (KeyGenerated 0 (Some ''k'', None)) (session_state 1) = Some (session_state 2)"
  "demo_event_step sample_ios sample_config (KeyAttested 0 (Some (cbor_write sample_object_value), None))
     (session_state 2) = Some (session_state 3)"
  "demo_event_step sample_ios sample_config (AttestResumed 0 (Directory True None)) (session_state 3) = Some (session_state 4)"
  by (simp_all add: session_defs attest_tapped_def attest_called_def sample_config_def get_def key_generated_def
      sample_key_attested attest_returned_def next_number_def write_file_def map_filter_def)

lemma session_assert:
  "demo_event_step sample_ios sample_config (AssertTapped ''now'' [4, 5]) (session_state 4) = Some (session_state 5)"
  "demo_event_step sample_ios sample_config (AssertRequested 0) (session_state 5) = Some (session_state 6)"
  "demo_event_step sample_ios sample_config (AssertionMade 0 (Some (asr_object sample_assertion), None))
     (session_state 6) = Some (session_state 7)"
  "demo_event_step sample_ios sample_config (AssertResumed 0 (Directory True None)) (session_state 7) = Some (session_state 8)"
proof -
  show "demo_event_step sample_ios sample_config (AssertTapped ''now'' [4, 5]) (session_state 4) = Some (session_state 5)"
    "demo_event_step sample_ios sample_config (AssertRequested 0) (session_state 5) = Some (session_state 6)"
    by (simp_all add: session_defs assert_tapped_def sample_client_data_def get_def assert_called_def
        sample_config_def activeKey_def)
  show "demo_event_step sample_ios sample_config (AssertionMade 0 (Some (asr_object sample_assertion), None))
     (session_state 6) = Some (session_state 7)"
    by (simp add: session_defs get_def assertion_made_def sample_assertion_def)
  show "demo_event_step sample_ios sample_config (AssertResumed 0 (Directory True None)) (session_state 7) = Some (session_state 8)"
    by (simp add: session_defs get_def assert_returned_def next_number_def write_file_def
        map_filter_def fixture_number_kinds sample_documents_def fixture_names_differ)
qed

lemma session_answers:
  "sample_answers (session_state 2) (KeyAttested 0 (Some (cbor_write sample_object_value), None))"
  "sample_answers (session_state 6) (AssertionMade 0 (Some (asr_object sample_assertion), None))"
proof -
  have "phone_attests phone_crates sample_phone ''k'' (sample_hash [1, 2, 3]) (cbor_write sample_object_value)"
    by (simp add: phone_attests_def sample_point sample_phone_values(2))
  then show "sample_answers (session_state 2) (KeyAttested 0 (Some (cbor_write sample_object_value), None))"
    by (simp add: session_defs get_def)
  have "phone_asserts phone_crates sample_phone ''k'' (sample_hash sample_client_data) (asr_object sample_assertion)"
    by (auto simp: phone_asserts_def sample_point sample_assertion_def)
  then show "sample_answers (session_state 6) (AssertionMade 0 (Some (asr_object sample_assertion), None))"
    by (simp add: session_defs get_def)
qed

lemma session_alive: "n < 8 \<Longrightarrow> \<not> crashed (session_state n)"
  by (auto simp: session_defs less_Suc_eq numeral_eq_Suc)

lemma sample_run_almost: "demo_run sample_ios sample_config sample_answers (drop 1 sample_session) (session_state 7)"
proof -
  have "demo_run sample_ios sample_config sample_answers [] (session_state 0)"
    using demo_run_start by (simp add: session_state_def Let_def)
  from demo_run_step [OF this _ _ session_attest(1)] have "demo_run sample_ios sample_config sample_answers
      [AttestTapped (Inr [1, 2, 3])] (session_state 1)" by (simp add: session_alive)
  from demo_run_step [OF this _ _ session_attest(2)]
  have "demo_run sample_ios sample_config sample_answers (drop 6 sample_session) (session_state 2)"
    by (simp add: session_alive sample_session_def)
  from demo_run_step [OF this _ session_answers(1) session_attest(3)]
  have "demo_run sample_ios sample_config sample_answers (drop 5 sample_session) (session_state 3)"
    by (simp add: session_alive sample_session_def)
  from demo_run_step [OF this _ _ session_attest(4)]
  have "demo_run sample_ios sample_config sample_answers (drop 4 sample_session) (session_state 4)"
    by (simp add: session_alive sample_session_def)
  from demo_run_step [OF this _ _ session_assert(1)]
  have "demo_run sample_ios sample_config sample_answers (drop 3 sample_session) (session_state 5)"
    by (simp add: session_alive sample_session_def)
  from demo_run_step [OF this _ _ session_assert(2)]
  have "demo_run sample_ios sample_config sample_answers (drop 2 sample_session) (session_state 6)"
    by (simp add: session_alive sample_session_def)
  from demo_run_step [OF this _ session_answers(2) session_assert(3)]
  show ?thesis by (simp add: session_alive sample_session_def)
qed

lemma sample_run: "demo_run sample_ios sample_config sample_answers sample_session (session_state 8)"
  using demo_run_step [OF sample_run_almost _ _ session_assert(4)]
  by (simp add: session_alive sample_session_def)

section \<open>Properties\<close>

text \<open>
  C22. The client and the verifier find the same key. When the verifier accepts an attestation
  object whose CBOR is in any definite-length encoding, with members of the types the client
  reads, the client's own reader takes exactly the attested key out of the object: it neither
  fails nor traps, and the key stored for later assertions is the one the chain attests.
\<close>

theorem client_key_agrees:
  assumes "verify_app_attest X root_der obj key_id chal app_id production t = Ok out"
    and "client_readable X obj"
  shows "extractAttestedPublicKey obj = Ok (attested_value out)"
proof -
  from app_attest_OkD [OF assms(1)] obtain st a where "decode_attestation_object X obj = Ok st"
    "authdata_parse (st_auth_data st) = Ok a" "extract_p256_pk X (credential_public_key a) = Ok (attested_value out)"
    by blast
  from client_finds_key [OF this assms(2)] show ?thesis .
qed

theorem client_key_agrees_witness:
  "extractAttestedPublicKey (cbor_write sample_object_value) = Ok sample_pk"
proof -
  have "client_readable phone_crates (cbor_write sample_object_value)"
    using phone_readable [OF phone_okD(1,2) [OF sample_phone_ok] , OF sample_point]
    unfolding sample_phone_values .
  from client_key_agrees [OF phone_attestation_accepted(1) [OF sample_phone_ok sample_point refl] ,
      unfolded sample_phone_values, OF this]
  show ?thesis by (simp add: sample_point_pk)
qed

text \<open>
  C21. Every fixture verifies. On an honest phone whose app id is the demo's, in every state the
  demo can reach, in whatever order its tasks wait, return, fail to write or are interrupted by
  forgetting the key, each file it has written is the JSON of an attestation that
  \<open>verify_app_attest\<close> accepts with the fixture's own fields and under its own public key, or of
  an assertion that \<open>verify_assertion\<close> accepts.
\<close>

theorem demo_fixtures_verify:
  assumes "phone_ok X root_der t I P"
    and "demo_run I cfg (service_answers (sha256 X) (phone_attests X P) (phone_asserts X P)) es s"
    and "bundle_identifier cfg = Some bid" "phone_app P = client_app_id bid"
    and "(name, content) \<in> set (documents s)"
  shows "(\<exists>c. content = attestation_fixture_json c
      \<and> verify_app_attest X root_der (att_object c) (att_key_id_bytes c) (att_challenge c) (att_app_id c)
          (att_production c) t
        = Ok \<lparr>source = APPLE_APP_ATTEST, attested_value = att_public_key c, challenge = att_challenge c,
              timestamp_ms = t, detail_hash = sha256 X (att_object c)\<rparr>)
    \<or> (\<exists>c. content = assertion_fixture_json c
      \<and> verify_assertion X (asr_object c) (asr_client_data c) (asr_public_key c) (asr_app_id c) t
        = Ok \<lparr>source = APPLE_APP_ATTEST_ASSERTION, attested_value = asr_public_key c,
              challenge = asr_client_data c, timestamp_ms = t, detail_hash = sha256 X (asr_object c)\<rparr>)"
proof -
  have "demo_run I cfg (service_answers (sha256 X)
      (\<lambda>kid h obj. phone_ok X root_der t I P \<and> phone_attests X P kid h obj)
      (\<lambda>kid h obj. phone_ok X root_der t I P \<and> phone_asserts X P kid h obj)) es s"
    using assms(2) by (simp add: assms(1))
  from phone_service.documents_verify [OF this assms(3) assms(4) [symmetric] assms(5)]
  show ?thesis unfolding attestation_fixture_ok_def assertion_fixture_ok_def by blast
qed

theorem demo_fixtures_verify_witness:
  "(\<exists>c. assertion_fixture_json sample_assertion = attestation_fixture_json c
      \<and> attestation_fixture_ok phone_crates [20] 5000 c)
   \<or> (\<exists>c. assertion_fixture_json sample_assertion = assertion_fixture_json c
      \<and> assertion_fixture_ok phone_crates 5000 c)"
proof -
  have "demo_run sample_ios sample_config (service_answers (sha256 phone_crates)
      (phone_attests phone_crates sample_phone) (phone_asserts phone_crates sample_phone))
      sample_session (session_state 8)"
    using sample_run by simp
  from demo_fixtures_verify [OF sample_phone_ok this, of sample_bundle "fixture_name ''assertion'' 1"
      "assertion_fixture_json sample_assertion"]
  show ?thesis
    unfolding attestation_fixture_ok_def assertion_fixture_ok_def
    by (simp add: sample_config_def sample_phone_def session_defs sample_documents_def)
qed

text \<open>
  C33. No fixture is lost. Whatever the platform answers, a step of the demo never overwrites or
  removes a file: every file there was is still there with its content, and no two have the same
  name, as long as the directory can be listed (a failed listing counts as an empty directory,
  \<open>unlisted_fixture_lost\<close>) and fewer than 2^31 - 1 events have happened, so that the numbers fit
  the format.
\<close>

theorem fixtures_never_lost:
  assumes "demo_run I cfg H es s" "length es < 2 ^ 31 - 1" "demo_event_step I cfg e s = Some s'"
    and "list_all event_listed (e # es)"
  shows "set (documents s) \<subseteq> set (documents s') \<and> distinct (map fst (documents s'))"
proof -
  have inv: "names_upto (length es) (map fst (documents s))"
    using run_names [OF assms(1,2)] assms(4) by simp
  from step_documents [OF assms(3)] assms(4) consider "documents s' = documents s"
    | kind i content where "kind = ''attestation'' \<or> kind = ''assertion''"
      "next_number kind (map fst (documents s)) = Ok i"
      "documents s' = write_file (fixture_name kind i) content (documents s)"
    unfolding documents_step_def by auto
  then show ?thesis
  proof cases
    case 1
    with inv show ?thesis by (simp add: names_upto_def)
  next
    case 2
    with write_fresh [OF inv _ 2(2,1), of content] assms(2) show ?thesis by (simp add: names_upto_def)
  qed
qed

theorem fixtures_never_lost_witness:
  "set (documents (session_state 7)) \<subseteq> set (documents (session_state 8))
   \<and> distinct (map fst (documents (session_state 8)))"
  using fixtures_never_lost [OF sample_run_almost _ session_assert(4)] by (simp add: sample_session_def)

end
