(* ===== verification/Outcome_Bcs.thy ===== *)
theory Outcome_Bcs
  imports Attestation_Core Bcs Android_StatusList
begin

text \<open>
  The serialization of an outcome, \<open>Outcome::to_bcs\<close> and \<open>Outcome::from_bcs\<close>
  (\<open>rust/attestation-core/src/lib.rs\<close>), and the crate's own tests of it. The derived
  \<open>Serialize\<close> and \<open>Deserialize\<close> visit the fields in the order of the struct; the \<open>bcs\<close>
  crate turns such a sequence of fields into bytes and back. The crate is an argument (\<open>codec\<close>),
  and \<open>codec_ok\<close> is what the BCS specification says of it. The theorems show that the bytes and
  the outcomes that can be encoded correspond one to one, so a truncated, extended or otherwise
  altered encoding is refused or is the encoding of another outcome.
\<close>

section \<open>The fields of the format\<close>

text \<open>
  The three types of fields an outcome has. A length is at most \<open>2 ^ 31 - 1\<close> and written in its
  shortest ULEB128 form; a string is UTF-8; an integer is little-endian.
\<close>

datatype bcs_field = FString string | FBytes bytes | FU64 u64

datatype bcs_kind = KString | KBytes | KU64

fun kind_of :: "bcs_field \<Rightarrow> bcs_kind" where
  "kind_of (FString s) = KString"
| "kind_of (FBytes b) = KBytes"
| "kind_of (FU64 w) = KU64"

definition utf8_valid :: "bytes \<Rightarrow> bool" where
  "utf8_valid bs \<longleftrightarrow> utf8_error 0 bs = None"

fun field_ok :: "bcs_field \<Rightarrow> bool" where
  "field_ok (FString s) \<longleftrightarrow> length s < 2 ^ 31 \<and> utf8_valid (as_bytes s)"
| "field_ok (FBytes b) \<longleftrightarrow> length b < 2 ^ 31"
| "field_ok (FU64 w) \<longleftrightarrow> True"

definition le_bytes :: "nat \<Rightarrow> nat \<Rightarrow> bytes" where
  "le_bytes k n = rev (be_bytes k n)"

fun field_encode :: "bcs_field \<Rightarrow> bytes" where
  "field_encode (FString s) = bcs_vec (as_bytes s)"
| "field_encode (FBytes b) = bcs_vec b"
| "field_encode (FU64 w) = le_bytes 8 (unat w)"

text \<open>A byte vector whose length has its shortest form and is in range.\<close>

definition take_vec :: "bytes \<Rightarrow> (bytes \<times> bytes) option" where
  "take_vec bs =
     (case read_bcs_vec bs of
        Some (c, rest) \<Rightarrow>
          if length c < 2 ^ 31 \<and> take (length (uleb128 (length c))) bs = uleb128 (length c)
          then Some (c, rest) else None
      | None \<Rightarrow> None)"

fun field_decode :: "bcs_kind \<Rightarrow> bytes \<Rightarrow> (bcs_field \<times> bytes) option" where
  "field_decode KString bs =
     (case take_vec bs of
        Some (c, rest) \<Rightarrow> if utf8_valid c then Some (FString (str_of_bytes c), rest) else None
      | None \<Rightarrow> None)"
| "field_decode KBytes bs =
     (case take_vec bs of Some (c, rest) \<Rightarrow> Some (FBytes c, rest) | None \<Rightarrow> None)"
| "field_decode KU64 bs =
     (if length bs < 8 then None
      else Some (FU64 (from_be_bytes (rev (take 8 bs))), drop 8 bs))"

fun fields_decode :: "bcs_kind list \<Rightarrow> bytes \<Rightarrow> (bcs_field list \<times> bytes) option" where
  "fields_decode [] bs = Some ([], bs)"
| "fields_decode (k # ks) bs =
     (case field_decode k bs of
        None \<Rightarrow> None
      | Some (f, rest) \<Rightarrow>
          (case fields_decode ks rest of None \<Rightarrow> None | Some (fs, rest) \<Rightarrow> Some (f # fs, rest)))"

section \<open>The crate and the outcome\<close>

record codec =
  codec_to_bytes :: "bcs_field list \<Rightarrow> string + bytes"
  codec_from_bytes :: "bcs_kind list \<Rightarrow> bytes \<Rightarrow> string + bcs_field list"

text \<open>
  The specification of BCS: what can be encoded is, as the concatenation of its fields, and the
  decoder accepts exactly what it can read with nothing left over.
\<close>

definition codec_ok :: "codec \<Rightarrow> bool" where
  "codec_ok C \<longleftrightarrow>
     (\<forall>fs. if list_all field_ok fs
            then codec_to_bytes C fs = Inr (concat (map field_encode fs))
            else (\<exists>e. codec_to_bytes C fs = Inl e))
     \<and> (\<forall>ks bs. (case fields_decode ks bs of
                   Some (fs, []) \<Rightarrow> codec_from_bytes C ks bs = Inr fs
                 | _ \<Rightarrow> (\<exists>e. codec_from_bytes C ks bs = Inl e)))"

text \<open>The derived \<open>Serialize\<close> and \<open>Deserialize\<close> of the struct.\<close>

definition outcome_fields :: "outcome \<Rightarrow> bcs_field list" where
  "outcome_fields out =
     [FString (source out), FBytes (attested_value out), FBytes (challenge out),
      FU64 (timestamp_ms out), FBytes (detail_hash out)]"

definition outcome_kinds :: "bcs_kind list" where
  "outcome_kinds = [KString, KBytes, KBytes, KU64, KBytes]"

fun outcome_of_fields :: "bcs_field list \<Rightarrow> outcome option" where
  "outcome_of_fields [FString s, FBytes a, FBytes c, FU64 t, FBytes d] =
     Some \<lparr>source = s, attested_value = a, challenge = c, timestamp_ms = t, detail_hash = d\<rparr>"
| "outcome_of_fields _ = None"

definition to_bcs :: "codec \<Rightarrow> outcome \<Rightarrow> string + bytes" where
  "to_bcs C out = codec_to_bytes C (outcome_fields out)"

definition from_bcs :: "codec \<Rightarrow> bytes \<Rightarrow> string + outcome" where
  "from_bcs C bs =
     (case codec_from_bytes C outcome_kinds bs of
        Inl e \<Rightarrow> Inl e
      | Inr fs \<Rightarrow> (case outcome_of_fields fs of Some out \<Rightarrow> Inr out | None \<Rightarrow> Inl ''invalid struct''))"

section \<open>Reading back what was written\<close>

lemma length_le_bytes [simp]: "length (le_bytes k n) = k"
  by (simp add: le_bytes_def)

lemma take_vec_bcs_vec: "length c < 2 ^ 31 \<Longrightarrow> take_vec (bcs_vec c @ rest) = Some (c, rest)"
proof -
  have "read_bcs_vec (bcs_vec c @ rest) = Some (c, rest)" by (rule bcs_fields.dec_enc) simp
  then show "length c < 2 ^ 31 \<Longrightarrow> take_vec (bcs_vec c @ rest) = Some (c, rest)"
    by (simp add: take_vec_def bcs_vec_def)
qed

lemma read_bcs_vec_SomeD:
  assumes "read_bcs_vec bs = Some (c, rest)" "take (length (uleb128 (length c))) bs = uleb128 (length c)"
  shows "bs = bcs_vec c @ rest"
proof -
  let ?u = "uleb128 (length c)"
  have bs: "bs = ?u @ drop (length ?u) bs"
    using assms(2) by (metis append_take_drop_id)
  then have "read_uleb128 bs = Some (length c, drop (length ?u) bs)"
    by (metis read_uleb128_uleb128)
  with assms(1) have "c = take (length c) (drop (length ?u) bs)" "rest = drop (length c) (drop (length ?u) bs)"
    by (auto simp: read_bcs_vec_def split: if_splits)
  then have "drop (length ?u) bs = c @ rest" by (metis append_take_drop_id)
  with bs show ?thesis by (simp add: bcs_vec_def)
qed

lemma take_vec_Some_iff: "take_vec bs = Some (c, rest) \<longleftrightarrow> length c < 2 ^ 31 \<and> bs = bcs_vec c @ rest"
  using take_vec_bcs_vec [of c rest]
  by (auto simp: take_vec_def dest: read_bcs_vec_SomeD split: option.splits if_splits)

lemma u64_bytes: "(from_be_bytes (be_bytes 8 (unat w)) :: u64) = w"
proof -
  have "unat w < 2 ^ LENGTH(64)" by (rule unsigned_less)
  then have "unat w mod 256 ^ 8 = unat w" by simp
  then show ?thesis by (simp only: from_be_bytes_def be_nat_be_bytes of_nat_unat) simp
qed

lemma bytes_u64:
  assumes "length bs = 8"
  shows "be_bytes 8 (unat (from_be_bytes bs :: u64)) = bs"
proof -
  have "unat (from_be_bytes bs :: u64) = be_nat bs"
    using assms by (intro unat_from_be_bytes) simp
  then show ?thesis using be_bytes_be_nat [of bs] assms by simp
qed

text \<open>The decoder of a kind accepts exactly the encodings of the fields of this kind.\<close>

lemma field_decode_Some_iff:
  "field_decode k bs = Some (f, rest) \<longleftrightarrow> kind_of f = k \<and> field_ok f \<and> bs = field_encode f @ rest"
proof (cases k)
  case KString
  have "field_decode KString bs = Some (f, rest) \<longleftrightarrow>
      (\<exists>c. take_vec bs = Some (c, rest) \<and> utf8_valid c \<and> f = FString (str_of_bytes c))"
    by (auto split: option.splits)
  also have "\<dots> \<longleftrightarrow> (\<exists>s. take_vec bs = Some (as_bytes s, rest) \<and> utf8_valid (as_bytes s) \<and> f = FString s)"
    by (metis as_bytes_str_of_bytes str_of_bytes_as_bytes)
  finally show ?thesis
    by (cases f) (auto simp: KString take_vec_Some_iff simp del: field_decode.simps)
next
  case KBytes
  have "field_decode KBytes bs = Some (f, rest) \<longleftrightarrow> (\<exists>c. take_vec bs = Some (c, rest) \<and> f = FBytes c)"
    by (auto split: option.splits)
  then show ?thesis
    by (cases f) (auto simp: KBytes take_vec_Some_iff simp del: field_decode.simps)
next
  case KU64
  show ?thesis
  proof (cases f)
    case (FU64 w)
    have "w = from_be_bytes (rev (take 8 bs)) \<and> 8 \<le> length bs \<and> rest = drop 8 bs
        \<longleftrightarrow> bs = le_bytes 8 (unat w) @ rest"
    proof
      assume "w = from_be_bytes (rev (take 8 bs)) \<and> 8 \<le> length bs \<and> rest = drop 8 bs"
      then show "bs = le_bytes 8 (unat w) @ rest"
        by (simp add: le_bytes_def bytes_u64)
    next
      assume "bs = le_bytes 8 (unat w) @ rest"
      then show "w = from_be_bytes (rev (take 8 bs)) \<and> 8 \<le> length bs \<and> rest = drop 8 bs"
        by (simp add: le_bytes_def u64_bytes)
    qed
    with FU64 KU64 show ?thesis by auto
  qed (use KU64 in auto)
qed

lemma field_encode_nonempty: "field_encode f \<noteq> []"
proof (cases f)
  case (FU64 w)
  have "length (field_encode f) = 8" by (simp add: FU64)
  then show ?thesis by auto
qed (simp_all add: bcs_vec_def uleb128_nonempty)

text \<open>So the fields of one kind have a self-delimiting encoding.\<close>

interpretation outcome_field: decodable field_encode "field_decode k" "\<lambda>f. field_ok f \<and> kind_of f = k"
  for k
  by unfold_locales (simp_all add: field_decode_Some_iff field_encode_nonempty)

lemma fields_decode_Some_iff:
  "fields_decode ks bs = Some (fs, rest) \<longleftrightarrow>
     map kind_of fs = ks \<and> list_all field_ok fs \<and> bs = concat (map field_encode fs) @ rest"
proof (induction ks arbitrary: bs fs)
  case Nil
  then show ?case by auto
next
  case (Cons k ks)
  have "fields_decode (k # ks) bs = Some (fs, rest) \<longleftrightarrow>
      (\<exists>f mid gs. field_decode k bs = Some (f, mid) \<and> fields_decode ks mid = Some (gs, rest) \<and> fs = f # gs)"
    by (auto split: option.splits)
  also have "\<dots> \<longleftrightarrow> map kind_of fs = k # ks \<and> list_all field_ok fs
      \<and> bs = concat (map field_encode fs) @ rest"
    by (auto simp: field_decode_Some_iff Cons map_eq_Cons_conv)
  finally show ?case .
qed

lemma outcome_of_fields_Some_iff: "outcome_of_fields fs = Some out \<longleftrightarrow> fs = outcome_fields out"
  by (cases fs rule: outcome_of_fields.cases) (auto simp: outcome_fields_def)

lemma outcome_of_fields_inverse: "map kind_of fs = outcome_kinds \<Longrightarrow> outcome_of_fields fs \<noteq> None"
  by (cases fs rule: outcome_of_fields.cases) (auto simp: outcome_kinds_def)

lemma outcome_fields_inject [simp]: "outcome_fields a = outcome_fields b \<longleftrightarrow> a = b"
  by (cases a; cases b) (auto simp: outcome_fields_def)

lemma kinds_of_outcome: "map kind_of (outcome_fields out) = outcome_kinds"
  by (simp add: outcome_fields_def outcome_kinds_def)

text \<open>What an outcome is written as, and the outcomes that can be written.\<close>

definition outcome_ok :: "outcome \<Rightarrow> bool" where
  "outcome_ok out \<longleftrightarrow> list_all field_ok (outcome_fields out)"

definition outcome_layout :: "outcome \<Rightarrow> bytes" where
  "outcome_layout out = concat (map field_encode (outcome_fields out))"

lemma to_bcs_Inr_iff:
  assumes "codec_ok C"
  shows "to_bcs C out = Inr bs \<longleftrightarrow> outcome_ok out \<and> bs = outcome_layout out"
proof -
  from assms have "if list_all field_ok (outcome_fields out)
      then to_bcs C out = Inr (outcome_layout out) else (\<exists>e. to_bcs C out = Inl e)"
    by (simp add: codec_ok_def to_bcs_def outcome_layout_def)
  then show ?thesis by (auto simp: outcome_ok_def split: if_splits)
qed

lemma from_bcs_Inr_iff:
  assumes "codec_ok C"
  shows "from_bcs C bs = Inr out \<longleftrightarrow> outcome_ok out \<and> bs = outcome_layout out"
proof -
  from assms have C: "(case fields_decode outcome_kinds bs of
      Some (fs, []) \<Rightarrow> codec_from_bytes C outcome_kinds bs = Inr fs
    | _ \<Rightarrow> (\<exists>e. codec_from_bytes C outcome_kinds bs = Inl e))"
    by (simp add: codec_ok_def)
  have "from_bcs C bs = Inr out \<longleftrightarrow> codec_from_bytes C outcome_kinds bs = Inr (outcome_fields out)"
    by (auto simp: from_bcs_def outcome_of_fields_Some_iff split: sum.splits option.splits)
       (simp add: outcome_of_fields_Some_iff [THEN iffD2])
  also have "\<dots> \<longleftrightarrow> fields_decode outcome_kinds bs = Some (outcome_fields out, [])"
  proof (cases "fields_decode outcome_kinds bs")
    case (Some p)
    obtain gs rest where "p = (gs, rest)" by (cases p)
    with C Some show ?thesis by (cases rest) auto
  qed (use C in auto)
  also have "\<dots> \<longleftrightarrow> outcome_ok out \<and> bs = outcome_layout out"
    by (simp add: fields_decode_Some_iff kinds_of_outcome outcome_ok_def outcome_layout_def)
  finally show ?thesis .
qed

text \<open>No encoding of an outcome is a prefix of another one.\<close>

lemma fields_prefix_free:
  "map kind_of fs = map kind_of gs \<Longrightarrow> list_all field_ok fs \<Longrightarrow> list_all field_ok gs \<Longrightarrow>
   concat (map field_encode fs) @ r = concat (map field_encode gs) @ s \<Longrightarrow> fs = gs \<and> r = s"
proof (induction fs arbitrary: gs)
  case Nil
  then show ?case by simp
next
  case (Cons f fs)
  from Cons.prems(1) obtain g gs' where gs: "gs = g # gs'" "kind_of g = kind_of f"
    "map kind_of fs = map kind_of gs'"
    by (cases gs) simp_all
  have "field_ok f \<and> kind_of f = kind_of f" "field_ok g \<and> kind_of g = kind_of f"
    using Cons.prems(2,3) gs by simp_all
  moreover have "field_encode f @ (concat (map field_encode fs) @ r)
      = field_encode g @ (concat (map field_encode gs') @ s)"
    using Cons.prems(4) gs(1) by simp
  ultimately have "f = g \<and> concat (map field_encode fs) @ r = concat (map field_encode gs') @ s"
    by (rule outcome_field.prefix_free)
  moreover have "list_all field_ok fs" "list_all field_ok gs'"
    using Cons.prems(2,3) gs by simp_all
  ultimately show ?case using Cons.IH [OF gs(3)] gs(1) by blast
qed

lemma outcome_layout_prefix_free:
  assumes "outcome_ok a" "outcome_ok b" "outcome_layout a @ r = outcome_layout b @ s"
  shows "a = b \<and> r = s"
proof -
  from assms have "outcome_fields a = outcome_fields b \<and> r = s"
    by (intro fields_prefix_free) (simp_all add: kinds_of_outcome outcome_ok_def outcome_layout_def)
  then show ?thesis by simp
qed

lemma from_bcs_isl_iff:
  assumes "codec_ok C"
  shows "isl (from_bcs C bs) \<longleftrightarrow> (\<forall>out. outcome_ok out \<longrightarrow> bs \<noteq> outcome_layout out)"
  using from_bcs_Inr_iff [OF assms, of bs] by (cases "from_bcs C bs") auto

lemma from_bcs_isl:
  assumes "codec_ok C" "\<And>fs. fields_decode outcome_kinds bs \<noteq> Some (fs, [])"
  shows "isl (from_bcs C bs)"
  using assms(2) fields_decode_Some_iff [of outcome_kinds bs _ "[]"]
  by (auto simp: from_bcs_isl_iff [OF assms(1)] outcome_ok_def outcome_layout_def kinds_of_outcome)

lemma from_bcs_prefix:
  assumes "codec_ok C" "from_bcs C bs = Inr out" "n < length bs"
  shows "isl (from_bcs C (take n bs))"
proof -
  have "\<not> (outcome_ok o' \<and> take n bs = outcome_layout o')" for o'
  proof
    assume o': "outcome_ok o' \<and> take n bs = outcome_layout o'"
    from assms have "outcome_ok out" "bs = outcome_layout out" by (simp_all add: from_bcs_Inr_iff)
    moreover have "outcome_layout out @ [] = outcome_layout o' @ drop n bs"
      using o' calculation(2) by (metis append_Nil2 append_take_drop_id)
    ultimately have "drop n bs = []"
      using o' outcome_layout_prefix_free by metis
    with assms(3) show False by simp
  qed
  then show ?thesis by (auto simp: from_bcs_isl_iff [OF assms(1)])
qed

lemma from_bcs_extended:
  assumes "codec_ok C" "from_bcs C bs = Inr out" "x \<noteq> []"
  shows "isl (from_bcs C (bs @ x))"
proof -
  have "\<not> (outcome_ok o' \<and> bs @ x = outcome_layout o')" for o'
  proof
    assume o': "outcome_ok o' \<and> bs @ x = outcome_layout o'"
    from assms have "outcome_ok out" "bs = outcome_layout out" by (simp_all add: from_bcs_Inr_iff)
    with o' have "x = []"
      using outcome_layout_prefix_free [of out o' x "[]"] by simp
    with assms(3) show False by simp
  qed
  then show ?thesis by (auto simp: from_bcs_isl_iff [OF assms(1)])
qed

section \<open>An instance of the crate\<close>

definition spec_codec :: codec where
  "spec_codec =
     \<lparr>codec_to_bytes = (\<lambda>fs. if list_all field_ok fs then Inr (concat (map field_encode fs))
                             else Inl ''sequence too long''),
      codec_from_bytes = (\<lambda>ks bs. case fields_decode ks bs of
                                    Some (fs, []) \<Rightarrow> Inr fs | _ \<Rightarrow> Inl ''malformed input'')\<rparr>"

lemma spec_codec_ok: "codec_ok spec_codec"
  by (auto simp: codec_ok_def spec_codec_def split: option.splits list.splits)

definition sample_transported :: outcome where
  "sample_transported = \<lparr>source = ''x'', attested_value = [1, 2, 3], challenge = [4, 5],
     timestamp_ms = 1, detail_hash = [6]\<rparr>"

lemma sample_transported_ok:
  "outcome_ok sample_transported"
  "outcome_layout sample_transported = [1, 120, 3, 1, 2, 3, 2, 4, 5, 1, 0, 0, 0, 0, 0, 0, 0, 1, 6]"
  by (simp_all add: sample_transported_def outcome_ok_def outcome_layout_def outcome_fields_def
      utf8_valid_def as_bytes_def char_error_def utf8_width_def bcs_vec_def uleb128.simps le_bytes_def
      be_bytes_numeral)

lemma outcome_bcs_sample:
  "from_bcs spec_codec [1, 120, 3, 1, 2, 3, 2, 4, 5, 1, 0, 0, 0, 0, 0, 0, 0, 1, 6] = Inr sample_transported"
  by (simp add: from_bcs_Inr_iff [OF spec_codec_ok] sample_transported_ok)

section \<open>Properties\<close>

text \<open>
  C23. The BCS form of an outcome is its five fields in the order of the struct. Decoding is
  exactly the inverse of encoding: \<open>from_bcs\<close> returns an outcome if and only if \<open>to_bcs\<close> of that
  outcome is the input, and the outcomes that have an encoding are those whose source is valid
  UTF-8 and whose fields are shorter than 2^31 bytes. So no two inputs decode to the same outcome.
\<close>

theorem outcome_bcs_inverse:
  assumes "codec_ok C"
  shows "(from_bcs C bs = Inr out \<longleftrightarrow> to_bcs C out = Inr bs)
    \<and> (to_bcs C out = Inr bs \<longleftrightarrow>
        utf8_valid (as_bytes (source out)) \<and> length (source out) < 2 ^ 31
        \<and> length (attested_value out) < 2 ^ 31 \<and> length (challenge out) < 2 ^ 31
        \<and> length (detail_hash out) < 2 ^ 31
        \<and> bs = bcs_vec (as_bytes (source out)) @ bcs_vec (attested_value out) @ bcs_vec (challenge out)
             @ le_bytes 8 (unat (timestamp_ms out)) @ bcs_vec (detail_hash out))"
proof -
  have "outcome_ok out \<longleftrightarrow> utf8_valid (as_bytes (source out)) \<and> length (source out) < 2 ^ 31
        \<and> length (attested_value out) < 2 ^ 31 \<and> length (challenge out) < 2 ^ 31
        \<and> length (detail_hash out) < 2 ^ 31"
    by (auto simp: outcome_ok_def outcome_fields_def)
  moreover have "outcome_layout out = bcs_vec (as_bytes (source out)) @ bcs_vec (attested_value out)
      @ bcs_vec (challenge out) @ le_bytes 8 (unat (timestamp_ms out)) @ bcs_vec (detail_hash out)"
    by (simp add: outcome_layout_def outcome_fields_def)
  ultimately show ?thesis
    using to_bcs_Inr_iff [OF assms] from_bcs_Inr_iff [OF assms] by simp
qed

theorem outcome_bcs_inverse_witness:
  "codec_ok spec_codec
   \<and> to_bcs spec_codec sample_transported = Inr [1, 120, 3, 1, 2, 3, 2, 4, 5, 1, 0, 0, 0, 0, 0, 0, 0, 1, 6]
   \<and> from_bcs spec_codec [1, 120, 3, 1, 2, 3, 2, 4, 5, 1, 0, 0, 0, 0, 0, 0, 0, 1, 6] = Inr sample_transported"
proof -
  have "to_bcs spec_codec sample_transported
      = Inr [1, 120, 3, 1, 2, 3, 2, 4, 5, 1, 0, 0, 0, 0, 0, 0, 0, 1, 6]"
    unfolding outcome_bcs_inverse [OF spec_codec_ok, THEN conjunct2]
    by (simp add: sample_transported_def utf8_valid_def as_bytes_def char_error_def utf8_width_def Let_def
        bcs_vec_def uleb128.simps le_bytes_def be_bytes_numeral)
  then show ?thesis
    using outcome_bcs_inverse [OF spec_codec_ok, THEN conjunct1] spec_codec_ok by simp
qed

text \<open>
  A damaged encoding is refused: of an input that decodes, neither a proper prefix nor an
  extension by any bytes decodes.
\<close>

lemma outcome_bcs_self_delimiting:
  assumes "codec_ok C" "from_bcs C bs = Inr out" "x \<noteq> []"
  shows "isl (from_bcs C (bs @ x)) \<and> (if n < length bs then isl (from_bcs C (take n bs)) else True)"
  using from_bcs_extended [OF assms] from_bcs_prefix [OF assms(1,2)] by simp

end
