(* ===== verification/Core_Tests.thy ===== *)
theory Core_Tests
  imports Outcome_Bcs Apple_Errors
begin

text \<open>
  The unit tests of \<open>attestation-core\<close> (the module \<open>tests\<close> of
  \<open>rust/attestation-core/src/lib.rs\<close>), run in the model: every test function is the Boolean
  of its assertions, over a \<open>bcs\<close> crate that meets its specification, and is proved true.
  What a test pins (golden bytes, the rejection of malformed input) the model reproduces.
  The derived \<open>Clone\<close> and \<open>Debug\<close> of \<open>Outcome\<close> are written out for the tests of them; how the
  standard library escapes a string between quotes is an argument of the latter.
\<close>

section \<open>Helpers\<close>

definition sample_outcome :: outcome where
  "sample_outcome =
     \<lparr>source = APPLE_APP_ATTEST, attested_value = replicate 65 0x04, challenge = replicate 32 0xAB,
      timestamp_ms = 1700000000000, detail_hash = replicate 32 0xCD\<rparr>"

definition assert_roundtrip :: "codec \<Rightarrow> outcome \<Rightarrow> bool" where
  "assert_roundtrip C out \<longleftrightarrow>
     (case to_bcs C out of Inl e \<Rightarrow> False | Inr bs \<Rightarrow> from_bcs C bs = Inr out)"

lemma assert_roundtrip_ok: "codec_ok C \<Longrightarrow> outcome_ok out \<Longrightarrow> assert_roundtrip C out"
  using to_bcs_Inr_iff [of C out "outcome_layout out"] from_bcs_Inr_iff [of C "outcome_layout out" out]
  by (simp add: assert_roundtrip_def)

lemma utf8_valid_ascii: "list_all ascii s \<Longrightarrow> utf8_valid (as_bytes s)"
  using from_utf8_plain [of s] by (auto simp: utf8_valid_def from_utf8_def split: option.splits)

lemma outcome_okI:
  "list_all ascii (source out) \<Longrightarrow> length (source out) < 2 ^ 31 \<Longrightarrow> length (attested_value out) < 2 ^ 31
   \<Longrightarrow> length (challenge out) < 2 ^ 31 \<Longrightarrow> length (detail_hash out) < 2 ^ 31 \<Longrightarrow> outcome_ok out"
  by (simp add: outcome_ok_def outcome_fields_def utf8_valid_ascii)

section \<open>Round trips\<close>

definition outcome_bcs_roundtrip :: "codec \<Rightarrow> bool" where
  "outcome_bcs_roundtrip C \<longleftrightarrow>
     (let out = \<lparr>source = APPLE_APP_ATTEST, attested_value = replicate 65 0x04,
                 challenge = replicate 32 0xAB, timestamp_ms = 1700000000000,
                 detail_hash = replicate 32 0xCD\<rparr> in
      case to_bcs C out of Inl e \<Rightarrow> False | Inr bs \<Rightarrow> from_bcs C bs = Inr out)"

definition roundtrip_all_fields_empty :: "codec \<Rightarrow> bool" where
  "roundtrip_all_fields_empty C \<longleftrightarrow> assert_roundtrip C
     \<lparr>source = [], attested_value = [], challenge = [], timestamp_ms = 0, detail_hash = []\<rparr>"

definition roundtrip_timestamp_min_and_max :: "codec \<Rightarrow> bool" where
  "roundtrip_timestamp_min_and_max C \<longleftrightarrow>
     assert_roundtrip C (sample_outcome\<lparr>timestamp_ms := 0\<rparr>)
     \<and> assert_roundtrip C (sample_outcome\<lparr>timestamp_ms := - 1\<rparr>)"

definition roundtrip_byte_value_extremes :: "codec \<Rightarrow> bool" where
  "roundtrip_byte_value_extremes C \<longleftrightarrow>
     (let all_bytes = map word_of_nat [0..<256] in
      assert_roundtrip C \<lparr>source = ''all-byte-source'', attested_value = all_bytes,
        challenge = all_bytes, timestamp_ms = 42, detail_hash = all_bytes\<rparr>)"

definition roundtrip_long_fields :: "codec \<Rightarrow> bool" where
  "roundtrip_long_fields C \<longleftrightarrow> assert_roundtrip C
     \<lparr>source = replicate 300 (CHR ''s''), attested_value = replicate 1000 0x11,
      challenge = replicate 200 0x22, timestamp_ms = - 1, detail_hash = replicate 128 0x33\<rparr>"

text \<open>The source is two katakana, the prolonged sound mark, \<open>-source-\<close> and a lock, in UTF-8.\<close>

definition roundtrip_unicode_source :: "codec \<Rightarrow> bool" where
  "roundtrip_unicode_source C \<longleftrightarrow> assert_roundtrip C
     \<lparr>source = str_of_bytes [0xE3, 0x82, 0xBD, 0xE3, 0x83, 0xBC, 0xE3, 0x82, 0xB9] @ ''-source-''
               @ str_of_bytes [0xF0, 0x9F, 0x94, 0x90],
      attested_value = [1, 2, 3], challenge = [4, 5, 6], timestamp_ms = 9, detail_hash = [7, 8, 9]\<rparr>"

definition roundtrip_each_canonical_source :: "codec \<Rightarrow> bool" where
  "roundtrip_each_canonical_source C \<longleftrightarrow>
     list_all (\<lambda>s. assert_roundtrip C (sample_outcome\<lparr>source := s\<rparr>))
       [APPLE_APP_ATTEST, APPLE_APP_ATTEST_ASSERTION, APPLE_WEBAUTHN, ANDROID_KEY_ATTEST,
        ANDROID_WEBAUTHN_KEY, NTAG_ORIGINALITY, FIDO_PACKED]"

lemma ascii_replicate [simp]: "list_all ascii (replicate n c) \<longleftrightarrow> n = 0 \<or> ascii c"
  by (induction n) auto

lemmas source_ascii = APPLE_APP_ATTEST_def APPLE_APP_ATTEST_ASSERTION_def APPLE_WEBAUTHN_def
  ANDROID_KEY_ATTEST_def ANDROID_WEBAUTHN_KEY_def NTAG_ORIGINALITY_def FIDO_PACKED_def ascii_def

lemma sample_outcome_ok: "outcome_ok sample_outcome"
  by (rule outcome_okI) (simp_all add: sample_outcome_def source_ascii)

lemma tail_error_numeral:
  "tail_error (Suc 0) seen (b # bs) = (if continuation b then None else Some (Some seen))"
  "tail_error 2 seen (b # b' # bs) =
     (if continuation b then if continuation b' then None else Some (Some (seen + 1)) else Some (Some seen))"
  by (simp_all add: numeral_2_eq_2)

lemma unicode_source_valid:
  "utf8_valid (as_bytes (str_of_bytes [0xE3, 0x82, 0xBD, 0xE3, 0x83, 0xBC, 0xE3, 0x82, 0xB9]
     @ ''-source-'' @ str_of_bytes [0xF0, 0x9F, 0x94, 0x90]))"
proof -
  have "as_bytes (str_of_bytes [0xE3, 0x82, 0xBD, 0xE3, 0x83, 0xBC, 0xE3, 0x82, 0xB9]
      @ ''-source-'' @ str_of_bytes [0xF0, 0x9F, 0x94, 0x90])
    = [0xE3, 0x82, 0xBD, 0xE3, 0x83, 0xBC, 0xE3, 0x82, 0xB9, 45, 115, 111, 117, 114, 99, 101, 45,
       0xF0, 0x9F, 0x94, 0x90]"
  proof -
    have "as_bytes (a @ b @ c) = as_bytes a @ as_bytes b @ as_bytes c" for a b c
      by (simp add: as_bytes_def)
    then show ?thesis
      by (simp only: as_bytes_str_of_bytes) (simp add: as_bytes_def)
  qed
  then show ?thesis
    by (simp only: utf8_valid_def)
       (simp add: char_error_def utf8_width_def second_ok_def continuation_def Let_def tail_error_numeral)
qed

lemma roundtrips_hold:
  assumes "codec_ok C"
  shows "outcome_bcs_roundtrip C \<and> roundtrip_all_fields_empty C \<and> roundtrip_timestamp_min_and_max C
    \<and> roundtrip_byte_value_extremes C \<and> roundtrip_long_fields C \<and> roundtrip_unicode_source C
    \<and> roundtrip_each_canonical_source C"
proof (intro conjI)
  note ok = assert_roundtrip_ok [OF assms]
  show "outcome_bcs_roundtrip C"
    using ok [OF sample_outcome_ok]
    by (simp add: outcome_bcs_roundtrip_def assert_roundtrip_def sample_outcome_def Let_def)
  show "roundtrip_all_fields_empty C"
    unfolding roundtrip_all_fields_empty_def by (intro ok outcome_okI) simp_all
  show "roundtrip_timestamp_min_and_max C"
    unfolding roundtrip_timestamp_min_and_max_def
    by (intro conjI ok outcome_okI) (simp_all add: sample_outcome_def source_ascii)
  show "roundtrip_byte_value_extremes C"
    unfolding roundtrip_byte_value_extremes_def Let_def
    by (intro ok outcome_okI) (simp_all add: ascii_def)
  show "roundtrip_long_fields C"
    unfolding roundtrip_long_fields_def by (intro ok outcome_okI) (simp_all add: ascii_def)
  show "roundtrip_unicode_source C"
    unfolding roundtrip_unicode_source_def
    by (intro ok) (use unicode_source_valid in \<open>simp add: outcome_ok_def outcome_fields_def str_of_bytes_def\<close>)
  show "roundtrip_each_canonical_source C"
    unfolding roundtrip_each_canonical_source_def list.pred_inject
    by (intro conjI TrueI ok outcome_okI) (simp_all add: sample_outcome_def source_ascii)
qed

section \<open>Malformed, truncated and empty input\<close>

definition from_bcs_empty_is_err :: "codec \<Rightarrow> bool" where
  "from_bcs_empty_is_err C \<longleftrightarrow> isl (from_bcs C [])"

definition from_bcs_truncated_at_every_prefix_is_err :: "codec \<Rightarrow> bool" where
  "from_bcs_truncated_at_every_prefix_is_err C \<longleftrightarrow>
     (case to_bcs C sample_outcome of
        Inl e \<Rightarrow> False
      | Inr bs \<Rightarrow> list_all (\<lambda>len. isl (from_bcs C (take len bs))) [0..<length bs]
                  \<and> \<not> isl (from_bcs C bs))"

definition from_bcs_trailing_garbage_is_err :: "codec \<Rightarrow> bool" where
  "from_bcs_trailing_garbage_is_err C \<longleftrightarrow>
     (case to_bcs C sample_outcome of Inl e \<Rightarrow> False | Inr bs \<Rightarrow> isl (from_bcs C (bs @ [0xFF])))"

definition from_bcs_length_prefix_exceeds_remaining_is_err :: "codec \<Rightarrow> bool" where
  "from_bcs_length_prefix_exceeds_remaining_is_err C \<longleftrightarrow>
     isl (from_bcs C (0x7F # as_bytes ''ab''))"

definition from_bcs_invalid_utf8_source_is_err :: "codec \<Rightarrow> bool" where
  "from_bcs_invalid_utf8_source_is_err C \<longleftrightarrow>
     isl (from_bcs C [0x01, 0xFF, 0x00, 0x00, 0x00, 0x00, 0x00, 0x00, 0x00, 0x00, 0x00, 0x00, 0x00])"

lemma rejections_hold:
  assumes "codec_ok C"
  shows "from_bcs_empty_is_err C \<and> from_bcs_truncated_at_every_prefix_is_err C
    \<and> from_bcs_trailing_garbage_is_err C \<and> from_bcs_length_prefix_exceeds_remaining_is_err C
    \<and> from_bcs_invalid_utf8_source_is_err C"
proof (intro conjI)
  let ?bs = "outcome_layout sample_outcome"
  have enc: "to_bcs C sample_outcome = Inr ?bs" and dec: "from_bcs C ?bs = Inr sample_outcome"
    using to_bcs_Inr_iff [OF assms] from_bcs_Inr_iff [OF assms] sample_outcome_ok by simp_all
  show "from_bcs_empty_is_err C"
    unfolding from_bcs_empty_is_err_def
    by (rule from_bcs_isl [OF assms]) (simp add: outcome_kinds_def take_vec_def read_bcs_vec_def)
  show "from_bcs_truncated_at_every_prefix_is_err C"
    using from_bcs_prefix [OF assms dec]
    by (simp add: from_bcs_truncated_at_every_prefix_is_err_def enc dec list_all_iff)
  show "from_bcs_trailing_garbage_is_err C"
    using from_bcs_extended [OF assms dec] by (simp add: from_bcs_trailing_garbage_is_err_def enc)
  show "from_bcs_length_prefix_exceeds_remaining_is_err C"
    unfolding from_bcs_length_prefix_exceeds_remaining_is_err_def
    by (rule from_bcs_isl [OF assms])
       (simp add: outcome_kinds_def take_vec_def read_bcs_vec_def as_bytes_def)
  show "from_bcs_invalid_utf8_source_is_err C"
  proof -
    have one: "uleb128 (Suc 0) = [1]" by (simp add: uleb128.simps)
    have "take_vec [0x01, 0xFF, 0x00, 0x00, 0x00, 0x00, 0x00, 0x00, 0x00, 0x00, 0x00, 0x00, 0x00]
        = Some ([0xFF], [0x00, 0x00, 0x00, 0x00, 0x00, 0x00, 0x00, 0x00, 0x00, 0x00, 0x00])"
      by (simp add: take_vec_Some_iff bcs_vec_def one)
    moreover have "\<not> utf8_valid [0xFF]"
      by (simp add: utf8_valid_def char_error_def utf8_width_def)
    ultimately show ?thesis
      unfolding from_bcs_invalid_utf8_source_is_err_def
      by (intro from_bcs_isl [OF assms]) (simp add: outcome_kinds_def)
  qed
qed

section \<open>Golden bytes\<close>

definition bcs_layout_is_stable :: "codec \<Rightarrow> bool" where
  "bcs_layout_is_stable C \<longleftrightarrow>
     to_bcs C \<lparr>source = ''x'', attested_value = [1, 2, 3], challenge = [4, 5], timestamp_ms = 1,
               detail_hash = [6]\<rparr>
     = Inr ([0x01] @ as_bytes ''x'' @ [0x03, 0x01, 0x02, 0x03] @ [0x02, 0x04, 0x05]
            @ [0x01, 0x00, 0x00, 0x00, 0x00, 0x00, 0x00, 0x00] @ [0x01, 0x06])"

definition golden_bytes_fully_specified :: "codec \<Rightarrow> bool" where
  "golden_bytes_fully_specified C \<longleftrightarrow>
     (let out = \<lparr>source = ''ab'', attested_value = [0x10, 0x11, 0x12, 0x13], challenge = [0x20, 0x21],
                 timestamp_ms = 0x0102030405060708, detail_hash = [0xFE, 0xDC, 0xBA]\<rparr>;
          expected = [0x02] @ as_bytes ''ab'' @ [0x04, 0x10, 0x11, 0x12, 0x13] @ [0x02, 0x20, 0x21]
            @ [0x08, 0x07, 0x06, 0x05, 0x04, 0x03, 0x02, 0x01] @ [0x03, 0xFE, 0xDC, 0xBA] in
      to_bcs C out = Inr expected \<and> from_bcs C expected = Inr out)"

definition golden_bytes_multibyte_length_prefix :: "codec \<Rightarrow> bool" where
  "golden_bytes_multibyte_length_prefix C \<longleftrightarrow>
     to_bcs C \<lparr>source = [], attested_value = replicate 200 0x07, challenge = [], timestamp_ms = 0,
               detail_hash = []\<rparr>
     = Inr ([0x00] @ [0xC8, 0x01] @ replicate 200 0x07 @ [0x00] @ replicate 8 0 @ [0x00])"

lemmas layout_defs = outcome_layout_def outcome_fields_def bcs_vec_def uleb128.simps le_bytes_def
  be_bytes_numeral as_bytes_def

lemma goldens_hold:
  assumes "codec_ok C"
  shows "bcs_layout_is_stable C" "golden_bytes_fully_specified C" "golden_bytes_multibyte_length_prefix C"
proof -
  note iffs = to_bcs_Inr_iff [OF assms] from_bcs_Inr_iff [OF assms]
  show "bcs_layout_is_stable C"
    unfolding bcs_layout_is_stable_def iffs
    by (intro conjI outcome_okI) (simp_all add: ascii_def layout_defs)
  show "golden_bytes_fully_specified C"
    unfolding golden_bytes_fully_specified_def Let_def iffs
    by (intro conjI outcome_okI) (simp_all add: ascii_def layout_defs)
  have "le_bytes 8 0 = replicate 8 0" "uleb128 200 = [0xC8, 0x01]" "uleb128 0 = [0]"
    by (simp_all add: layout_defs replicate_numeral)
  then show "golden_bytes_multibyte_length_prefix C"
    unfolding golden_bytes_multibyte_length_prefix_def iffs
    by (intro conjI outcome_okI) (simp_all add: outcome_layout_def outcome_fields_def bcs_vec_def as_bytes_def)
qed

text \<open>The derived implementations: \<open>Clone\<close> field by field, and \<open>{:?}\<close> on one line.\<close>

definition clone_outcome :: "outcome \<Rightarrow> outcome" where
  "clone_outcome out =
     \<lparr>source = source out, attested_value = attested_value out, challenge = challenge out,
      timestamp_ms = timestamp_ms out, detail_hash = detail_hash out\<rparr>"

definition debug_outcome :: "(string \<Rightarrow> string) \<Rightarrow> outcome \<Rightarrow> string" where
  "debug_outcome debug_str out =
     ''Outcome { source: '' @ debug_str (source out)
     @ '', attested_value: '' @ debug_bytes (attested_value out)
     @ '', challenge: '' @ debug_bytes (challenge out)
     @ '', timestamp_ms: '' @ show_nat (unat (timestamp_ms out))
     @ '', detail_hash: '' @ debug_bytes (detail_hash out) @ '' }''"

definition clone_produces_equal_value :: bool where
  "clone_produces_equal_value \<longleftrightarrow> (let out = sample_outcome; cloned = clone_outcome out in out = cloned)"

definition debug_includes_field_names :: "(string \<Rightarrow> string) \<Rightarrow> bool" where
  "debug_includes_field_names debug_str \<longleftrightarrow>
     (let debug = debug_outcome debug_str sample_outcome in
      contains debug ''Outcome'' \<and> contains debug ''source'' \<and> contains debug ''attested_value''
      \<and> contains debug ''challenge'' \<and> contains debug ''timestamp_ms'' \<and> contains debug ''detail_hash'')"

lemma clone_test_passes: clone_produces_equal_value
  by (simp add: clone_produces_equal_value_def clone_outcome_def)

lemma contains_later: "contains b t \<Longrightarrow> contains (a @ b) t"
proof -
  assume "contains b t"
  then obtain i where "i < Suc (length b)" "take (length t) (drop i b) = t"
    by (auto simp: contains_def list_ex_iff simp del: upt_Suc)
  then show ?thesis
    unfolding contains_def list_ex_iff by (intro bexI [of _ "length a + i"]) (simp_all del: upt_Suc)
qed

lemma contains_first: "contains (t @ b) t"
  using contains_infix [of "[]"] by simp

lemma debug_test_passes: "debug_includes_field_names debug_str"
proof -
  note split = contains_later contains_first
  have parts: "'', attested_value: '' = '', '' @ ''attested_value'' @ '': ''"
    "'', challenge: '' = '', '' @ ''challenge'' @ '': ''" "'', timestamp_ms: '' = '', '' @ ''timestamp_ms'' @ '': ''"
    "'', detail_hash: '' = '', '' @ ''detail_hash'' @ '': ''" "''Outcome { source: '' = ''Outcome'' @ '' { '' @ ''source'' @ '': ''"
    by simp_all
  show ?thesis
    unfolding debug_includes_field_names_def debug_outcome_def Let_def parts append_assoc
    by (intro conjI) (rule contains_first | rule contains_later)+
qed

definition partial_eq_distinguishes_each_field :: bool where
  "partial_eq_distinguishes_each_field \<longleftrightarrow>
     (let base = sample_outcome in
      base \<noteq> base\<lparr>source := ''different''\<rparr>
      \<and> base \<noteq> base\<lparr>attested_value := attested_value base @ [0x00]\<rparr>
      \<and> base \<noteq> base\<lparr>challenge := challenge base @ [0x00]\<rparr>
      \<and> base \<noteq> base\<lparr>timestamp_ms := timestamp_ms base + 1\<rparr>
      \<and> base \<noteq> base\<lparr>detail_hash := detail_hash base @ [0x00]\<rparr>
      \<and> base = base)"

lemma distinctions_hold: partial_eq_distinguishes_each_field
  unfolding partial_eq_distinguishes_each_field_def Let_def
  by (simp add: sample_outcome_def source_defs)

end
