(* ===== verification/Apple_Tests.thy ===== *)
theory Apple_Tests
  imports Apple_Device
begin

text \<open>
  The unit tests of \<open>attest-apple\<close> (the modules \<open>tests\<close> of \<open>authdata.rs\<close>, \<open>cose.rs\<close>,
  \<open>cbor.rs\<close>, \<open>assertion.rs\<close> and \<open>lib.rs\<close>), run in the model: each test function is the
  Boolean of its assertions and is proved true. \<open>matches!\<close> on an error constructor is a
  predicate on results. The four tests of \<open>assertion.rs\<close> whose assertion is that a P-256 signature
  does not verify are in \<open>Fixture_Tests\<close>.
\<close>

section \<open>What the tests rely on\<close>

text \<open>
  The values the tests write, restricted to what every CBOR implementation represents, and what
  they rely on of \<open>ciborium\<close>: a written value is read back, a proper prefix of it is an error,
  and so is an input that starts with a break code.
\<close>

fun cbor_encodable :: "cbor_value \<Rightarrow> bool" where
  "cbor_encodable (CInteger i) \<longleftrightarrow> - (2 ^ 63) \<le> i \<and> i < 2 ^ 63"
| "cbor_encodable (CBytes b) \<longleftrightarrow> length b < 2 ^ 32"
| "cbor_encodable (CText s) \<longleftrightarrow> length s < 2 ^ 32 \<and> list_all (\<lambda>c. of_char c < (128 :: nat)) s"
| "cbor_encodable (CArray vs) \<longleftrightarrow> list_all cbor_encodable vs"
| "cbor_encodable (CMap kvs) \<longleftrightarrow> list_all (\<lambda>(k, v). cbor_encodable k \<and> cbor_encodable v) kvs"
| "cbor_encodable _ \<longleftrightarrow> False"

definition ciborium_ok :: "crates \<Rightarrow> (cbor_value \<Rightarrow> bytes) \<Rightarrow> bool" where
  "ciborium_ok X W \<longleftrightarrow>
     (\<forall>v. cbor_encodable v \<longrightarrow> W v \<noteq> [] \<and> cbor_from_reader X (W v) = Inr v
            \<and> (\<forall>n < length (W v). isl (cbor_from_reader X (take n (W v)))))
     \<and> (\<forall>bs. isl (cbor_from_reader X (0xFF # bs)))"

definition is_cose :: "('a, apple_error) result \<Rightarrow> bool" where
  "is_cose r \<longleftrightarrow> (case r of Err (Cose m) \<Rightarrow> True | _ \<Rightarrow> False)"

definition is_cbor :: "('a, apple_error) result \<Rightarrow> bool" where
  "is_cbor r \<longleftrightarrow> (case r of Err (Cbor m) \<Rightarrow> True | _ \<Rightarrow> False)"

definition is_der :: "('a, apple_error) result \<Rightarrow> bool" where
  "is_der r \<longleftrightarrow> (case r of Err (Der m) \<Rightarrow> True | _ \<Rightarrow> False)"

definition is_err :: "('a, 'e) result \<Rightarrow> bool" where
  "is_err r \<longleftrightarrow> (case r of Err e \<Rightarrow> True | _ \<Rightarrow> False)"

lemma is_simps [simp]:
  "is_cose (Err e) \<longleftrightarrow> (case e of Cose m \<Rightarrow> True | _ \<Rightarrow> False)"
  "is_cbor (Err e) \<longleftrightarrow> (case e of Cbor m \<Rightarrow> True | _ \<Rightarrow> False)"
  "is_der (Err e) \<longleftrightarrow> (case e of Der m \<Rightarrow> True | _ \<Rightarrow> False)"
  "is_err (Err d)"
  by (simp_all add: is_cose_def is_cbor_def is_der_def is_err_def)

lemma ciborium_readD: "ciborium_ok X W \<Longrightarrow> cbor_encodable v \<Longrightarrow> cbor_from_reader X (W v) = Inr v"
  by (simp add: ciborium_ok_def)

lemma ciborium_halfE:
  assumes "ciborium_ok X W" "cbor_encodable v"
  obtains e where "cbor_from_reader X (take (length (W v) div 2) (W v)) = Inl e"
proof -
  from assms have "W v \<noteq> []" "\<forall>n < length (W v). isl (cbor_from_reader X (take n (W v)))"
    by (auto simp: ciborium_ok_def)
  then have "isl (cbor_from_reader X (take (length (W v) div 2) (W v)))" by simp
  then show thesis using that by (auto simp: isl_def)
qed

section \<open>authdata.rs\<close>

definition authdata_rejects_too_short :: bool where
  "authdata_rejects_too_short \<longleftrightarrow>
     authdata_parse (replicate 36 0) = Err (AuthDataTooShort 36)"

definition authdata_rejects_no_at_flag :: bool where
  "authdata_rejects_no_at_flag \<longleftrightarrow>
     authdata_parse ((replicate 60 0)[32 := 0x00]) = Err NoAttestedCredentialData"

definition parses_well_formed_auth_data :: bool where
  "parses_well_formed_auth_data \<longleftrightarrow>
     (let rp = replicate 32 0xAB; ag = as_bytes ''appattestdevelop''; cred_id = [1, 2, 3, 4];
          cose = [0xF0, 0xF1, 0xF2] in
      case authdata_parse (authdata_build rp 0 ag cred_id cose) of
        Ok auth \<Rightarrow> rp_id_hash auth = rp \<and> flags auth = AT_FLAG \<and> sign_count auth = 0
          \<and> aaguid auth = as_bytes ''appattestdevelop'' \<and> credential_id auth = cred_id
          \<and> credential_public_key auth = cose
      | _ \<Rightarrow> False)"

definition parses_nonzero_sign_count_big_endian :: bool where
  "parses_nonzero_sign_count_big_endian \<longleftrightarrow>
     (case authdata_parse (authdata_build (replicate 32 0) 0x01020304 (replicate 16 0) [] [0xAA]) of
        Ok auth \<Rightarrow> sign_count auth = 0x01020304 | _ \<Rightarrow> False)"

definition rejects_when_too_short_for_aaguid_and_cred_len :: bool where
  "rejects_when_too_short_for_aaguid_and_cred_len \<longleftrightarrow>
     authdata_parse ((replicate 37 0)[32 := AT_FLAG]) = Err (AuthDataTooShort 37)"

definition rejects_when_cred_id_len_exceeds_buffer :: bool where
  "rejects_when_cred_id_len_exceeds_buffer \<longleftrightarrow>
     authdata_parse (take 53 ((replicate 55 0)[32 := AT_FLAG]) @ be_bytes 2 1000)
       = Err (AuthDataTooShort 55)"

definition empty_cred_id_puts_everything_in_public_key :: bool where
  "empty_cred_id_puts_everything_in_public_key \<longleftrightarrow>
     (case authdata_parse (authdata_build (replicate 32 0) 0 (replicate 16 0) [] [0x11, 0x22, 0x33]) of
        Ok auth \<Rightarrow> credential_id auth = [] \<and> credential_public_key auth = [0x11, 0x22, 0x33]
      | _ \<Rightarrow> False)"

lemma authdata_tests_pass:
  "authdata_rejects_too_short" "authdata_rejects_no_at_flag" "parses_well_formed_auth_data"
  "parses_nonzero_sign_count_big_endian" "rejects_when_too_short_for_aaguid_and_cred_len"
  "rejects_when_cred_id_len_exceeds_buffer" "empty_cred_id_puts_everything_in_public_key"
proof -
  show "authdata_rejects_too_short" "authdata_rejects_no_at_flag"
    "rejects_when_too_short_for_aaguid_and_cred_len"
    by (simp_all add: authdata_rejects_too_short_def authdata_rejects_no_at_flag_def
        rejects_when_too_short_for_aaguid_and_cred_len_def authdata_parse_eq authdata_error_def AT_FLAG_def)
  show "parses_well_formed_auth_data" "parses_nonzero_sign_count_big_endian"
    "empty_cred_id_puts_everything_in_public_key"
    by (simp_all add: parses_well_formed_auth_data_def parses_nonzero_sign_count_big_endian_def
        empty_cred_id_puts_everything_in_public_key_def authdata_parse_build Let_def)
  show "rejects_when_cred_id_len_exceeds_buffer"
    by (simp add: rejects_when_cred_id_len_exceeds_buffer_def authdata_parse_eq authdata_error_def
        AT_FLAG_def nth_append be_nat_be_bytes del: be_bytes.simps)
qed

section \<open>cose.rs\<close>

definition valid_key :: "(cbor_value \<Rightarrow> bytes) \<Rightarrow> bytes" where
  "valid_key W =
     cose_key W (Some 2) (Some (- 7)) (Some 1) (Some (replicate 32 0x11)) (Some (replicate 32 0x22))"

definition extracts_valid_p256_key :: "crates \<Rightarrow> (cbor_value \<Rightarrow> bytes) \<Rightarrow> bool" where
  "extracts_valid_p256_key X W \<longleftrightarrow>
     (case extract_p256_pk X (valid_key W) of
        Ok pk \<Rightarrow> pk ! 0 = 0x04 \<and> take 32 (drop 1 pk) = replicate 32 0x11
          \<and> take 32 (drop 33 pk) = replicate 32 0x22 \<and> key_id_input pk = pk
      | _ \<Rightarrow> False)"

definition rejects_wrong_kty :: "crates \<Rightarrow> (cbor_value \<Rightarrow> bytes) \<Rightarrow> bool" where
  "rejects_wrong_kty X W \<longleftrightarrow>
     extract_p256_pk X (cose_key W (Some 3) (Some (- 7)) (Some 1) (Some (replicate 32 1)) (Some (replicate 32 2)))
       = Err NotP256"

definition rejects_missing_kty :: "crates \<Rightarrow> (cbor_value \<Rightarrow> bytes) \<Rightarrow> bool" where
  "rejects_missing_kty X W \<longleftrightarrow>
     extract_p256_pk X (cose_key W None (Some (- 7)) (Some 1) (Some (replicate 32 1)) (Some (replicate 32 2)))
       = Err NotP256"

definition rejects_wrong_alg :: "crates \<Rightarrow> (cbor_value \<Rightarrow> bytes) \<Rightarrow> bool" where
  "rejects_wrong_alg X W \<longleftrightarrow>
     is_cose (extract_p256_pk X (cose_key W (Some 2) (Some (- 8)) (Some 1) (Some (replicate 32 1)) 
       (Some (replicate 32 2))))"

definition rejects_wrong_curve :: "crates \<Rightarrow> (cbor_value \<Rightarrow> bytes) \<Rightarrow> bool" where
  "rejects_wrong_curve X W \<longleftrightarrow>
     extract_p256_pk X (cose_key W (Some 2) (Some (- 7)) (Some 2) (Some (replicate 32 1)) (Some (replicate 32 2)))
       = Err NotP256"

definition rejects_missing_x :: "crates \<Rightarrow> (cbor_value \<Rightarrow> bytes) \<Rightarrow> bool" where
  "rejects_missing_x X W \<longleftrightarrow>
     is_cose (extract_p256_pk X (cose_key W (Some 2) (Some (- 7)) (Some 1) None (Some (replicate 32 2))))"

definition rejects_missing_y :: "crates \<Rightarrow> (cbor_value \<Rightarrow> bytes) \<Rightarrow> bool" where
  "rejects_missing_y X W \<longleftrightarrow>
     is_cose (extract_p256_pk X (cose_key W (Some 2) (Some (- 7)) (Some 1) (Some (replicate 32 1)) None))"

definition rejects_wrong_coordinate_length :: "crates \<Rightarrow> (cbor_value \<Rightarrow> bytes) \<Rightarrow> bool" where
  "rejects_wrong_coordinate_length X W \<longleftrightarrow>
     is_cose (extract_p256_pk X (cose_key W (Some 2) (Some (- 7)) (Some 1) (Some (replicate 31 1)) 
       (Some (replicate 32 2))))
     \<and> is_cose (extract_p256_pk X (cose_key W (Some 2) (Some (- 7)) (Some 1) (Some (replicate 32 1)) 
       (Some (replicate 33 2))))"

definition cose_rejects_non_cbor :: "crates \<Rightarrow> bool" where
  "cose_rejects_non_cbor X \<longleftrightarrow>
     is_cose (extract_p256_pk X [0xFF, 0xFF, 0xFF])"

definition rejects_cbor_that_is_not_a_map :: "crates \<Rightarrow> (cbor_value \<Rightarrow> bytes) \<Rightarrow> bool" where
  "rejects_cbor_that_is_not_a_map X W \<longleftrightarrow>
     is_cose (extract_p256_pk X (W (CArray [])))"

definition cose_rejects_truncated_cbor :: "crates \<Rightarrow> (cbor_value \<Rightarrow> bytes) \<Rightarrow> bool" where
  "cose_rejects_truncated_cbor X W \<longleftrightarrow>
     (let bs = valid_key W in is_err (extract_p256_pk X (take (length bs div 2) bs)))"

lemma cose_value_encodable:
  assumes "i64_ok kt" "i64_ok al" "i64_ok cr" "\<forall>b. x = Some b \<longrightarrow> length b < 2 ^ 32" "\<forall>b. y = Some b \<longrightarrow> length b < 2 ^ 32"
  shows "cbor_encodable (CMap (cose_entries kt al cr x y))"
  using assms
  by (cases kt; cases al; cases cr; cases x; cases y) (simp_all add: cose_entries_def i64_ok_def)

lemma cose_key_read:
  assumes "ciborium_ok X W" "i64_ok kt" "i64_ok al" "i64_ok cr"
    "\<forall>b. x = Some b \<longrightarrow> length b < 2 ^ 32" "\<forall>b. y = Some b \<longrightarrow> length b < 2 ^ 32"
  shows "extract_p256_pk X (cose_key W kt al cr x y)
    = cose_finish \<lparr>kty = kt, alg = al, crv = cr, coord_x = x, coord_y = y\<rparr>"
  using ciborium_readD [OF assms(1) cose_value_encodable [OF assms(2-6)]] assms(2-4)
  by (intro extract_cose_key) (simp_all add: cose_key_def)

lemma cose_tests_pass:
  assumes "ciborium_ok X W"
  shows "extracts_valid_p256_key X W" "rejects_wrong_kty X W" "rejects_missing_kty X W"
    "rejects_wrong_alg X W" "rejects_wrong_curve X W" "rejects_missing_x X W" "rejects_missing_y X W"
    "rejects_wrong_coordinate_length X W" "cose_rejects_non_cbor X" "rejects_cbor_that_is_not_a_map X W"
    "cose_rejects_truncated_cbor X W"
proof -
  note read = cose_key_read [OF assms] cose_finish_def i64_ok_def to_array_def
  show "extracts_valid_p256_key X W" "rejects_wrong_kty X W" "rejects_missing_kty X W"
    "rejects_wrong_alg X W" "rejects_wrong_curve X W" "rejects_missing_x X W" "rejects_missing_y X W"
    "rejects_wrong_coordinate_length X W"
    by (simp_all add: extracts_valid_p256_key_def valid_key_def key_id_input_def rejects_wrong_kty_def
        rejects_missing_kty_def rejects_wrong_alg_def rejects_wrong_curve_def rejects_missing_x_def
        rejects_missing_y_def rejects_wrong_coordinate_length_def read)
  have "isl (cbor_from_reader X [0xFF, 0xFF, 0xFF])"
    using assms by (simp add: ciborium_ok_def)
  then show "cose_rejects_non_cbor X"
    by (auto simp: cose_rejects_non_cbor_def extract_p256_pk_def isl_def)
  have "cbor_from_reader X (W (CArray [])) = Inr (CArray [])"
    using assms by (rule ciborium_readD) simp
  then show "rejects_cbor_that_is_not_a_map X W"
    by (simp add: rejects_cbor_that_is_not_a_map_def extract_p256_pk_def)
  have "cbor_encodable (CMap (cose_entries (Some 2) (Some (- 7)) (Some 1) (Some (replicate 32 0x11))
      (Some (replicate 32 0x22))))"
    by (simp add: cose_entries_def)
  then obtain e where "cbor_from_reader X (take (length (valid_key W) div 2) (valid_key W)) = Inl e"
    unfolding valid_key_def cose_key_def by (rule ciborium_halfE [OF assms])
  then show "cose_rejects_truncated_cbor X W"
    by (simp add: cose_rejects_truncated_cbor_def Let_def extract_p256_pk_def)
qed

section \<open>cbor.rs\<close>

definition decodes_well_formed_object :: "crates \<Rightarrow> (cbor_value \<Rightarrow> bytes) \<Rightarrow> bool" where
  "decodes_well_formed_object X W \<longleftrightarrow>
     (case decode_attestation_object X (build_object W (Some ''apple-appattest'') (Some [1, 2, 3])
        (Some (att_stmt (Some [[0xAA], [0xBB]]) (Some [9, 9])))) of
        Ok stmt \<Rightarrow> st_fmt stmt = ''apple-appattest'' \<and> st_auth_data stmt = [1, 2, 3]
          \<and> st_x5c stmt = [[0xAA], [0xBB]] \<and> st_receipt stmt = [9, 9]
      | _ \<Rightarrow> False)"

definition receipt_is_optional :: "crates \<Rightarrow> (cbor_value \<Rightarrow> bytes) \<Rightarrow> bool" where
  "receipt_is_optional X W \<longleftrightarrow>
     (case decode_attestation_object X (build_object W (Some ''apple-appattest'') (Some [1])
        (Some (att_stmt (Some [[0xAA]]) None))) of
        Ok stmt \<Rightarrow> st_receipt stmt = [] | _ \<Rightarrow> False)"

definition cbor_rejects_non_cbor :: "crates \<Rightarrow> bool" where
  "cbor_rejects_non_cbor X \<longleftrightarrow>
     is_cbor (decode_attestation_object X [0xFF, 0xFF])"

definition cbor_rejects_truncated_cbor :: "crates \<Rightarrow> (cbor_value \<Rightarrow> bytes) \<Rightarrow> bool" where
  "cbor_rejects_truncated_cbor X W \<longleftrightarrow>
     (let bs = build_object W (Some ''apple-appattest'') (Some [1, 2, 3])
                 (Some (att_stmt (Some [[0xAA]]) None)) in
      is_err (decode_attestation_object X (take (length bs div 2) bs)))"

definition rejects_top_level_not_map :: "crates \<Rightarrow> (cbor_value \<Rightarrow> bytes) \<Rightarrow> bool" where
  "rejects_top_level_not_map X W \<longleftrightarrow>
     is_cbor (decode_attestation_object X (W (CArray [])))"

definition rejects_missing_fmt :: "crates \<Rightarrow> (cbor_value \<Rightarrow> bytes) \<Rightarrow> bool" where
  "rejects_missing_fmt X W \<longleftrightarrow>
     is_cbor (decode_attestation_object X (build_object W None (Some [1])
       (Some (att_stmt (Some [[0xAA]]) None))))"

definition rejects_missing_auth_data :: "crates \<Rightarrow> (cbor_value \<Rightarrow> bytes) \<Rightarrow> bool" where
  "rejects_missing_auth_data X W \<longleftrightarrow>
     is_cbor (decode_attestation_object X (build_object W (Some ''apple-appattest'') None
       (Some (att_stmt (Some [[0xAA]]) None))))"

definition rejects_missing_att_stmt :: "crates \<Rightarrow> (cbor_value \<Rightarrow> bytes) \<Rightarrow> bool" where
  "rejects_missing_att_stmt X W \<longleftrightarrow>
     is_cbor (decode_attestation_object X (build_object W (Some ''apple-appattest'') (Some [1]) None))"

definition rejects_missing_x5c :: "crates \<Rightarrow> (cbor_value \<Rightarrow> bytes) \<Rightarrow> bool" where
  "rejects_missing_x5c X W \<longleftrightarrow>
     is_cbor (decode_attestation_object X (build_object W (Some ''apple-appattest'') (Some [1])
       (Some (att_stmt None (Some [9])))))"

definition rejects_x5c_not_array :: "crates \<Rightarrow> (cbor_value \<Rightarrow> bytes) \<Rightarrow> bool" where
  "rejects_x5c_not_array X W \<longleftrightarrow>
     is_cbor (decode_attestation_object X (build_object W (Some ''apple-appattest'') (Some [1])
       (Some (CMap [(CText ''x5c'', CText ''not-an-array'')]))))"

definition rejects_x5c_element_not_bytes :: "crates \<Rightarrow> (cbor_value \<Rightarrow> bytes) \<Rightarrow> bool" where
  "rejects_x5c_element_not_bytes X W \<longleftrightarrow>
     is_cbor (decode_attestation_object X (build_object W (Some ''apple-appattest'') (Some [1])
       (Some (CMap [(CText ''x5c'', CArray [CText ''not-bytes''])]))))"

definition rejects_att_stmt_not_map :: "crates \<Rightarrow> (cbor_value \<Rightarrow> bytes) \<Rightarrow> bool" where
  "rejects_att_stmt_not_map X W \<longleftrightarrow>
     is_cbor (decode_attestation_object X (build_object W (Some ''apple-appattest'') (Some [1])
       (Some (CText ''not-a-map''))))"

definition fmt_is_preserved_for_wrong_format :: "crates \<Rightarrow> (cbor_value \<Rightarrow> bytes) \<Rightarrow> bool" where
  "fmt_is_preserved_for_wrong_format X W \<longleftrightarrow>
     (case decode_attestation_object X (build_object W (Some ''android-key'') (Some [1])
        (Some (att_stmt (Some [[0xAA]]) None))) of
        Ok stmt \<Rightarrow> st_fmt stmt = ''android-key'' | _ \<Rightarrow> False)"

lemma object_read:
  "ciborium_ok X W \<Longrightarrow> cbor_encodable (object_value fmt ad stmt) \<Longrightarrow>
   cbor_from_reader X (build_object W fmt ad stmt) = Inr (object_value fmt ad stmt)"
  by (simp add: build_object_def ciborium_readD)

lemma cbor_tests_pass:
  assumes "ciborium_ok X W"
  shows "decodes_well_formed_object X W"
    "receipt_is_optional X W"
    "cbor_rejects_non_cbor X"
    "cbor_rejects_truncated_cbor X W"
    "rejects_top_level_not_map X W"
    "rejects_missing_fmt X W"
    "rejects_missing_auth_data X W"
    "rejects_missing_att_stmt X W"
    "rejects_missing_x5c X W"
    "rejects_x5c_not_array X W"
    "rejects_x5c_element_not_bytes X W"
    "rejects_att_stmt_not_map X W"
    "fmt_is_preserved_for_wrong_format X W"
proof -
  note read = object_read [OF assms] object_value_def att_stmt_def decode_attestation_object_def
    x5c_certs_def
  show "decodes_well_formed_object X W"
    "receipt_is_optional X W"
    "rejects_missing_fmt X W"
    "rejects_missing_auth_data X W"
    "rejects_missing_att_stmt X W"
    "rejects_missing_x5c X W"
    "rejects_x5c_not_array X W"
    "rejects_x5c_element_not_bytes X W"
    "rejects_att_stmt_not_map X W"
    "fmt_is_preserved_for_wrong_format X W"
    by (simp_all add: decodes_well_formed_object_def
        receipt_is_optional_def
        rejects_missing_fmt_def
        rejects_missing_auth_data_def
        rejects_missing_att_stmt_def
        rejects_missing_x5c_def
        rejects_x5c_not_array_def
        rejects_x5c_element_not_bytes_def
        rejects_att_stmt_not_map_def
        fmt_is_preserved_for_wrong_format_def read)
  have "isl (cbor_from_reader X [0xFF, 0xFF])"
    using assms by (simp add: ciborium_ok_def)
  then show "cbor_rejects_non_cbor X"
    by (auto simp: cbor_rejects_non_cbor_def decode_attestation_object_def isl_def)
  have "cbor_from_reader X (W (CArray [])) = Inr (CArray [])"
    using assms by (rule ciborium_readD) simp
  then show "rejects_top_level_not_map X W"
    by (simp add: rejects_top_level_not_map_def decode_attestation_object_def)
  let ?v = "object_value (Some ''apple-appattest'') (Some [1, 2, 3]) (Some (att_stmt (Some [[0xAA]]) None))"
  have "cbor_encodable ?v" by (simp add: object_value_def att_stmt_def)
  then obtain e where "cbor_from_reader X (take (length (W ?v) div 2) (W ?v)) = Inl e"
    by (rule ciborium_halfE [OF assms])
  then show "cbor_rejects_truncated_cbor X W"
    by (simp add: cbor_rejects_truncated_cbor_def Let_def decode_attestation_object_def build_object_def)
qed

section \<open>assertion.rs\<close>

definition APP_ID :: string where
  "APP_ID = ''5354N269JS.com.unconfirmedlabs.attestkitdemo''"

definition CLOCK :: u64 where
  "CLOCK = 1779200000000"

text \<open>
  The key pair of the tests: a DER signature has at most 72 bytes, and it parses and verifies
  under the public key, which parses.
\<close>

definition keypair_ok :: "crates \<Rightarrow> (bytes \<Rightarrow> bytes) \<Rightarrow> bytes \<Rightarrow> bool" where
  "keypair_ok X sk pk \<longleftrightarrow> (\<exists>key. p256_key_from_sec1 X pk = Inr key
     \<and> (\<forall>d. length (sk d) \<le> 72
          \<and> (\<exists>s. p256_signature_from_der X (sk d) = Inr s \<and> p256_verify_prehash X key d s)))"

definition happy_path_valid_assertion_verifies ::
    "crates \<Rightarrow> (cbor_value \<Rightarrow> bytes) \<Rightarrow> (bytes \<Rightarrow> bytes) \<Rightarrow> bytes \<Rightarrow> bool" where
  "happy_path_valid_assertion_verifies X W sk pk \<longleftrightarrow>
     (let client_data = as_bytes ''per-action payload for this assertion'';
          ad = auth_data_for X APP_ID 1;
          sig = sign X sk ad client_data;
          blob = encode_assertion W sig ad in
      case verify_assertion X blob client_data pk APP_ID CLOCK of
        Ok out \<Rightarrow> source out = APPLE_APP_ATTEST_ASSERTION \<and> attested_value out = pk
          \<and> challenge out = client_data \<and> timestamp_ms out = CLOCK
          \<and> detail_hash out = sha256 X blob
      | _ \<Rightarrow> False)"

definition wrong_app_id_rejected_before_signature_check ::
    "crates \<Rightarrow> (cbor_value \<Rightarrow> bytes) \<Rightarrow> (bytes \<Rightarrow> bytes) \<Rightarrow> bytes \<Rightarrow> bool" where
  "wrong_app_id_rejected_before_signature_check X W sk pk \<longleftrightarrow>
     (let client_data = as_bytes ''payload'';
          ad = auth_data_for X APP_ID 1;
          sig = sign X sk ad client_data;
          blob = encode_assertion W sig ad in
      verify_assertion X blob client_data pk ''OTHER.app.id'' CLOCK = Err RpIdHashMismatch)"

definition auth_data_too_short_rejected ::
    "crates \<Rightarrow> (cbor_value \<Rightarrow> bytes) \<Rightarrow> (bytes \<Rightarrow> bytes) \<Rightarrow> bytes \<Rightarrow> bool" where
  "auth_data_too_short_rejected X W sk pk \<longleftrightarrow>
     (let short = replicate 36 0;
          sig = sign X sk short (as_bytes ''x'');
          blob = encode_assertion W sig short in
      is_cbor (verify_assertion X blob (as_bytes ''x'') pk APP_ID CLOCK))"

definition assertion_not_cbor_map_rejected :: "crates \<Rightarrow> (cbor_value \<Rightarrow> bytes) \<Rightarrow> bool" where
  "assertion_not_cbor_map_rejected X W \<longleftrightarrow>
     is_cbor (verify_assertion X (W (CArray [CInteger 1])) (as_bytes ''x'') (replicate 65 0) APP_ID CLOCK)"

definition assertion_missing_signature_field_rejected ::
    "crates \<Rightarrow> (cbor_value \<Rightarrow> bytes) \<Rightarrow> bool" where
  "assertion_missing_signature_field_rejected X W \<longleftrightarrow>
     (let blob = W (CMap [(CText ''authenticatorData'', CBytes (auth_data_for X APP_ID 1))]) in
      is_cbor (verify_assertion X blob (as_bytes ''x'') (replicate 65 0) APP_ID CLOCK))"

definition assertion_missing_auth_data_field_rejected ::
    "crates \<Rightarrow> (cbor_value \<Rightarrow> bytes) \<Rightarrow> bool" where
  "assertion_missing_auth_data_field_rejected X W \<longleftrightarrow>
     (let blob = W (CMap [(CText ''signature'', CBytes [0x30, 0x06])]) in
      is_cbor (verify_assertion X blob (as_bytes ''x'') (replicate 65 0) APP_ID CLOCK))"

definition truncated_cbor_rejected ::
    "crates \<Rightarrow> (cbor_value \<Rightarrow> bytes) \<Rightarrow> (bytes \<Rightarrow> bytes) \<Rightarrow> bytes \<Rightarrow> bool" where
  "truncated_cbor_rejected X W sk pk \<longleftrightarrow>
     (let client_data = as_bytes ''payload'';
          ad = auth_data_for X APP_ID 1;
          sig = sign X sk ad client_data;
          blob = encode_assertion W sig ad in
      is_cbor (verify_assertion X (take (length blob div 2) blob) client_data pk APP_ID CLOCK))"

definition unparseable_attested_key_rejected ::
    "crates \<Rightarrow> (cbor_value \<Rightarrow> bytes) \<Rightarrow> (bytes \<Rightarrow> bytes) \<Rightarrow> bool" where
  "unparseable_attested_key_rejected X W sk \<longleftrightarrow>
     (let client_data = as_bytes ''payload'';
          ad = auth_data_for X APP_ID 1;
          sig = sign X sk ad client_data;
          blob = encode_assertion W sig ad in
      is_der (verify_assertion X blob client_data (replicate 65 0) APP_ID CLOCK))"

section \<open>lib.rs\<close>

definition wrong_format_is_rejected :: "crates \<Rightarrow> (cbor_value \<Rightarrow> bytes) \<Rightarrow> bytes \<Rightarrow> bool" where
  "wrong_format_is_rejected X W root_der \<longleftrightarrow>
     (let val = CMap [(CText ''fmt'', CText ''wrong''), (CText ''authData'', CBytes []),
                      (CText ''attStmt'', CMap [(CText ''x5c'', CArray [])])] in
      case verify_app_attest X root_der (W val) [] [] ''team.bundle'' False 0 of
        Err (WrongFormat f) \<Rightarrow> True | _ \<Rightarrow> False)"

lemma assertion_encodable:
  "length sig \<le> 72 \<Longrightarrow> length ad \<le> 37 \<Longrightarrow> cbor_encodable (assertion_value sig ad)"
  by (simp add: assertion_value_def)

lemma verify_encoded_assertion:
  assumes "ciborium_ok X W" "length sig \<le> 72" "length ad \<le> 37"
  shows "verify_assertion X (encode_assertion W sig ad) cd pk app_id t =
    (case assertion_verdict X sig ad cd pk app_id of
       Some e \<Rightarrow> Err e
     | None \<Rightarrow> Ok \<lparr>source = APPLE_APP_ATTEST_ASSERTION, attested_value = pk, challenge = cd,
                   timestamp_ms = t, detail_hash = sha256 X (encode_assertion W sig ad)\<rparr>)"
  using ciborium_readD [OF assms(1) assertion_encodable [OF assms(2,3)]]
  by (intro verify_assertion_decoded decode_assertion_encoded) (simp add: encode_assertion_def)

text \<open>The tests that sign, and those whose object is malformed.\<close>

lemma signed_assertion_tests_pass:
  assumes "ciborium_ok X W" "sha256_ok X" "keypair_ok X sk pk"
    "sha256 X (as_bytes APP_ID) \<noteq> sha256 X (as_bytes ''OTHER.app.id'')"
    "isl (p256_key_from_sec1 X (replicate 65 0))"
  shows "happy_path_valid_assertion_verifies X W sk pk"
    "wrong_app_id_rejected_before_signature_check X W sk pk" "auth_data_too_short_rejected X W sk pk"
    "unparseable_attested_key_rejected X W sk"
proof -
  have sk: "length (sign X sk ad cd) \<le> 72" for ad cd
    using assms(3) by (auto simp: keypair_ok_def sign_def)
  note ad = auth_data_for_simps [OF assms(2)]
  note verify = verify_encoded_assertion [OF assms(1) sk]
  have honest: "assertion_verdict X (sign X sk (auth_data_for X APP_ID 1) cd) (auth_data_for X APP_ID 1)
      cd pk APP_ID = None" for cd
  proof -
    from assms(3) obtain key s where "p256_key_from_sec1 X pk = Inr key"
      "p256_signature_from_der X (sign X sk (auth_data_for X APP_ID 1) cd) = Inr s"
      "p256_verify_prehash X key (sha256 X (auth_data_for X APP_ID 1 @ sha256 X cd)) s"
      unfolding keypair_ok_def sign_def by blast
    with assms(2) show ?thesis by (rule assertion_verdict_honest)
  qed
  show "happy_path_valid_assertion_verifies X W sk pk"
    by (simp add: happy_path_valid_assertion_verifies_def Let_def verify ad honest)
  show "wrong_app_id_rejected_before_signature_check X W sk pk"
    using assms(4)
    by (simp add: wrong_app_id_rejected_before_signature_check_def Let_def verify ad assertion_verdict_def)
  show "auth_data_too_short_rejected X W sk pk"
    by (simp add: auth_data_too_short_rejected_def Let_def verify assertion_verdict_def)
  from assms(5) obtain e where "p256_key_from_sec1 X (replicate 65 0) = Inl e" by (auto simp: isl_def)
  then show "unparseable_attested_key_rejected X W sk"
    by (simp add: unparseable_attested_key_rejected_def Let_def verify ad assertion_verdict_def)
qed

lemma malformed_assertion_tests_pass:
  assumes "ciborium_ok X W" "sha256_ok X"
  shows "assertion_not_cbor_map_rejected X W" "assertion_missing_signature_field_rejected X W"
    "assertion_missing_auth_data_field_rejected X W"
proof -
  have "cbor_from_reader X (W (CArray [CInteger 1])) = Inr (CArray [CInteger 1])"
    "cbor_from_reader X (W (CMap [(CText ''authenticatorData'', CBytes (auth_data_for X APP_ID 1))]))
      = Inr (CMap [(CText ''authenticatorData'', CBytes (auth_data_for X APP_ID 1))])"
    "cbor_from_reader X (W (CMap [(CText ''signature'', CBytes [0x30, 0x06])]))
      = Inr (CMap [(CText ''signature'', CBytes [0x30, 0x06])])"
    by (rule ciborium_readD [OF assms(1)], simp add: auth_data_for_simps [OF assms(2)])+
  then show "assertion_not_cbor_map_rejected X W" "assertion_missing_signature_field_rejected X W"
    "assertion_missing_auth_data_field_rejected X W"
    by (simp_all add: assertion_not_cbor_map_rejected_def assertion_missing_signature_field_rejected_def
        assertion_missing_auth_data_field_rejected_def Let_def verify_assertion_def decode_assertion_def)
qed

lemma truncated_assertion_test_passes:
  assumes "ciborium_ok X W" "sha256_ok X" "keypair_ok X sk pk"
  shows "truncated_cbor_rejected X W sk pk"
proof -
  let ?v = "assertion_value (sign X sk (auth_data_for X APP_ID 1) (as_bytes ''payload''))
    (auth_data_for X APP_ID 1)"
  have "length (sign X sk ad cd) \<le> 72" for ad cd
    using assms(3) by (auto simp: keypair_ok_def sign_def)
  then have "cbor_encodable ?v"
    by (intro assertion_encodable) (simp_all add: auth_data_for_simps [OF assms(2)])
  then obtain e where "cbor_from_reader X (take (length (W ?v) div 2) (W ?v)) = Inl e"
    by (rule ciborium_halfE [OF assms(1)])
  then show "truncated_cbor_rejected X W sk pk"
    by (simp add: truncated_cbor_rejected_def encode_assertion_def Let_def verify_assertion_def
        decode_assertion_def)
qed

lemma format_test_passes:
  assumes "ciborium_ok X W"
  shows "wrong_format_is_rejected X W root_der"
proof -
  let ?v = "CMap [(CText ''fmt'', CText ''wrong''), (CText ''authData'', CBytes []),
      (CText ''attStmt'', CMap [(CText ''x5c'', CArray [])])]"
  have "cbor_from_reader X (W ?v) = Inr ?v"
    by (rule ciborium_readD [OF assms]) simp
  then show ?thesis
    by (simp add: wrong_format_is_rejected_def verify_app_attest_def decode_attestation_object_def
        x5c_certs_def)
qed

end
