(* ===== verification/Android_Tests.thy ===== *)
theory Android_Tests
  imports Android_Verify
begin

text \<open>
  The unit tests of \<open>attest-android\<close> that do not only exercise a crate (the modules \<open>tests\<close> of
  \<open>status_list.rs\<close> and \<open>smoke\<close> of \<open>lib.rs\<close>), run in the model. The tests of \<open>roots.rs\<close>, that the
  two pinned certificates parse and verify under themselves, are in \<open>Fixture_Tests\<close>.
\<close>

section \<open>status_list.rs\<close>

definition status_list_test_json :: string where
  "status_list_test_json =
     ''{'' @ [CHR 0x0A] @ replicate 12 CHR 0x20 @ ''\"entries\": {'' @ [CHR 0x0A]
     @ replicate 16 CHR 0x20
     @ ''\"abc123\": {\"status\": \"REVOKED\", \"reason\": \"KEY_COMPROMISE\"},'' @ [CHR 0x0A]
     @ replicate 16 CHR 0x20
     @ ''\"DEAD\": {\"status\": \"SUSPENDED\", \"reason\": \"SOFTWARE_FLAW\"}'' @ [CHR 0x0A]
     @ replicate 12 CHR 0x20 @ ''}'' @ [CHR 0x0A]
     @ replicate 8 CHR 0x20 @ ''}''"

definition parse_basic_status_list :: "(string \<Rightarrow> string) \<Rightarrow> bool" where
  "parse_basic_status_list lower \<longleftrightarrow>
     (case status_list_from_json lower status_list_test_json of
        Ok l \<Rightarrow> status_list_len l = 2
          \<and> (case lookup_serial l ''abc123'' of
               Some e1 \<Rightarrow> entry_status e1 = ''REVOKED'' \<and> entry_reason e1 = ''KEY_COMPROMISE''
             | None \<Rightarrow> False)
          \<and> (case lookup_serial l ''dead'' of
               Some e2 \<Rightarrow> entry_status e2 = ''SUSPENDED'' | None \<Rightarrow> False)
      | _ \<Rightarrow> False)"

definition parse_empty_list :: "(string \<Rightarrow> string) \<Rightarrow> bool" where
  "parse_empty_list lower \<longleftrightarrow>
     (case status_list_from_json lower ''{\"entries\":{}}'' of
        Ok l \<Rightarrow> status_list_is_empty l | _ \<Rightarrow> False)"

section \<open>lib.rs\<close>

definition empty_chain_rejected :: "crates \<Rightarrow> bytes list \<Rightarrow> bool" where
  "empty_chain_rejected X roots \<longleftrightarrow>
     verify_attestation X roots [] (as_bytes ''x'') policy_default 0 = Err EmptyChain"

lemma parse_basic_status_list_passes: "parse_basic_status_list lower"
  by code_simp

lemma parse_empty_list_passes: "parse_empty_list lower"
  by code_simp

lemma empty_chain_rejected_passes: "empty_chain_rejected X roots"
  by (simp add: empty_chain_rejected_def verify_attestation_def android_validate_chain_def)

end
