(* ===== verification/Enclave_Http.thy ===== *)
theory Enclave_Http
  imports Enclave_Server "HOL-Library.Countable"
begin

text \<open>
  The HTTP surface of the enclave server (\<open>app\<close> and the request structs of
  \<open>rust/enclave-server/src/main.rs\<close>): from a request to the status code and the body of its
  answer. The router and the \<open>Json\<close> extractor are those of \<open>axum\<close>, an argument
  (\<open>http_stack\<close>); \<open>http_ok\<close> states what its documentation says of them. The derived
  \<open>Deserialize\<close> of the request structs, with their \<open>serde(default)\<close> attributes, is written out over
  JSON values. The theorems say which status codes a client can get, which part of a request an
  error names, and what a successful answer is worth.
\<close>

section \<open>Requests and answers\<close>

datatype json =
    JNull | JBool bool | JNumber string | JString string
  | JArray "json list" | JObject "(string \<times> json) list"

record http_request =
  http_method :: string
  http_path :: string
  http_content_type :: "string option"
  http_body :: bytes

datatype response_body =
    HealthJson health_body
  | DocumentJson attestation_doc_body
  | AttestJson attest_response
  | AssertionJson assertion_response
  | ErrorJson string
  | RejectionText string
  | NoBody

type_synonym http_response = "nat \<times> response_body"

text \<open>
  \<open>json_extract\<close> is \<open>Json<T>\<close> for the type whose deserializer accepts the given values: the value,
  or the status and the text of a rejection. \<open>json_text\<close> is \<open>serde_json::to_vec\<close>.
\<close>

record http_stack =
  router :: "(string \<times> (string \<times> handler)) list \<Rightarrow> http_request \<Rightarrow> nat + handler"
  json_extract :: "(json \<Rightarrow> bool) \<Rightarrow> http_request \<Rightarrow> (nat \<times> string) + json"
  json_text :: "json \<Rightarrow> bytes"

section \<open>Deserializing the request structs\<close>

fun json_string :: "json \<Rightarrow> string option" where
  "json_string (JString s) = Some s"
| "json_string _ = None"

fun json_bool :: "json \<Rightarrow> bool option" where
  "json_bool (JBool b) = Some b"
| "json_bool _ = None"

fun json_option_string :: "json \<Rightarrow> string option option" where
  "json_option_string JNull = Some None"
| "json_option_string (JString s) = Some (Some s)"
| "json_option_string _ = None"

fun all_strings :: "json list \<Rightarrow> string list option" where
  "all_strings [] = Some []"
| "all_strings (v # vs) =
     Option.bind (json_string v) (\<lambda>s. map_option (\<lambda>ss. s # ss) (all_strings vs))"

fun json_strings :: "json \<Rightarrow> string list option" where
  "json_strings (JArray vs) = all_strings vs"
| "json_strings _ = None"

text \<open>
  A struct is read from an object, whose unknown members are skipped, or from an array of the
  fields in their order. A field that occurs twice is an error; one that is missing is too, unless
  it has a default.
\<close>

definition struct_members :: "string list \<Rightarrow> json \<Rightarrow> (string \<times> json) list option" where
  "struct_members names v =
     (case v of
        JObject ms \<Rightarrow> Some ms
      | JArray vs \<Rightarrow> if length vs \<le> length names then Some (zip names vs) else None
      | _ \<Rightarrow> None)"

definition member_values :: "(string \<times> json) list \<Rightarrow> string \<Rightarrow> json list" where
  "member_values ms k = map snd (filter (\<lambda>m. fst m = k) ms)"

definition required :: "(string \<times> json) list \<Rightarrow> string \<Rightarrow> (json \<Rightarrow> 'a option) \<Rightarrow> 'a option" where
  "required ms k f = (case member_values ms k of [v] \<Rightarrow> f v | _ \<Rightarrow> None)"

definition defaulted :: "(string \<times> json) list \<Rightarrow> string \<Rightarrow> (json \<Rightarrow> 'a option) \<Rightarrow> 'a option option" where
  "defaulted ms k f =
     (case member_values ms k of [] \<Rightarrow> Some None | [v] \<Rightarrow> map_option Some (f v) | _ \<Rightarrow> None)"

definition apple_request_of_json :: "json \<Rightarrow> apple_request option" where
  "apple_request_of_json v =
     Option.bind (struct_members [''attestation_object_hex'', ''key_id_hex'', ''challenge_hex'',
                                  ''app_id'', ''production''] v) (\<lambda>ms.
     Option.bind (required ms ''attestation_object_hex'' json_string) (\<lambda>obj.
     Option.bind (required ms ''key_id_hex'' json_string) (\<lambda>key_id.
     Option.bind (required ms ''challenge_hex'' json_string) (\<lambda>chal.
     Option.bind (required ms ''app_id'' json_string) (\<lambda>app_id.
     Option.bind (required ms ''production'' json_bool) (\<lambda>prod.
     Some \<lparr>attestation_object_hex = obj, key_id_hex = key_id, apple_challenge_hex = chal,
           apple_app_id = app_id, production = prod\<rparr>))))))"

definition assertion_request_of_json :: "json \<Rightarrow> apple_assertion_request option" where
  "assertion_request_of_json v =
     Option.bind (struct_members [''assertion_object_hex'', ''client_data_hex'',
                                  ''attested_key_hex'', ''app_id''] v) (\<lambda>ms.
     Option.bind (required ms ''assertion_object_hex'' json_string) (\<lambda>obj.
     Option.bind (required ms ''client_data_hex'' json_string) (\<lambda>data.
     Option.bind (required ms ''attested_key_hex'' json_string) (\<lambda>key.
     Option.bind (required ms ''app_id'' json_string) (\<lambda>app_id.
     Some \<lparr>assertion_object_hex = obj, client_data_hex = data, attested_key_hex = key,
           assertion_app_id = app_id\<rparr>)))))"

definition android_request_from_json :: "json \<Rightarrow> android_request option" where
  "android_request_from_json v =
     Option.bind (struct_members [''chain_hex'', ''challenge_hex'', ''min_security_level'',
                                  ''require_verified_boot'', ''require_device_locked'',
                                  ''allowed_self_signed_keys_hex'', ''status_list_json''] v) (\<lambda>ms.
     Option.bind (required ms ''chain_hex'' json_strings) (\<lambda>chain.
     Option.bind (required ms ''challenge_hex'' json_string) (\<lambda>chal.
     Option.bind (defaulted ms ''min_security_level'' json_option_string) (\<lambda>level.
     Option.bind (defaulted ms ''require_verified_boot'' json_bool) (\<lambda>boot.
     Option.bind (defaulted ms ''require_device_locked'' json_bool) (\<lambda>locked.
     Option.bind (defaulted ms ''allowed_self_signed_keys_hex'' json_strings) (\<lambda>keys.
     Option.bind (defaulted ms ''status_list_json'' json_option_string) (\<lambda>status.
     Some (android_request_of_json chain chal (Option.bind level (\<lambda>l. l)) boot locked keys
             (Option.bind status (\<lambda>s. s)))))))))))"

section \<open>Answering a request\<close>

text \<open>\<open>Json(req): Json<T>\<close> in front of a handler.\<close>

definition with_json :: "http_stack \<Rightarrow> (json \<Rightarrow> 'r option) \<Rightarrow> http_request
    \<Rightarrow> ('r \<Rightarrow> (http_response, unit) result) \<Rightarrow> (http_response, unit) result" where
  "with_json H of_json req handle =
     (case json_extract H (\<lambda>v. of_json v \<noteq> None) req of
        Inl (code, message) \<Rightarrow> Ok (code, RejectionText message)
      | Inr v \<Rightarrow> (case of_json v of Some r \<Rightarrow> handle r | None \<Rightarrow> Ok (422, RejectionText [])))"

definition answer :: "('b \<Rightarrow> response_body) \<Rightarrow> ('b, attest_error) result \<Rightarrow> (http_response, unit) result"
  where
  "answer body r =
     (case r of
        Ok b \<Rightarrow> Ok (200, body b)
      | Err e \<Rightarrow> Ok (fst (into_response e), ErrorJson (snd (into_response e)))
      | Panic \<Rightarrow> Panic)"

fun run_handler :: "http_stack \<Rightarrow> environment \<Rightarrow> app_state \<Rightarrow> http_request \<Rightarrow> handler
    \<Rightarrow> (http_response, unit) result" where
  "run_handler H E state req Health = Ok (200, HealthJson (health E state))"
| "run_handler H E state req AttestationDoc =
     (case attestation_doc E state of
        Ok b \<Rightarrow> Ok (200, DocumentJson b)
      | Err (code, message) \<Rightarrow> Ok (code, ErrorJson message)
      | Panic \<Rightarrow> Panic)"
| "run_handler H E state req AppleAttestation =
     with_json H apple_request_of_json req (\<lambda>r. answer AttestJson (attest_apple_attestation E state r))"
| "run_handler H E state req AppleAssertion =
     with_json H assertion_request_of_json req (\<lambda>r. answer AssertionJson (attest_apple_assertion E state r))"
| "run_handler H E state req AndroidAttestation =
     with_json H android_request_from_json req (\<lambda>r. answer AttestJson (attest_android_attestation E state r))"

text \<open>The answer to a \<open>HEAD\<close> request is the one to \<open>GET\<close> without its body.\<close>

definition app :: "http_stack \<Rightarrow> environment \<Rightarrow> app_state \<Rightarrow> http_request \<Rightarrow> (http_response, unit) result"
  where
  "app H E state req =
     (case router H app_routes req of
        Inl code \<Rightarrow> Ok (code, NoBody)
      | Inr h \<Rightarrow>
          and_then (run_handler H E state req h) (\<lambda>(code, body).
          Ok (code, if http_method req = ''HEAD'' then NoBody else body)))"

section \<open>The documented behaviour of the stack\<close>

definition routed :: "(string \<times> (string \<times> handler)) list \<Rightarrow> http_request \<Rightarrow> nat + handler" where
  "routed routes req =
     (case map_of routes (http_path req) of
        None \<Rightarrow> Inl 404
      | Some (m, h) \<Rightarrow>
          if http_method req = m \<or> m = ''GET'' \<and> http_method req = ''HEAD'' then Inr h else Inl 405)"

text \<open>
  The router dispatches on the path, then on the method. The extractor looks at the headers and the
  body only; a body that is the text of an object is taken if the type accepts the object, and is
  a 422 otherwise; and a rejection is one of 400 (not JSON), 413 (too long), 415 (not declared as
  JSON) and 422.
\<close>

definition http_ok :: "http_stack \<Rightarrow> bool" where
  "http_ok H \<longleftrightarrow>
     (\<forall>routes req. router H routes req = routed routes req)
     \<and> (\<forall>acc req p. json_extract H acc (req\<lparr>http_path := p\<rparr>) = json_extract H acc req)
     \<and> (\<forall>acc req ms. http_content_type req = Some ''application/json'' \<longrightarrow>
          http_body req = json_text H (JObject ms) \<longrightarrow> length (http_body req) \<le> 2097152 \<longrightarrow>
          (if acc (JObject ms) then json_extract H acc req = Inr (JObject ms)
           else (\<exists>m. json_extract H acc req = Inl (422, m))))
     \<and> (\<forall>acc req. case json_extract H acc req of
          Inr v \<Rightarrow> acc v | Inl (code, m) \<Rightarrow> code \<in> {400, 413, 415, 422})"

lemma http_okD:
  assumes "http_ok H"
  shows "router H routes req = routed routes req"
    and "json_extract H acc (req\<lparr>http_path := p\<rparr>) = json_extract H acc req"
    and "json_extract H acc req = Inr v \<Longrightarrow> acc v"
    and "json_extract H acc req = Inl (code, m) \<Longrightarrow> code \<in> {400, 413, 415, 422}"
proof -
  show "router H routes req = routed routes req"
    "json_extract H acc (req\<lparr>http_path := p\<rparr>) = json_extract H acc req"
    using assms by (simp_all add: http_ok_def)
  have "case json_extract H acc req of Inr v \<Rightarrow> acc v | Inl (code, m) \<Rightarrow> code \<in> {400, 413, 415, 422}"
    using assms unfolding http_ok_def by blast
  then show "json_extract H acc req = Inr v \<Longrightarrow> acc v"
    "json_extract H acc req = Inl (code, m) \<Longrightarrow> code \<in> {400, 413, 415, 422}"
    by simp_all
qed

lemma json_extract_object:
  assumes "http_ok H" "http_content_type req = Some ''application/json''"
    "http_body req = json_text H (JObject ms)" "length (json_text H (JObject ms)) \<le> 2097152"
  shows "if acc (JObject ms) then json_extract H acc req = Inr (JObject ms)
    else (\<exists>m. json_extract H acc req = Inl (422, m))"
  using assms unfolding http_ok_def by metis

lemma app_routes_lookup:
  "map_of app_routes p =
     (if p = ''/health'' then Some (''GET'', Health)
      else if p = ''/attestation'' then Some (''GET'', AttestationDoc)
      else if p = ''/attest/apple/attestation'' \<or> p = ''/attest/apple'' then Some (''POST'', AppleAttestation)
      else if p = ''/attest/apple/assertion'' then Some (''POST'', AppleAssertion)
      else if p = ''/attest/android/attestation'' \<or> p = ''/attest/android'' then Some (''POST'', AndroidAttestation)
      else None)"
  by (simp add: app_routes_def)

section \<open>Which error a handler returns\<close>

definition is_hex :: "environment \<Rightarrow> string \<Rightarrow> bool" where
  "is_hex E h \<longleftrightarrow> \<not> isl (hex_decode E h)"

definition all_hex :: "environment \<Rightarrow> string list \<Rightarrow> bool" where
  "all_hex E hs \<longleftrightarrow> list_all (is_hex E) hs"

lemma all_hex_simps [simp]: "all_hex E []" "all_hex E (h # hs) \<longleftrightarrow> is_hex E h \<and> all_hex E hs"
  by (simp_all add: all_hex_def)

lemma is_hex_simps [simp]:
  "hex_decode E h = Inl m \<Longrightarrow> \<not> is_hex E h" "hex_decode E h = Inr b \<Longrightarrow> is_hex E h"
  by (simp_all add: is_hex_def)

text \<open>The first entry of a list that does not decode, with its position and the message.\<close>

definition first_bad :: "environment \<Rightarrow> string list \<Rightarrow> nat \<Rightarrow> string \<Rightarrow> bool" where
  "first_bad E hs i m \<longleftrightarrow>
     i < length hs \<and> all_hex E (take i hs) \<and> hex_decode E (hs ! i) = Inl m"

lemma first_bad_Cons:
  "first_bad E (h # hs) 0 m \<longleftrightarrow> hex_decode E h = Inl m"
  "first_bad E (h # hs) (Suc j) m \<longleftrightarrow> is_hex E h \<and> first_bad E hs j m"
  by (auto simp: first_bad_def)

lemma ex_nat_cases: "(\<exists>i :: nat. P i) \<longleftrightarrow> P 0 \<or> (\<exists>j. P (Suc j))"
  by (metis not0_implies_Suc)

lemma decode_hex_list_from_Err:
  "collect_results (\<lambda>(i, h). decode_hex E (name @ ''['' @ show_nat i @ '']'') h) (enumerate n hs) = Err e
   \<longleftrightarrow> (\<exists>i m. first_bad E hs i m \<and> e = InvalidHex (name @ ''['' @ show_nat (n + i) @ '']'') m)"
proof (induction hs arbitrary: n)
  case Nil
  then show ?case by (simp add: first_bad_def)
next
  case (Cons h hs)
  show ?case
  proof (cases "hex_decode E h")
    case (Inl m)
    then have "decode_hex E nm h = Err (InvalidHex nm m)" for nm by (simp add: decode_hex_def)
    with Inl show ?thesis by (subst ex_nat_cases) (auto simp: first_bad_Cons)
  next
    case (Inr b)
    then have "decode_hex E nm h = Ok b" for nm by (simp add: decode_hex_def)
    with Inr Cons [of "Suc n"] show ?thesis
      by (subst ex_nat_cases) (simp add: first_bad_Cons and_then_Err_iff)
  qed
qed

lemma decode_hex_list_Err_iff:
  "decode_hex_list E name hs = Err e \<longleftrightarrow>
     (\<exists>i m. first_bad E hs i m \<and> e = InvalidHex (name @ ''['' @ show_nat i @ '']'') m)"
  using decode_hex_list_from_Err [of E name 0 hs e] by (simp add: decode_hex_list_def)

lemma decode_hex_list_ok_iff: "(\<exists>bs. decode_hex_list E name hs = Ok bs) \<longleftrightarrow> all_hex E hs"
proof -
  have "(\<exists>bs. list_all2 (\<lambda>h b. hex_decode E h = Inr b) hs bs) \<longleftrightarrow> all_hex E hs"
    by (induction hs) (auto simp: list_all2_Cons1 is_hex_def isl_def, metis sum.exhaust)
  then show ?thesis by (simp add: decode_hex_list_Ok_iff)
qed

lemma decode_hex_Err_iff: "decode_hex E name h = Err e \<longleftrightarrow> (\<exists>m. hex_decode E h = Inl m \<and> e = InvalidHex name m)"
  by (cases "hex_decode E h") (auto simp: decode_hex_def)

lemma decode_hex_ok_iff: "(\<exists>b. decode_hex E name h = Ok b) \<longleftrightarrow> is_hex E h"
  by (cases "hex_decode E h") (auto simp: decode_hex_def)

text \<open>No step after the decoding of a request returns an \<open>InvalidHex\<close>.\<close>

lemma later_errors:
  "map_error VerifyFailed r \<noteq> Err (InvalidHex name m)"
  "map_error AndroidVerifyFailed r' \<noteq> Err (InvalidHex name m)"
  "payload_hash E parts \<noteq> Err (InvalidHex name m)"
  "request_nsm_attestation E pk ud \<noteq> Err (InvalidHex name m)"
  "parse_security_level s \<noteq> Err (InvalidHex name m)"
proof -
  show "map_error VerifyFailed r \<noteq> Err (InvalidHex name m)" by (cases r) auto
  show "map_error AndroidVerifyFailed r' \<noteq> Err (InvalidHex name m)" by (cases r') auto
  show "payload_hash E parts \<noteq> Err (InvalidHex name m)"
    by (cases "bcs_to_bytes E parts") (auto simp: payload_hash_def)
  show "request_nsm_attestation E pk ud \<noteq> Err (InvalidHex name m)"
    by (simp add: request_nsm_attestation_def Let_def split: nsm_response.split)
  show "parse_security_level s \<noteq> Err (InvalidHex name m)"
    by (simp add: parse_security_level_def Let_def)
qed

lemma later_steps:
  assumes "\<And>name m. r \<noteq> Err (InvalidHex name m)"
  shows "and_then r (\<lambda>out. and_then (payload_hash E (parts out)) (\<lambda>hash.
    and_then (request_nsm_attestation E pk hash) (\<lambda>d. Ok (resp out d)))) \<noteq> Err (InvalidHex name m)"
  using assms by (auto simp: and_then_Err_iff later_errors)

lemma apple_InvalidHex_iff:
  "attest_apple_attestation E state req = Err (InvalidHex name m) \<longleftrightarrow>
     hex_decode E (attestation_object_hex req) = Inl m \<and> name = ''attestation_object_hex''
     \<or> is_hex E (attestation_object_hex req) \<and> hex_decode E (key_id_hex req) = Inl m
         \<and> name = ''key_id_hex''
     \<or> is_hex E (attestation_object_hex req) \<and> is_hex E (key_id_hex req)
         \<and> hex_decode E (apple_challenge_hex req) = Inl m \<and> name = ''challenge_hex''"
  by (cases "hex_decode E (attestation_object_hex req)"; cases "hex_decode E (key_id_hex req)";
      cases "hex_decode E (apple_challenge_hex req)")
     (auto simp: attest_apple_attestation_def decode_hex_def Let_def later_steps later_errors)

lemma assertion_InvalidHex_iff:
  "attest_apple_assertion E state req = Err (InvalidHex name m) \<longleftrightarrow>
     hex_decode E (assertion_object_hex req) = Inl m \<and> name = ''assertion_object_hex''
     \<or> is_hex E (assertion_object_hex req) \<and> hex_decode E (client_data_hex req) = Inl m
         \<and> name = ''client_data_hex''
     \<or> is_hex E (assertion_object_hex req) \<and> is_hex E (client_data_hex req)
         \<and> hex_decode E (attested_key_hex req) = Inl m \<and> name = ''attested_key_hex''"
  by (cases "hex_decode E (assertion_object_hex req)"; cases "hex_decode E (client_data_hex req)";
      cases "hex_decode E (attested_key_hex req)")
     (auto simp: attest_apple_assertion_def decode_hex_def Let_def later_steps later_errors)

text \<open>The steps of the Android handler, one by one.\<close>

lemma InvalidHex_steps:
  "and_then (decode_hex_list E nm hs) f = Err (InvalidHex name m) \<longleftrightarrow>
     (\<exists>i. first_bad E hs i m \<and> name = nm @ ''['' @ show_nat i @ '']'')
     \<or> (\<exists>bs. decode_hex_list E nm hs = Ok bs \<and> f bs = Err (InvalidHex name m))"
  "and_then (decode_hex E nm h) g = Err (InvalidHex name m) \<longleftrightarrow>
     hex_decode E h = Inl m \<and> name = nm \<or> (\<exists>b. decode_hex E nm h = Ok b \<and> g b = Err (InvalidHex name m))"
  "and_then (parse_security_level s) k = Err (InvalidHex name m) \<longleftrightarrow>
     (\<exists>l. parse_security_level s = Ok l \<and> k l = Err (InvalidHex name m))"
  by (auto simp: and_then_Err_iff decode_hex_list_Err_iff decode_hex_Err_iff later_errors)

lemma android_InvalidHex_iff:
  "attest_android_attestation E state req = Err (InvalidHex name m) \<longleftrightarrow>
     (\<exists>i. first_bad E (chain_hex req) i m \<and> name = ''chain'' @ ''['' @ show_nat i @ '']'')
     \<or> all_hex E (chain_hex req) \<and>
        (hex_decode E (android_challenge_hex req) = Inl m \<and> name = ''challenge_hex''
         \<or> is_hex E (android_challenge_hex req)
            \<and> (\<exists>l. parse_security_level (request_min_security_level req) = Ok l)
            \<and> (\<exists>i. first_bad E (allowed_self_signed_keys_hex req) i m
                 \<and> name = ''allowed_self_signed_keys_hex'' @ ''['' @ show_nat i @ '']''))"
proof -
  have status: "and_then (case status_list_json req of
        None \<Rightarrow> Ok None
      | Some json \<Rightarrow> map_error AndroidVerifyFailed
          (and_then (status_list_from_json (unicode_lower E) json) (\<lambda>l. Ok (Some l))))
      (\<lambda>l. and_then (map_error AndroidVerifyFailed (r l)) (\<lambda>out.
        and_then (payload_hash E (android_payload out)) (\<lambda>hash.
        and_then (request_nsm_attestation E (verifying_key state) hash) (\<lambda>d. Ok (resp out d)))))
      \<noteq> Err (InvalidHex name m)" for r resp
    by (auto simp: and_then_Err_iff later_errors split: option.split)
  show ?thesis
    unfolding attest_android_attestation_def Let_def
    by (simp only: InvalidHex_steps status simp_thms ex_simps)
       (auto simp: decode_hex_list_ok_iff [symmetric, of _ _ "''chain''"]
          decode_hex_ok_iff [symmetric, of _ _ "''challenge_hex''"])
qed

section \<open>Status codes\<close>

lemma with_json_cases:
  assumes "http_ok H"
  obtains (rejected) code m where "with_json H of_json req handle = Ok (code, RejectionText m)"
      "code \<in> {400, 413, 415, 422}"
  | (handled) r where "with_json H of_json req handle = handle r"
proof (cases "json_extract H (\<lambda>v. of_json v \<noteq> None) req")
  case (Inl cm)
  then show thesis
    using rejected http_okD(4) [OF assms, of _ req] by (cases cm) (simp add: with_json_def)
next
  case (Inr v)
  then have "of_json v \<noteq> None" using http_okD(3) [OF assms, of _ req v] by blast
  with Inr show thesis using handled by (auto simp: with_json_def)
qed

lemma answer_cases:
  assumes "r \<noteq> Panic"
  obtains (ok) b where "r = Ok b" "answer body r = Ok (200, body b)"
  | (refused) e where "r = Err e" "answer body r = Ok (400, ErrorJson (attest_error_display e))"
  using assms by (cases r) (auto simp: answer_def into_response_def)

lemma with_json_answer:
  assumes "http_ok H" "\<And>r. f r \<noteq> Panic"
  shows "\<exists>code body'. with_json H of_json req (\<lambda>r. answer body (f r)) = Ok (code, body')
    \<and> code \<in> {200, 400, 413, 415, 422}"
  using assms(1)
proof (cases rule: with_json_cases [of H of_json req "\<lambda>r. answer body (f r)"])
  case (rejected code m)
  then show ?thesis by auto
next
  case (handled r)
  show ?thesis
    by (rule answer_cases [where r = "f r" and body = body, OF assms(2)]) (simp_all add: handled)
qed

lemma attestation_doc_cases:
  obtains b where "attestation_doc E state = Ok b"
  | code m where "attestation_doc E state = Err (code, m)" "code = 501 \<or> code = 500"
  by (cases "nsm_init E < 0"; cases "nsm_process_request E (nsm_init E) (verifying_key state) []")
     (auto simp: attestation_doc_eq)

lemma run_handler_status:
  assumes "http_ok H" "crate_times_ok (env_crates E)"
  shows "\<exists>code body. run_handler H E state req h = Ok (code, body) \<and>
    code \<in> (case h of Health \<Rightarrow> {200} | AttestationDoc \<Rightarrow> {200, 500, 501}
            | _ \<Rightarrow> {200, 400, 413, 415, 422})"
proof (cases h)
  case AttestationDoc
  show ?thesis
    by (rule attestation_doc_cases [of E state]) (auto simp: AttestationDoc)
qed (use with_json_answer [OF assms(1) handlers_not_Panic(1) [OF assms(2)]]
    with_json_answer [OF assms(1) handlers_not_Panic(2) [OF assms(2)]]
    with_json_answer [OF assms(1) handlers_not_Panic(3) [OF assms(2)]] in simp_all)

text \<open>Where a 200 with the document of an attestation comes from.\<close>

lemma with_json_served:
  assumes "http_ok H" "with_json H of_json req (\<lambda>r. answer body (f r)) = Ok (200, b)"
  obtains r x where "f r = Ok x" "b = body x"
  using assms(1)
proof (cases rule: with_json_cases [of H of_json req "\<lambda>r. answer body (f r)"])
  case (rejected code m)
  with assms(2) show thesis by auto
next
  case (handled r)
  with assms(2) that show thesis
    by (cases "f r") (auto simp: answer_def into_response_def)
qed

section \<open>A sample stack\<close>

text \<open>JSON text is not modelled; any code of the values will do.\<close>

instance json :: countable
  by countable_datatype

definition sample_json_text :: "json \<Rightarrow> bytes" where
  "sample_json_text v = replicate (to_nat v) 0"

definition sample_stack :: http_stack where
  "sample_stack =
     \<lparr>router = routed,
      json_extract = (\<lambda>acc req.
        if http_content_type req \<noteq> Some ''application/json'' then Inl (415, ''content type'')
        else (let v = from_nat (length (http_body req)) in
              if acc v then Inr v else Inl (422, ''unexpected value''))),
      json_text = sample_json_text\<rparr>"

lemma sample_stack_ok: "http_ok sample_stack"
  by (auto simp: http_ok_def sample_stack_def sample_json_text_def Let_def)

definition sample_post :: "string \<Rightarrow> json \<Rightarrow> http_request" where
  "sample_post path v = \<lparr>http_method = ''POST'', http_path = path,
     http_content_type = Some ''application/json'', http_body = sample_json_text v\<rparr>"

definition sample_apple_json :: json where
  "sample_apple_json = JObject
     [(''attestation_object_hex'', JString (str_of_bytes [1])),
      (''key_id_hex'', JString (str_of_bytes (sample_hash sample_pk))),
      (''challenge_hex'', JString (str_of_bytes [1, 2, 3])), (''app_id'', JString ''app''),
      (''production'', JBool False)]"

lemma sample_apple_json_request: "apple_request_of_json sample_apple_json = Some sample_apple_request"
  by (simp add: apple_request_of_json_def sample_apple_json_def struct_members_def required_def
      member_values_def sample_apple_request_def)

lemma sample_served:
  "app sample_stack sample_env sample_state (sample_post ''/attest/apple'' sample_apple_json)
     = Ok (200, AttestJson (response_for sample_env sample_state sample_apple_outcome
             (bcs_struct [[2], sample_hash (bcs_struct (apple_payload sample_apple_outcome))])))"
proof -
  have "json_extract sample_stack acc (sample_post p sample_apple_json)
      = (if acc sample_apple_json then Inr sample_apple_json else Inl (422, ''unexpected value''))" for acc p
    by (simp add: sample_stack_def sample_post_def sample_json_text_def)
  then show ?thesis
    by (simp add: app_def http_okD(1) [OF sample_stack_ok] routed_def app_routes_lookup with_json_def
        sample_apple_json_request sample_apple_handler answer_def)
       (simp add: sample_post_def app_routes_lookup with_json_def sample_apple_json_request
        sample_apple_handler answer_def)
qed

section \<open>Properties\<close>

text \<open>
  An error names what is wrong. Each \<open>POST\<close> handler reports invalid hexadecimal exactly for
  the first member, in the order the handler reads them, that is none, and everything before it
  was in order: for the Android chain and the allowed keys the name carries the index of the first
  bad entry, and the keys are looked at only after chain, challenge and security level passed.
  The crate's message is passed on.
\<close>

lemma hex_errors_name_the_member:
  "(attest_apple_attestation E state req = Err (InvalidHex name m) \<longleftrightarrow>
     hex_decode E (attestation_object_hex req) = Inl m \<and> name = ''attestation_object_hex''
     \<or> is_hex E (attestation_object_hex req) \<and> hex_decode E (key_id_hex req) = Inl m
         \<and> name = ''key_id_hex''
     \<or> is_hex E (attestation_object_hex req) \<and> is_hex E (key_id_hex req)
         \<and> hex_decode E (apple_challenge_hex req) = Inl m \<and> name = ''challenge_hex'')
   \<and> (attest_apple_assertion E state areq = Err (InvalidHex name m) \<longleftrightarrow>
     hex_decode E (assertion_object_hex areq) = Inl m \<and> name = ''assertion_object_hex''
     \<or> is_hex E (assertion_object_hex areq) \<and> hex_decode E (client_data_hex areq) = Inl m
         \<and> name = ''client_data_hex''
     \<or> is_hex E (assertion_object_hex areq) \<and> is_hex E (client_data_hex areq)
         \<and> hex_decode E (attested_key_hex areq) = Inl m \<and> name = ''attested_key_hex'')
   \<and> (attest_android_attestation E state dreq = Err (InvalidHex name m) \<longleftrightarrow>
     (\<exists>i. first_bad E (chain_hex dreq) i m \<and> name = ''chain'' @ ''['' @ show_nat i @ '']'')
     \<or> all_hex E (chain_hex dreq) \<and>
        (hex_decode E (android_challenge_hex dreq) = Inl m \<and> name = ''challenge_hex''
         \<or> is_hex E (android_challenge_hex dreq)
            \<and> (\<exists>l. parse_security_level (request_min_security_level dreq) = Ok l)
            \<and> (\<exists>i. first_bad E (allowed_self_signed_keys_hex dreq) i m
                 \<and> name = ''allowed_self_signed_keys_hex'' @ ''['' @ show_nat i @ '']'')))"
  by (simp only: apple_InvalidHex_iff assertion_InvalidHex_iff android_InvalidHex_iff)

text \<open>
  C18. The status codes. Every request is answered: an unknown path with 404, a path with a method it
  does not have with 405, \<open>/health\<close> with 200, \<open>/attestation\<close> with 200, 500 or 501, and the three
  kinds of attestation with 200, with 400 when the handler refuses, or with the rejection of a body
  that is not the JSON of the request. No request makes the server panic or answer an attestation
  with a server error.
\<close>

theorem app_status_codes:
  assumes "http_ok H" "crate_times_ok (env_crates E)"
  shows "\<exists>code body. app H E state req = Ok (code, body) \<and>
    (case map_of app_routes (http_path req) of
       None \<Rightarrow> code = 404
     | Some (m, h) \<Rightarrow>
         if http_method req = m \<or> m = ''GET'' \<and> http_method req = ''HEAD''
         then code \<in> (case h of Health \<Rightarrow> {200} | AttestationDoc \<Rightarrow> {200, 500, 501}
                        | _ \<Rightarrow> {200, 400, 413, 415, 422})
         else code = 405)"
proof (cases "routed app_routes req")
  case (Inl code)
  then show ?thesis
    by (auto simp: app_def http_okD(1) [OF assms(1)] routed_def split: option.splits if_splits)
next
  case (Inr h)
  then obtain m where "map_of app_routes (http_path req) = Some (m, h)"
    "http_method req = m \<or> m = ''GET'' \<and> http_method req = ''HEAD''"
    by (auto simp: routed_def split: option.splits if_splits)
  with Inr run_handler_status [OF assms, of state req h] show ?thesis
    by (auto simp: app_def http_okD(1) [OF assms(1)])
qed

theorem app_status_codes_witness:
  "\<exists>code body. app sample_stack sample_env sample_state (sample_post ''/health'' JNull) = Ok (code, body)
     \<and> code = 405"
proof -
  have "crate_times_ok (env_crates sample_env)" by (simp add: sample_env_sel sample_times_ok)
  from app_status_codes [OF sample_stack_ok this, of sample_state "sample_post ''/health'' JNull"]
  show ?thesis by (simp add: sample_post_def app_routes_lookup)
qed

text \<open>
  The short paths are aliases: for every method, headers and body, \<open>/attest/apple\<close> answers as
  \<open>/attest/apple/attestation\<close> and \<open>/attest/android\<close> as \<open>/attest/android/attestation\<close>.
\<close>

lemma aliases_agree:
  assumes "http_ok H"
  shows "app H E state (req\<lparr>http_path := ''/attest/apple''\<rparr>)
      = app H E state (req\<lparr>http_path := ''/attest/apple/attestation''\<rparr>)
    \<and> app H E state (req\<lparr>http_path := ''/attest/android''\<rparr>)
      = app H E state (req\<lparr>http_path := ''/attest/android/attestation''\<rparr>)"
  by (simp add: app_def http_okD(1,2) [OF assms] routed_def app_routes_lookup with_json_def)

text \<open>
  C17. What a 200 is worth. When any request is answered with 200 and an attestation, it was a \<open>POST\<close>
  to one of the four attestation paths, one of the two verifiers returned the outcome whose key,
  challenge and detail hash the answer shows, and the security module issued the document in the
  answer over the hash of exactly these three fields and the key of this enclave.
\<close>

theorem served_attestations_verified:
  assumes "http_ok H" "app H E state req = Ok (200, AttestJson resp)"
  shows "http_method req = ''POST''
    \<and> (\<exists>out d. resp = response_for E state out d
         \<and> document_for E state [attested_value out, challenge out, detail_hash out] d
         \<and> (if http_path req \<in> {''/attest/apple'', ''/attest/apple/attestation''}
             then (\<exists>obj key_id chal app_id prod. verify_app_attest (env_crates E) (apple_root_der E)
                     obj key_id chal app_id prod (stamp_ms E) = Ok out)
             else http_path req \<in> {''/attest/android'', ''/attest/android/attestation''}
                  \<and> (\<exists>chain chal p. verify_attestation (env_crates E) (google_roots_der E)
                          chain chal p (stamp_ms E) = Ok out)))"
proof -
  from assms obtain h b where h: "routed app_routes req = Inr h" "run_handler H E state req h = Ok (200, b)"
    "b = AttestJson resp"
    by (auto simp: app_def http_okD(1) [OF assms(1)] result_simps split: sum.splits if_splits prod.splits)
  show ?thesis
  proof (cases h)
    case AppleAttestation
    with h have "with_json H apple_request_of_json req
        (\<lambda>r. answer AttestJson (attest_apple_attestation E state r)) = Ok (200, b)" by simp
    then obtain r where "attest_apple_attestation E state r = Ok resp"
      by (rule with_json_served [OF assms(1)]) (simp add: h(3))
    then have "\<exists>out d. resp = response_for E state out d
        \<and> document_for E state [attested_value out, challenge out, detail_hash out] d
        \<and> (\<exists>obj key_id chal app_id prod. verify_app_attest (env_crates E) (apple_root_der E)
              obj key_id chal app_id prod (stamp_ms E) = Ok out)"
      unfolding apple_handler_Ok_iff apple_payload_def by blast
    moreover have "http_method req = ''POST''" "http_path req \<in> {''/attest/apple'', ''/attest/apple/attestation''}"
      using h(1) AppleAttestation by (auto simp: routed_def app_routes_lookup split: if_splits option.splits)
    ultimately show ?thesis by simp
  next
    case AndroidAttestation
    with h have "with_json H android_request_from_json req
        (\<lambda>r. answer AttestJson (attest_android_attestation E state r)) = Ok (200, b)" by simp
    then obtain r where "attest_android_attestation E state r = Ok resp"
      by (rule with_json_served [OF assms(1)]) (simp add: h(3))
    then have "\<exists>out d. resp = response_for E state out d
        \<and> document_for E state [attested_value out, challenge out, detail_hash out] d
        \<and> (\<exists>chain chal p. verify_attestation (env_crates E) (google_roots_der E) chain chal p
              (stamp_ms E) = Ok out)"
      unfolding android_handler_Ok_iff android_payload_def by blast
    moreover have "http_method req = ''POST''"
      "http_path req \<in> {''/attest/android'', ''/attest/android/attestation''}"
      using h(1) AndroidAttestation by (auto simp: routed_def app_routes_lookup split: if_splits option.splits)
    moreover have "http_path req \<notin> {''/attest/apple'', ''/attest/apple/attestation''}"
      using calculation(3) by auto
    ultimately show ?thesis by simp
  next
    case AppleAssertion
    with h have "with_json H assertion_request_of_json req
        (\<lambda>r. answer AssertionJson (attest_apple_assertion E state r)) = Ok (200, AttestJson resp)" by simp
    then have False by (rule with_json_served [OF assms(1)]) simp
    then show ?thesis ..
  qed (use h in \<open>auto split: result.splits\<close>)
qed

theorem served_attestations_verified_witness:
  "app sample_stack sample_env sample_state (sample_post ''/attest/apple'' sample_apple_json)
     = Ok (200, AttestJson (response_for sample_env sample_state sample_apple_outcome
             (bcs_struct [[2], sample_hash (bcs_struct (apple_payload sample_apple_outcome))])))
   \<and> (\<exists>out d. document_for sample_env sample_state [attested_value out, challenge out, detail_hash out] d
         \<and> response_for sample_env sample_state sample_apple_outcome
             (bcs_struct [[2], sample_hash (bcs_struct (apple_payload sample_apple_outcome))])
           = response_for sample_env sample_state out d)"
  using served_attestations_verified [OF sample_stack_ok sample_served] sample_served by blast

end
