(* ===== verification/Server_Tests.thy ===== *)
theory Server_Tests
  imports Enclave_Http
begin

text \<open>
  The tests of the enclave server (the module \<open>tests\<close> of \<open>rust/enclave-server/src/main.rs\<close>), run
  in the model: each test function is the Boolean of its assertions over the answers of \<open>app\<close>,
  and is proved true for every stack and environment that meet what the test relies on (the
  documented behaviour of \<open>axum\<close>, \<open>hex\<close> and the parsers on the given inputs). The tests that
  read fixture files and the two that exercise \<open>ed25519-dalek\<close> are in \<open>Fixture_Tests\<close>.
\<close>

section \<open>Harness\<close>

definition router :: "http_stack \<Rightarrow> environment \<Rightarrow> app_state \<Rightarrow> http_request \<Rightarrow> (http_response, unit) result" where
  "router H E state = app H E state"

definition send :: "http_stack \<Rightarrow> environment \<Rightarrow> app_state \<Rightarrow> http_request \<Rightarrow> (http_response, unit) result" where
  "send H E state req = router H E state req"

definition post_json :: "http_stack \<Rightarrow> string \<Rightarrow> json \<Rightarrow> http_request" where
  "post_json H path v =
     \<lparr>http_method = ''POST'', http_path = path, http_content_type = Some ''application/json'',
      http_body = json_text H v\<rparr>"

definition post_raw :: "string \<Rightarrow> string \<Rightarrow> http_request" where
  "post_raw path raw =
     \<lparr>http_method = ''POST'', http_path = path, http_content_type = Some ''application/json'',
      http_body = as_bytes raw\<rparr>"

definition get_request :: "string \<Rightarrow> http_request" where
  "get_request path =
     \<lparr>http_method = ''GET'', http_path = path, http_content_type = None, http_body = []\<rparr>"

definition has_status :: "nat \<Rightarrow> (http_response, unit) result \<Rightarrow> bool" where
  "has_status code r \<longleftrightarrow> (case r of Ok (c, body) \<Rightarrow> c = code | _ \<Rightarrow> False)"

definition is_client_error :: "(http_response, unit) result \<Rightarrow> bool" where
  "is_client_error r \<longleftrightarrow> (case r of Ok (c, body) \<Rightarrow> 400 \<le> c \<and> c < 500 | _ \<Rightarrow> False)"

definition error_contains :: "string \<Rightarrow> (http_response, unit) result \<Rightarrow> bool" where
  "error_contains t r \<longleftrightarrow> (case r of Ok (c, ErrorJson s) \<Rightarrow> contains s t | _ \<Rightarrow> False)"

text \<open>What the requests of the tests need of the stack: their bodies are short.\<close>

definition short_json :: "http_stack \<Rightarrow> json \<Rightarrow> bool" where
  "short_json H v \<longleftrightarrow> length (json_text H v) \<le> 2097152"

text \<open>The number of characters and values of a JSON value; its text has at most six bytes for each.\<close>

fun json_weight :: "json \<Rightarrow> nat" where
  "json_weight (JNumber s) = length s + 1"
| "json_weight (JString s) = length s + 1"
| "json_weight (JArray vs) = sum_list (map json_weight vs) + 1"
| "json_weight (JObject ms) = sum_list (map (\<lambda>(k, v). length k + json_weight v + 1) ms) + 1"
| "json_weight v = 1"

definition stack_ok :: "http_stack \<Rightarrow> bool" where
  "stack_ok H \<longleftrightarrow> http_ok H \<and> (\<forall>v. json_weight v \<le> 200000 \<longrightarrow> short_json H v)"

definition not_json :: "http_stack \<Rightarrow> string \<Rightarrow> bool" where
  "not_json H raw \<longleftrightarrow>
     (\<forall>acc path. \<exists>m. json_extract H acc (post_raw path raw) = Inl (400, m))"

lemma post_extract:
  assumes "http_ok H" "short_json H (JObject ms)"
  shows "if acc (JObject ms) then json_extract H acc (post_json H path (JObject ms)) = Inr (JObject ms)
    else (\<exists>m. json_extract H acc (post_json H path (JObject ms)) = Inl (422, m))"
  using json_extract_object [OF assms(1), of "post_json H path (JObject ms)" ms acc] assms(2)
  by (simp add: post_json_def short_json_def)

text \<open>A POST to a path goes to its handler, with the body the type accepts or with a 422.\<close>

lemma send_post:
  assumes "http_ok H" "map_of app_routes path = Some (''POST'', h)"
  shows "send H E state (post_json H path v) = run_handler H E state (post_json H path v) h"
    and "send H E state (post_raw path raw) = run_handler H E state (post_raw path raw) h"
proof -
  have ok: "and_then r Ok = r" for r :: "(http_response, unit) result" by (cases r) auto
  show "send H E state (post_json H path v) = run_handler H E state (post_json H path v) h"
    "send H E state (post_raw path raw) = run_handler H E state (post_raw path raw) h"
    using assms(2)
    by (simp_all add: send_def router_def app_def http_okD(1) [OF assms(1)] routed_def post_json_def post_raw_def ok)
qed

lemma accepted_post:
  assumes "http_ok H" "short_json H (JObject ms)" "of_json (JObject ms) = Some r"
  shows "with_json H of_json (post_json H path (JObject ms)) handle = handle r"
  using post_extract [OF assms(1,2), of "\<lambda>v. of_json v \<noteq> None" path] assms(3)
  by (simp add: with_json_def)

lemma rejected_post:
  assumes "http_ok H" "short_json H (JObject ms)" "of_json (JObject ms) = None"
  shows "\<exists>m. with_json H of_json (post_json H path (JObject ms)) handle = Ok (422, RejectionText m)"
  using post_extract [OF assms(1,2), of "\<lambda>v. of_json v \<noteq> None" path] assms(3)
  by (auto simp: with_json_def)

lemma rejected_raw:
  assumes "not_json H raw"
  shows "\<exists>m. with_json H of_json (post_raw path raw) handle = Ok (400, RejectionText m)"
proof -
  from assms obtain m where "json_extract H (\<lambda>v. of_json v \<noteq> None) (post_raw path raw) = Inl (400, m)"
    unfolding not_json_def by blast
  then show ?thesis by (simp add: with_json_def)
qed

lemma attest_routes:
  "map_of app_routes ''/attest/apple'' = Some (''POST'', AppleAttestation)"
  "map_of app_routes ''/attest/apple/attestation'' = Some (''POST'', AppleAttestation)"
  "map_of app_routes ''/attest/apple/assertion'' = Some (''POST'', AppleAssertion)"
  "map_of app_routes ''/attest/android'' = Some (''POST'', AndroidAttestation)"
  "map_of app_routes ''/attest/android/attestation'' = Some (''POST'', AndroidAttestation)"
  by (simp_all add: app_routes_lookup)

lemma refused_simps [simp]:
  "answer body (Err e) = Ok (400, ErrorJson (attest_error_display e))"
  "has_status code (Ok (c, b)) \<longleftrightarrow> c = code"
  "is_client_error (Ok (c, b)) \<longleftrightarrow> 400 \<le> c \<and> c < 500"
  "error_contains t (Ok (c, ErrorJson s)) \<longleftrightarrow> contains s t"
  by (simp_all add: answer_def into_response_def has_status_def is_client_error_def error_contains_def)

lemma refused_422:
  assumes "http_ok H" "short_json H (JObject ms)" "of_json (JObject ms) = None"
  shows "is_client_error (with_json H of_json (post_json H path (JObject ms)) handle)"
    "\<not> has_status 404 (with_json H of_json (post_json H path (JObject ms)) handle)"
    "\<not> has_status 405 (with_json H of_json (post_json H path (JObject ms)) handle)"
  using rejected_post [where of_json = of_json, OF assms, of path handle] by auto

lemma raw_400: "not_json H raw \<Longrightarrow> has_status 400 (with_json H of_json (post_raw path raw) handle)"
  using rejected_raw [of H raw of_json path handle] by auto

text \<open>The text of an error contains the name of the member.\<close>

lemma invalid_hex_contains: "contains (attest_error_display (InvalidHex name m)) name"
  using contains_infix [of "''invalid hex in field `''" name "''`: '' @ m"] by simp

lemma json_member_simps [simp]:
  "struct_members names (JObject ms) = Some ms"
  "required ms k f = (case member_values ms k of [v] \<Rightarrow> f v | _ \<Rightarrow> None)"
  "defaulted ms k f =
     (case member_values ms k of [] \<Rightarrow> Some None | [v] \<Rightarrow> map_option Some (f v) | _ \<Rightarrow> None)"
  "member_values [] k = []"
  "member_values ((k', v) # ms) k = (if k' = k then v # member_values ms k else member_values ms k)"
  by (simp_all add: struct_members_def required_def defaulted_def member_values_def)

section \<open>Routing\<close>

definition health_ok_shape :: "http_stack \<Rightarrow> environment \<Rightarrow> app_state \<Rightarrow> bool" where
  "health_ok_shape H E state \<longleftrightarrow>
     (case send H E state (get_request ''/health'') of
        Ok (code, HealthJson body) \<Rightarrow>
          code = 200 \<and> length (health_public_key_hex body) = 64
          \<and> \<not> isl (hex_decode E (health_public_key_hex body))
          \<and> health_version body = package_version E
          \<and> health_sources body = [APPLE_APP_ATTEST, APPLE_APP_ATTEST_ASSERTION, ANDROID_KEY_ATTEST]
      | _ \<Rightarrow> False)"

definition health_public_key_matches_state :: "http_stack \<Rightarrow> environment \<Rightarrow> app_state \<Rightarrow> bool" where
  "health_public_key_matches_state H E state \<longleftrightarrow>
     (case send H E state (get_request ''/health'') of
        Ok (code, HealthJson body) \<Rightarrow> health_public_key_hex body = hex_encode E (verifying_key state)
      | _ \<Rightarrow> False)"

definition unknown_route_is_404 :: "http_stack \<Rightarrow> environment \<Rightarrow> app_state \<Rightarrow> bool" where
  "unknown_route_is_404 H E state \<longleftrightarrow>
     has_status 404 (send H E state (get_request ''/does/not/exist''))"

definition wrong_method_on_post_route_is_405 :: "http_stack \<Rightarrow> environment \<Rightarrow> app_state \<Rightarrow> bool" where
  "wrong_method_on_post_route_is_405 H E state \<longleftrightarrow>
     has_status 405 (send H E state (get_request ''/attest/apple/attestation''))"

definition wrong_method_on_get_route_is_405 :: "http_stack \<Rightarrow> environment \<Rightarrow> app_state \<Rightarrow> bool" where
  "wrong_method_on_get_route_is_405 H E state \<longleftrightarrow>
     has_status 405 (send H E state (post_json H ''/health'' (JObject [])))"

definition all_routes_exist_including_aliases :: "http_stack \<Rightarrow> environment \<Rightarrow> app_state \<Rightarrow> bool" where
  "all_routes_exist_including_aliases H E state \<longleftrightarrow>
     list_all (\<lambda>path. \<not> has_status 404 (send H E state (post_json H path (JObject [])))
                    \<and> \<not> has_status 405 (send H E state (post_json H path (JObject []))))
       [''/attest/apple/attestation'', ''/attest/apple'', ''/attest/apple/assertion'',
        ''/attest/android/attestation'', ''/attest/android'']"

definition attestation_doc_off_enclave_is_501 :: "http_stack \<Rightarrow> environment \<Rightarrow> app_state \<Rightarrow> bool" where
  "attestation_doc_off_enclave_is_501 H E state \<longleftrightarrow>
     (let r = send H E state (get_request ''/attestation'') in
      has_status 501 r \<and> error_contains ''NSM'' r)"

lemma routing_tests_pass:
  assumes "http_ok H" "nsm_init E < 0" "\<forall>b. length (hex_encode E b) = 2 * length b"
    "\<forall>b. hex_decode E (hex_encode E b) = Inr b" "length (verifying_key state) = 32"
    "short_json H (JObject [])"
  shows "health_ok_shape H E state" "health_public_key_matches_state H E state"
    "unknown_route_is_404 H E state" "wrong_method_on_post_route_is_405 H E state"
    "wrong_method_on_get_route_is_405 H E state" "all_routes_exist_including_aliases H E state"
    "attestation_doc_off_enclave_is_501 H E state"
proof -
  note route = send_def router_def app_def http_okD(1) [OF assms(1)] routed_def app_routes_lookup
  show "health_ok_shape H E state" "health_public_key_matches_state H E state"
    "unknown_route_is_404 H E state" "wrong_method_on_post_route_is_405 H E state"
    "wrong_method_on_get_route_is_405 H E state"
    using assms(3-5)
    by (simp_all add: health_ok_shape_def health_public_key_matches_state_def unknown_route_is_404_def
        wrong_method_on_post_route_is_405_def wrong_method_on_get_route_is_405_def get_request_def
        post_json_def route health_def)
  have "contains ''NSM init failed (not running inside a Nitro enclave?)'' ''NSM''"
    using contains_infix [of "[]" "''NSM''" "'' init failed (not running inside a Nitro enclave?)''"] by simp
  then show "attestation_doc_off_enclave_is_501 H E state"
    using assms(2)
    by (simp add: attestation_doc_off_enclave_is_501_def get_request_def route attestation_doc_eq Let_def)
  have empty: "apple_request_of_json (JObject []) = None" "assertion_request_of_json (JObject []) = None"
    "android_request_from_json (JObject []) = None"
    by (simp_all add: apple_request_of_json_def assertion_request_of_json_def android_request_from_json_def)
  note posts = attest_routes [THEN send_post(1) [OF assms(1)]]
  show "all_routes_exist_including_aliases H E state"
    by (simp add: all_routes_exist_including_aliases_def posts refused_422 [OF assms(1,6)] empty)
qed

section \<open>Apple attestation: input validation\<close>

definition apple_body :: "string \<Rightarrow> string \<Rightarrow> string \<Rightarrow> string \<Rightarrow> bool \<Rightarrow> json" where
  "apple_body att key_id chal app_id live = JObject
     [(''attestation_object_hex'', JString att), (''key_id_hex'', JString key_id),
      (''challenge_hex'', JString chal), (''app_id'', JString app_id), (''production'', JBool live)]"

definition apple_malformed_json_is_rejected_not_panicked :: "http_stack \<Rightarrow> environment \<Rightarrow> app_state \<Rightarrow> bool" where
  "apple_malformed_json_is_rejected_not_panicked H E state \<longleftrightarrow>
     has_status 400 (send H E state (post_raw ''/attest/apple/attestation'' ''{not json''))"

definition apple_empty_body_is_rejected :: "http_stack \<Rightarrow> environment \<Rightarrow> app_state \<Rightarrow> bool" where
  "apple_empty_body_is_rejected H E state \<longleftrightarrow>
     has_status 400 (send H E state (post_raw ''/attest/apple/attestation'' ''''))"

definition apple_missing_field_is_rejected :: "http_stack \<Rightarrow> environment \<Rightarrow> app_state \<Rightarrow> bool" where
  "apple_missing_field_is_rejected H E state \<longleftrightarrow>
     (let r = send H E state (post_json H ''/attest/apple/attestation''
       (JObject [(''attestation_object_hex'', JString ''00''), (''key_id_hex'', JString ''00''),
          (''challenge_hex'', JString ''00''), (''app_id'', JString ''team.bundle'')])) in
      is_client_error r \<and> \<not> has_status 404 r)"

definition apple_wrong_field_type_is_rejected :: "http_stack \<Rightarrow> environment \<Rightarrow> app_state \<Rightarrow> bool" where
  "apple_wrong_field_type_is_rejected H E state \<longleftrightarrow>
     is_client_error (send H E state (post_json H ''/attest/apple/attestation''
       (JObject [(''attestation_object_hex'', JString ''00''), (''key_id_hex'', JString ''00''),
          (''challenge_hex'', JString ''00''), (''app_id'', JString ''team.bundle''),
          (''production'', JString ''yes'')])))"

definition apple_invalid_hex_attestation_object_is_400 :: "http_stack \<Rightarrow> environment \<Rightarrow> app_state \<Rightarrow> bool" where
  "apple_invalid_hex_attestation_object_is_400 H E state \<longleftrightarrow>
     (let r = send H E state (post_json H ''/attest/apple/attestation''
       (apple_body ''zz'' ''00'' ''00'' ''team.bundle'' False)) in
      has_status 400 r \<and> error_contains ''attestation_object_hex'' r)"

definition apple_invalid_hex_key_id_is_400 :: "http_stack \<Rightarrow> environment \<Rightarrow> app_state \<Rightarrow> bool" where
  "apple_invalid_hex_key_id_is_400 H E state \<longleftrightarrow>
     (let r = send H E state (post_json H ''/attest/apple/attestation''
       (apple_body ''00'' ''zz'' ''00'' ''team.bundle'' False)) in
      has_status 400 r \<and> error_contains ''key_id_hex'' r)"

definition apple_invalid_hex_challenge_is_400 :: "http_stack \<Rightarrow> environment \<Rightarrow> app_state \<Rightarrow> bool" where
  "apple_invalid_hex_challenge_is_400 H E state \<longleftrightarrow>
     (let r = send H E state (post_json H ''/attest/apple/attestation''
       (apple_body ''00'' ''00'' ''zz'' ''team.bundle'' False)) in
      has_status 400 r \<and> error_contains ''challenge_hex'' r)"

definition apple_garbage_attestation_bytes_is_400_not_panic :: "http_stack \<Rightarrow> environment \<Rightarrow> app_state \<Rightarrow> bool" where
  "apple_garbage_attestation_bytes_is_400_not_panic H E state \<longleftrightarrow>
     (let garbage = hex_encode E [0xDE, 0xAD, 0xBE, 0xEF, 0x00, 0x01, 0x02, 0x03] in
      has_status 400 (send H E state (post_json H ''/attest/apple/attestation''
       (apple_body garbage ''00'' ''00'' ''team.bundle'' False))))"

definition apple_oversized_garbage_is_400_not_panic :: "http_stack \<Rightarrow> environment \<Rightarrow> app_state \<Rightarrow> bool" where
  "apple_oversized_garbage_is_400_not_panic H E state \<longleftrightarrow>
     (let big = hex_encode E (replicate (64 * 1024) 0xAB) in
      has_status 400 (send H E state (post_json H ''/attest/apple/attestation''
       (apple_body big ''00'' ''00'' ''team.bundle'' False))))"

definition apple_alias_route_behaves_identically :: "http_stack \<Rightarrow> environment \<Rightarrow> app_state \<Rightarrow> bool" where
  "apple_alias_route_behaves_identically H E state \<longleftrightarrow>
     (let body = apple_body ''zz'' ''00'' ''00'' ''team.bundle'' False;
          a = send H E state (post_json H ''/attest/apple'' body);
          b = send H E state (post_json H ''/attest/apple/attestation'' body) in
      has_status 400 a \<and> has_status 400 b)"

lemma apple_body_request:
  "apple_request_of_json (apple_body att key_id chal app_id live) =
     Some \<lparr>attestation_object_hex = att, key_id_hex = key_id, apple_challenge_hex = chal,
           apple_app_id = app_id, production = live\<rparr>"
  by (simp add: apple_request_of_json_def apple_body_def)

lemma post_apple_body:
  assumes "stack_ok H" "length att \<le> 150000" "length key_id \<le> 100" "length chal \<le> 100"
    "length app_id \<le> 100" "path \<in> {''/attest/apple'', ''/attest/apple/attestation''}"
  shows "send H E state (post_json H path (apple_body att key_id chal app_id live)) =
    answer AttestJson (attest_apple_attestation E state
      \<lparr>attestation_object_hex = att, key_id_hex = key_id, apple_challenge_hex = chal,
       apple_app_id = app_id, production = live\<rparr>)"
proof -
  have "short_json H (apple_body att key_id chal app_id live)"
    using assms(1-5) by (simp add: stack_ok_def apple_body_def)
  then show ?thesis
    using assms(1,6) apple_body_request [of att key_id chal app_id live]
      accepted_post [where of_json = apple_request_of_json]
    by (auto simp: stack_ok_def send_post attest_routes apple_body_def)
qed

lemma apple_input_tests_pass:
  assumes "stack_ok H" "not_json H ''{not json''" "not_json H []" "hex_decode E ''zz'' = Inl m"
    "hex_decode E ''00'' = Inr [0]"
  shows "apple_malformed_json_is_rejected_not_panicked H E state" "apple_empty_body_is_rejected H E state"
    "apple_missing_field_is_rejected H E state" "apple_wrong_field_type_is_rejected H E state"
    "apple_invalid_hex_attestation_object_is_400 H E state" "apple_invalid_hex_key_id_is_400 H E state"
    "apple_invalid_hex_challenge_is_400 H E state" "apple_alias_route_behaves_identically H E state"
proof -
  have H: "http_ok H" and short: "json_weight v \<le> 200000 \<Longrightarrow> short_json H v" for v
    using assms(1) by (auto simp: stack_ok_def)
  show "apple_malformed_json_is_rejected_not_panicked H E state" "apple_empty_body_is_rejected H E state"
    by (simp_all add: apple_malformed_json_is_rejected_not_panicked_def apple_empty_body_is_rejected_def
        send_post [OF H] attest_routes raw_400 assms(2,3))
  show "apple_missing_field_is_rejected H E state" "apple_wrong_field_type_is_rejected H E state"
    unfolding apple_missing_field_is_rejected_def apple_wrong_field_type_is_rejected_def Let_def
    by (simp_all add: send_post [OF H] attest_routes refused_422 [OF H short] apple_request_of_json_def)
  show "apple_invalid_hex_attestation_object_is_400 H E state" "apple_invalid_hex_key_id_is_400 H E state"
    "apple_invalid_hex_challenge_is_400 H E state" "apple_alias_route_behaves_identically H E state"
    using invalid_hex_contains
    by (simp_all add: apple_invalid_hex_attestation_object_is_400_def apple_invalid_hex_key_id_is_400_def
        apple_invalid_hex_challenge_is_400_def apple_alias_route_behaves_identically_def Let_def
        post_apple_body [OF assms(1)] attest_apple_attestation_def decode_hex_def assms(4,5)
        del: attest_error_display.simps)
qed

text \<open>Bytes that are no attestation object: well-formed hexadecimal of what is no CBOR.\<close>

lemma garbage_refused:
  assumes "hex_decode E att = Inr bs" "isl (cbor_from_reader (env_crates E) bs)"
    "hex_decode E ''00'' = Inr [0]"
  shows "has_status 400 (answer AttestJson (attest_apple_attestation E state
      \<lparr>attestation_object_hex = att, key_id_hex = ''00'', apple_challenge_hex = ''00'',
       apple_app_id = app_id, production = live\<rparr>))"
proof -
  from assms(2) obtain e where "cbor_from_reader (env_crates E) bs = Inl e" by (auto simp: isl_def)
  with assms(1,3) show ?thesis
    by (simp add: attest_apple_attestation_def decode_hex_def verify_app_attest_def
        decode_attestation_object_def)
qed

lemma apple_garbage_tests_pass:
  assumes "stack_ok H" "hex_decode E ''00'' = Inr [0]"
    "\<forall>b. length (hex_encode E b) = 2 * length b" "\<forall>b. hex_decode E (hex_encode E b) = Inr b"
    "isl (cbor_from_reader (env_crates E) [0xDE, 0xAD, 0xBE, 0xEF, 0x00, 0x01, 0x02, 0x03])"
    "isl (cbor_from_reader (env_crates E) (replicate (64 * 1024) 0xAB))"
  shows "apple_garbage_attestation_bytes_is_400_not_panic H E state"
    "apple_oversized_garbage_is_400_not_panic H E state"
proof -
  note refused = garbage_refused [OF assms(4) [rule_format] _ assms(2)]
  show "apple_garbage_attestation_bytes_is_400_not_panic H E state"
    using assms(3) refused [OF assms(5)]
    by (simp add: apple_garbage_attestation_bytes_is_400_not_panic_def Let_def post_apple_body [OF assms(1)])
  show "apple_oversized_garbage_is_400_not_panic H E state"
    using assms(3) refused [OF assms(6)]
    by (simp add: apple_oversized_garbage_is_400_not_panic_def Let_def post_apple_body [OF assms(1)])
qed

section \<open>Apple assertion: input validation\<close>

definition assertion_body :: "string \<Rightarrow> string \<Rightarrow> string \<Rightarrow> string \<Rightarrow> json" where
  "assertion_body obj cd key app_id = JObject
     [(''assertion_object_hex'', JString obj), (''client_data_hex'', JString cd),
      (''attested_key_hex'', JString key), (''app_id'', JString app_id)]"

definition assertion_malformed_json_is_rejected :: "http_stack \<Rightarrow> environment \<Rightarrow> app_state \<Rightarrow> bool" where
  "assertion_malformed_json_is_rejected H E state \<longleftrightarrow>
     has_status 400 (send H E state (post_raw ''/attest/apple/assertion'' ''}}''))"

definition assertion_missing_field_is_rejected :: "http_stack \<Rightarrow> environment \<Rightarrow> app_state \<Rightarrow> bool" where
  "assertion_missing_field_is_rejected H E state \<longleftrightarrow>
     is_client_error (send H E state (post_json H ''/attest/apple/assertion''
       (JObject [(''assertion_object_hex'', JString ''00''), (''client_data_hex'', JString ''00''),
          (''app_id'', JString ''team.bundle'')])))"

definition assertion_invalid_hex_each_field_is_400 :: "http_stack \<Rightarrow> environment \<Rightarrow> app_state \<Rightarrow> bool" where
  "assertion_invalid_hex_each_field_is_400 H E state \<longleftrightarrow>
     list_all (\<lambda>(obj, cd, key, field).
       let r = send H E state (post_json H ''/attest/apple/assertion''
       (assertion_body obj cd key ''team.bundle'')) in
       has_status 400 r \<and> error_contains field r)
     [(''zz'', ''00'', ''00'', ''assertion_object_hex''), (''00'', ''zz'', ''00'', ''client_data_hex''),
      (''00'', ''00'', ''zz'', ''attested_key_hex'')]"

definition assertion_garbage_cbor_is_400_not_panic :: "http_stack \<Rightarrow> environment \<Rightarrow> app_state \<Rightarrow> bool" where
  "assertion_garbage_cbor_is_400_not_panic H E state \<longleftrightarrow>
     (let garbage = hex_encode E [0x00, 0x11, 0x22, 0x33, 0x44] in
      has_status 400 (send H E state (post_json H ''/attest/apple/assertion''
       (assertion_body garbage ''00'' ''00'' ''team.bundle''))))"

lemma post_assertion_body:
  assumes "stack_ok H" "length obj \<le> 100" "length cd \<le> 100" "length key \<le> 100" "length app_id \<le> 100"
  shows "send H E state (post_json H ''/attest/apple/assertion'' (assertion_body obj cd key app_id)) =
    answer AssertionJson (attest_apple_assertion E state
      \<lparr>assertion_object_hex = obj, client_data_hex = cd, attested_key_hex = key, assertion_app_id = app_id\<rparr>)"
proof -
  have "short_json H (assertion_body obj cd key app_id)"
    using assms by (simp add: stack_ok_def assertion_body_def)
  moreover have "assertion_request_of_json (assertion_body obj cd key app_id) =
      Some \<lparr>assertion_object_hex = obj, client_data_hex = cd, attested_key_hex = key, assertion_app_id = app_id\<rparr>"
    by (simp add: assertion_request_of_json_def assertion_body_def)
  ultimately show ?thesis
    using assms(1) accepted_post [where of_json = assertion_request_of_json]
    by (auto simp: stack_ok_def send_post attest_routes assertion_body_def)
qed

lemma assertion_input_tests_pass:
  assumes "stack_ok H" "not_json H ''}}''" "hex_decode E ''zz'' = Inl m" "hex_decode E ''00'' = Inr [0]"
    "\<forall>b. length (hex_encode E b) = 2 * length b" "\<forall>b. hex_decode E (hex_encode E b) = Inr b"
    "\<forall>ms. cbor_from_reader (env_crates E) [0x00, 0x11, 0x22, 0x33, 0x44] \<noteq> Inr (CMap ms)"
  shows "assertion_malformed_json_is_rejected H E state" "assertion_missing_field_is_rejected H E state"
    "assertion_invalid_hex_each_field_is_400 H E state" "assertion_garbage_cbor_is_400_not_panic H E state"
proof -
  have H: "http_ok H" and short: "json_weight v \<le> 200000 \<Longrightarrow> short_json H v" for v
    using assms(1) by (auto simp: stack_ok_def)
  show "assertion_malformed_json_is_rejected H E state"
    by (simp add: assertion_malformed_json_is_rejected_def send_post [OF H] attest_routes raw_400 assms(2))
  show "assertion_missing_field_is_rejected H E state"
    unfolding assertion_missing_field_is_rejected_def
    by (simp add: send_post [OF H] attest_routes refused_422 [OF H short] assertion_request_of_json_def)
  show "assertion_invalid_hex_each_field_is_400 H E state"
    using invalid_hex_contains
    by (simp add: assertion_invalid_hex_each_field_is_400_def Let_def post_assertion_body [OF assms(1)]
        attest_apple_assertion_def decode_hex_def assms(3,4) del: attest_error_display.simps)
  have "\<exists>e. decode_assertion (env_crates E) [0x00, 0x11, 0x22, 0x33, 0x44] = Err e"
    using assms(7) as_map_Some_iff
    by (cases "cbor_from_reader (env_crates E) [0x00, 0x11, 0x22, 0x33, 0x44]"; cases "as_map (projr (cbor_from_reader (env_crates E) [0x00, 0x11, 0x22, 0x33, 0x44]))")
       (auto simp: decode_assertion_def)
  then show "assertion_garbage_cbor_is_400_not_panic H E state"
    using assms(5)
    by (auto simp: assertion_garbage_cbor_is_400_not_panic_def Let_def post_assertion_body [OF assms(1)]
        attest_apple_assertion_def decode_hex_def assms(4,6) verify_assertion_def)
qed

section \<open>Android attestation: input validation\<close>

definition android_body :: "string list \<Rightarrow> string \<Rightarrow> json" where
  "android_body chain chal = JObject
     [(''chain_hex'', JArray (map JString chain)), (''challenge_hex'', JString chal)]"

text \<open>The same with further members.\<close>

definition android_body_with :: "string list \<Rightarrow> string \<Rightarrow> (string \<times> json) list \<Rightarrow> json" where
  "android_body_with chain chal ms = JObject
     ([(''chain_hex'', JArray (map JString chain)), (''challenge_hex'', JString chal)] @ ms)"

definition android_malformed_json_is_rejected :: "http_stack \<Rightarrow> environment \<Rightarrow> app_state \<Rightarrow> bool" where
  "android_malformed_json_is_rejected H E state \<longleftrightarrow>
     has_status 400 (send H E state (post_raw ''/attest/android/attestation'' ''nope''))"

definition android_missing_required_field_is_rejected :: "http_stack \<Rightarrow> environment \<Rightarrow> app_state \<Rightarrow> bool" where
  "android_missing_required_field_is_rejected H E state \<longleftrightarrow>
     is_client_error (send H E state (post_json H ''/attest/android/attestation''
       (JObject [(''challenge_hex'', JString ''00'')])))"

definition android_invalid_hex_in_chain_is_400 :: "http_stack \<Rightarrow> environment \<Rightarrow> app_state \<Rightarrow> bool" where
  "android_invalid_hex_in_chain_is_400 H E state \<longleftrightarrow>
     (let r = send H E state (post_json H ''/attest/android/attestation''
       (android_body [''zz''] ''00'')) in
      has_status 400 r \<and> error_contains ''chain[0]'' r)"

definition android_invalid_hex_challenge_is_400 :: "http_stack \<Rightarrow> environment \<Rightarrow> app_state \<Rightarrow> bool" where
  "android_invalid_hex_challenge_is_400 H E state \<longleftrightarrow>
     (let r = send H E state (post_json H ''/attest/android/attestation''
       (android_body [''00''] ''zz'')) in
      has_status 400 r \<and> error_contains ''challenge_hex'' r)"

definition android_unknown_security_level_is_400 :: "http_stack \<Rightarrow> environment \<Rightarrow> app_state \<Rightarrow> bool" where
  "android_unknown_security_level_is_400 H E state \<longleftrightarrow>
     (let r = send H E state (post_json H ''/attest/android/attestation''
       (android_body_with [''00''] ''00'' [(''min_security_level'', JString ''quantum'')])) in
      has_status 400 r \<and> error_contains ''quantum'' r)"

definition android_bad_status_list_json_is_400 :: "http_stack \<Rightarrow> environment \<Rightarrow> app_state \<Rightarrow> bool" where
  "android_bad_status_list_json_is_400 H E state \<longleftrightarrow>
     has_status 400 (send H E state (post_json H ''/attest/android/attestation''
       (android_body_with [''00''] ''00''
          [(''status_list_json'', JString ''{ this is not valid status json }'')])))"

definition android_invalid_hex_in_allowed_keys_is_400 :: "http_stack \<Rightarrow> environment \<Rightarrow> app_state \<Rightarrow> bool" where
  "android_invalid_hex_in_allowed_keys_is_400 H E state \<longleftrightarrow>
     (let r = send H E state (post_json H ''/attest/android/attestation''
       (android_body_with [''00''] ''00''
          [(''require_verified_boot'', JBool False),
           (''allowed_self_signed_keys_hex'', JArray [JString ''zz''])])) in
      has_status 400 r \<and> error_contains ''allowed_self_signed_keys_hex[0]'' r)"

definition android_empty_chain_is_400_not_panic :: "http_stack \<Rightarrow> environment \<Rightarrow> app_state \<Rightarrow> bool" where
  "android_empty_chain_is_400_not_panic H E state \<longleftrightarrow>
     has_status 400 (send H E state (post_json H ''/attest/android/attestation''
       (android_body [] ''00'')))"

definition android_garbage_cert_bytes_is_400_not_panic :: "http_stack \<Rightarrow> environment \<Rightarrow> app_state \<Rightarrow> bool" where
  "android_garbage_cert_bytes_is_400_not_panic H E state \<longleftrightarrow>
     (let garbage = hex_encode E (replicate 200 0xFF) in
      has_status 400 (send H E state (post_json H ''/attest/android/attestation''
       (android_body [garbage] ''00''))))"

definition android_defaults_applied_when_optional_fields_absent :: "http_stack \<Rightarrow> environment \<Rightarrow> app_state \<Rightarrow> bool" where
  "android_defaults_applied_when_optional_fields_absent H E state \<longleftrightarrow>
     has_status 400 (send H E state (post_json H ''/attest/android/attestation''
       (android_body [''00''] ''00'')))"

lemma post_android:
  assumes "stack_ok H" "json_weight (JObject ms) \<le> 200000"
    "android_request_from_json (JObject ms) = Some req"
  shows "send H E state (post_json H ''/attest/android/attestation'' (JObject ms)) =
    answer AttestJson (attest_android_attestation E state req)"
  using assms accepted_post [where of_json = android_request_from_json and r = req and H = H and ms = ms]
  by (simp add: stack_ok_def send_post attest_routes)

text \<open>The requests of the tests: a chain of at most one certificate, and at most two more members.\<close>

lemma android_requests:
  "android_request_from_json (JObject [(''chain_hex'', JArray []), (''challenge_hex'', JString c)])
     = Some (android_request_of_json [] c None None None None None)"
  "android_request_from_json (JObject [(''chain_hex'', JArray [JString h]), (''challenge_hex'', JString c)])
     = Some (android_request_of_json [h] c None None None None None)"
  "android_request_from_json (JObject [(''chain_hex'', JArray [JString h]), (''challenge_hex'', JString c),
       (''min_security_level'', JString l)])
     = Some (android_request_of_json [h] c (Some l) None None None None)"
  "android_request_from_json (JObject [(''chain_hex'', JArray [JString h]), (''challenge_hex'', JString c),
       (''status_list_json'', JString j)])
     = Some (android_request_of_json [h] c None None None None (Some j))"
  "android_request_from_json (JObject [(''chain_hex'', JArray [JString h]), (''challenge_hex'', JString c),
       (''require_verified_boot'', JBool b), (''allowed_self_signed_keys_hex'', JArray [JString k])])
     = Some (android_request_of_json [h] c None (Some b) None (Some [k]) None)"
  by (simp_all add: android_request_from_json_def)

lemma chain_garbage:
  assumes "certificate_from_der X d = Inl e"
  shows "verify_attestation X roots [d] chal p t = Err (AndroidDer (''cert parse: '' @ e))"
  by (simp add: verify_attestation_def android_validate_chain_def parse_chain_with_def assms)

lemma bad_status_json:
  "\<exists>e. status_list_from_json lower ''{ this is not valid status json }'' = Err e"
proof -
  have "\<not> is_ok (status_list_from_json lower ''{ this is not valid status json }'')"
    by code_simp
  then show ?thesis
    using status_list_not_Panic [of lower "''{ this is not valid status json }''"]
    by (cases "status_list_from_json lower ''{ this is not valid status json }''") auto
qed

lemma android_malformed_tests_pass:
  assumes "stack_ok H" "not_json H ''nope''"
  shows "android_malformed_json_is_rejected H E state" "android_missing_required_field_is_rejected H E state"
proof -
  have H: "http_ok H" and short: "json_weight v \<le> 200000 \<Longrightarrow> short_json H v" for v
    using assms(1) by (auto simp: stack_ok_def)
  show "android_malformed_json_is_rejected H E state"
    by (simp add: android_malformed_json_is_rejected_def send_post [OF H] attest_routes raw_400 assms(2))
  show "android_missing_required_field_is_rejected H E state"
    unfolding android_missing_required_field_is_rejected_def
    by (simp add: send_post [OF H] attest_routes refused_422 [OF H short] android_request_from_json_def)
qed

lemma show_zero: "show_nat 0 = ''0''"
  by code_simp

lemma quantum_contains: "contains (attest_error_display (Nsm (''unknown min_security_level ''
    @ quoted ''quantum'' @ '' (want software|tee|strongbox)''))) ''quantum''"
proof -
  have "attest_error_display (Nsm (''unknown min_security_level '' @ quoted ''quantum''
      @ '' (want software|tee|strongbox)''))
    = (''NSM request failed: unknown min_security_level '' @ [CHR 0x27]) @ ''quantum''
      @ ([CHR 0x27] @ '' (want software|tee|strongbox)'')"
    by (simp add: quoted_def)
  then show ?thesis by (simp only: contains_infix)
qed

lemma android_member_tests_pass:
  assumes "stack_ok H" "hex_decode E ''zz'' = Inl m" "hex_decode E ''00'' = Inr [0]"
  shows "android_invalid_hex_in_chain_is_400 H E state" "android_invalid_hex_challenge_is_400 H E state"
    "android_unknown_security_level_is_400 H E state" "android_bad_status_list_json_is_400 H E state"
    "android_invalid_hex_in_allowed_keys_is_400 H E state"
proof -
  note post = android_requests [THEN post_android [OF assms(1), rotated]]
  note defs = android_body_def android_body_with_def attest_android_attestation_def
    android_request_of_json_def decode_hex_list_def decode_hex_def assms(2,3) Let_def show_zero
  show "android_invalid_hex_in_chain_is_400 H E state"
    using invalid_hex_contains [of "''chain[0]''" m]
    by (simp add: android_invalid_hex_in_chain_is_400_def defs post del: attest_error_display.simps)
  show "android_invalid_hex_challenge_is_400 H E state"
    using invalid_hex_contains [of "''challenge_hex''" m]
    by (simp add: android_invalid_hex_challenge_is_400_def defs post del: attest_error_display.simps)
  show "android_unknown_security_level_is_400 H E state"
    using quantum_contains
    by (simp add: android_unknown_security_level_is_400_def defs post parse_security_level_def
        del: attest_error_display.simps)
  obtain e where "status_list_from_json (unicode_lower E) ''{ this is not valid status json }'' = Err e"
    using bad_status_json by blast
  then show "android_bad_status_list_json_is_400 H E state"
    by (simp add: android_bad_status_list_json_is_400_def defs post parse_security_level_def)
  show "android_invalid_hex_in_allowed_keys_is_400 H E state"
    using invalid_hex_contains [of "''allowed_self_signed_keys_hex[0]''" m]
    by (simp add: android_invalid_hex_in_allowed_keys_is_400_def defs post parse_security_level_def del: attest_error_display.simps)
qed

lemma android_chain_tests_pass:
  assumes "stack_ok H" "hex_decode E ''00'' = Inr [0]" "\<forall>b. length (hex_encode E b) = 2 * length b"
    "\<forall>b. hex_decode E (hex_encode E b) = Inr b" "isl (certificate_from_der (env_crates E) [0])"
    "isl (certificate_from_der (env_crates E) (replicate 200 0xFF))"
  shows "android_empty_chain_is_400_not_panic H E state" "android_garbage_cert_bytes_is_400_not_panic H E state"
    "android_defaults_applied_when_optional_fields_absent H E state"
proof -
  from assms(5,6) obtain e e' where bad: "certificate_from_der (env_crates E) [0] = Inl e"
    "certificate_from_der (env_crates E) (replicate 200 0xFF) = Inl e'"
    by (auto simp: isl_def)
  note post = android_requests [THEN post_android [OF assms(1), rotated]]
  note defs = android_body_def attest_android_attestation_def android_request_of_json_def
    decode_hex_list_def decode_hex_def parse_security_level_def Let_def assms(2)
  show "android_empty_chain_is_400_not_panic H E state"
    by (simp add: android_empty_chain_is_400_not_panic_def defs post verify_attestation_def
        android_validate_chain_def)
  show "android_garbage_cert_bytes_is_400_not_panic H E state"
    using assms(3,4)
    by (simp add: android_garbage_cert_bytes_is_400_not_panic_def defs post chain_garbage [OF bad(2)])
  show "android_defaults_applied_when_optional_fields_absent H E state"
    by (simp add: android_defaults_applied_when_optional_fields_absent_def defs post chain_garbage [OF bad(1)])
qed

section \<open>Unit tests\<close>

definition parse_security_level_all_aliases :: bool where
  "parse_security_level_all_aliases \<longleftrightarrow>
     parse_security_level None = Ok TrustedEnvironment
     \<and> parse_security_level (Some ''software'') = Ok Software
     \<and> list_all (\<lambda>tee. parse_security_level (Some tee) = Ok TrustedEnvironment)
         [''tee'', ''trustedenvironment'', ''trusted_environment'']
     \<and> parse_security_level (Some ''strongbox'') = Ok StrongBox
     \<and> (case parse_security_level (Some ''bogus'') of Err e \<Rightarrow> True | _ \<Rightarrow> False)"

definition attesterror_into_response_is_400_with_error_body :: "environment \<Rightarrow> bool" where
  "attesterror_into_response_is_400_with_error_body E \<longleftrightarrow>
     (case hex_decode E ''zz'' of
        Inl e \<Rightarrow> (case into_response (InvalidHex ''field_x'' e) of
                    (code, message) \<Rightarrow> code = 400 \<and> contains message ''field_x'')
      | Inr b \<Rightarrow> False)"

definition nsm_init_error_message_is_descriptive :: bool where
  "nsm_init_error_message_is_descriptive \<longleftrightarrow> contains (attest_error_display NsmInit) ''NSM''"

definition request_nsm_attestation_off_enclave_errors :: "environment \<Rightarrow> bool" where
  "request_nsm_attestation_off_enclave_errors E \<longleftrightarrow>
     (case request_nsm_attestation E (replicate 32 0) [] of Err e \<Rightarrow> True | _ \<Rightarrow> False)"

text \<open>The payloads are those the handlers build from an outcome with these fields.\<close>

definition apple_payload_bcs_field_order_is_pinned :: "environment \<Rightarrow> bool" where
  "apple_payload_bcs_field_order_is_pinned E \<longleftrightarrow>
     bcs_to_bytes E (apple_payload \<lparr>source = [], attested_value = [0xAA, 0xBB], challenge = [0xCC],
                       timestamp_ms = 0, detail_hash = [0xDD, 0xEE, 0xFF]\<rparr>)
     = Inr [0x02, 0xAA, 0xBB, 0x01, 0xCC, 0x03, 0xDD, 0xEE, 0xFF]"

definition assertion_payload_bcs_field_order_is_pinned :: "environment \<Rightarrow> bool" where
  "assertion_payload_bcs_field_order_is_pinned E \<longleftrightarrow>
     bcs_to_bytes E (assertion_payload \<lparr>source = [], attested_value = [0x01, 0x02], challenge = [0x03],
                       timestamp_ms = 0, detail_hash = []\<rparr>)
     = Inr [0x02, 0x01, 0x02, 0x01, 0x03]"

definition android_payload_bcs_field_order_is_pinned :: "environment \<Rightarrow> bool" where
  "android_payload_bcs_field_order_is_pinned E \<longleftrightarrow>
     bcs_to_bytes E (android_payload \<lparr>source = [], attested_value = [0x10], challenge = [0x20, 0x21],
                       timestamp_ms = 0, detail_hash = [0x30, 0x31, 0x32]\<rparr>)
     = Inr [0x01, 0x10, 0x02, 0x20, 0x21, 0x03, 0x30, 0x31, 0x32]"

lemma unit_tests_pass:
  assumes "hex_decode E ''zz'' = Inl m" "nsm_init E < 0"
    "\<forall>parts. length (concat parts) < 100 \<longrightarrow> bcs_to_bytes E parts = Inr (bcs_struct parts)"
  shows "parse_security_level_all_aliases" "attesterror_into_response_is_400_with_error_body E"
    "nsm_init_error_message_is_descriptive" "request_nsm_attestation_off_enclave_errors E"
    "apple_payload_bcs_field_order_is_pinned E" "assertion_payload_bcs_field_order_is_pinned E"
    "android_payload_bcs_field_order_is_pinned E"
proof -
  show "parse_security_level_all_aliases"
    by (simp add: parse_security_level_all_aliases_def parse_security_level_def Let_def)
  show "attesterror_into_response_is_400_with_error_body E"
    using invalid_hex_contains [of "''field_x''" m]
    by (simp add: attesterror_into_response_is_400_with_error_body_def into_response_def assms(1)
        del: attest_error_display.simps)
  show "nsm_init_error_message_is_descriptive"
    using contains_infix [of "[]" "''NSM''" "'' init failed (not running inside a Nitro enclave?)''"]
    by (simp add: nsm_init_error_message_is_descriptive_def)
  show "request_nsm_attestation_off_enclave_errors E"
    using assms(2) by (simp add: request_nsm_attestation_off_enclave_errors_def request_nsm_attestation_def Let_def)
  show "apple_payload_bcs_field_order_is_pinned E" "assertion_payload_bcs_field_order_is_pinned E"
    "android_payload_bcs_field_order_is_pinned E"
    using assms(3)
    by (simp_all add: apple_payload_bcs_field_order_is_pinned_def assertion_payload_bcs_field_order_is_pinned_def
        android_payload_bcs_field_order_is_pinned_def apple_payload_def assertion_payload_def
        android_payload_def bcs_struct_def bcs_vec_def uleb128.simps)
qed

end
