(* ===== verification/Fixture_Tests.thy ===== *)
theory Fixture_Tests
  imports Server_Tests Core_Tests Apple_Tests Android_Tests
begin

text \<open>
  The tests that read fixture files or depend on signatures: the binding seam, the expired
  fixtures and the key of the server (\<open>rust/enclave-server/src/main.rs\<close>), the rejected assertions
  (\<open>attest-apple/src/assertion.rs\<close>) and the pinned roots (\<open>attest-android/src/roots.rs\<close>). The file
  system and its parsers are arguments, a test that does not find its files passes, and
  \<open>unwrap\<close> and \<open>expect\<close> on an error are panics. Each lemma says what of the files and of the
  signature crates makes the assertions of a test hold.
\<close>

section \<open>enclave-server: fixtures\<close>

text \<open>
  \<open>fs::read_to_string(..).ok()\<close>, the JSON value of a text, and \<open>pem::parse(..).ok()\<close> with its
  contents.
\<close>

record fixture_files =
  read_to_string :: "string \<Rightarrow> string option"
  json_of_text :: "string \<Rightarrow> json option"
  pem_contents :: "string \<Rightarrow> bytes option"

text \<open>The struct \<open>AppleFixture\<close> has the fields of \<open>AppleRequest\<close>, in the same order.\<close>

type_synonym apple_fixture = apple_request

definition load_apple_fixture :: "fixture_files \<Rightarrow> apple_fixture option" where
  "load_apple_fixture F =
     Option.bind (read_to_string F ''../attest-apple/tests/fixtures/dev_iphone_001.json'') (\<lambda>raw.
     Option.bind (json_of_text F raw) apple_request_of_json)"

fun load_chain_from :: "fixture_files \<Rightarrow> environment \<Rightarrow> nat list \<Rightarrow> string list option" where
  "load_chain_from F E [] = Some []"
| "load_chain_from F E (i # is) =
     Option.bind (read_to_string F (''../attest-android/tests/fixtures/ec_tee_cert'' @ show_nat i @ ''.pem''))
       (\<lambda>pem_str.
     Option.bind (pem_contents F pem_str) (\<lambda>der.
     map_option (\<lambda>out. hex_encode E der # out) (load_chain_from F E is)))"

definition load_android_chain_hex :: "fixture_files \<Rightarrow> environment \<Rightarrow> string list option" where
  "load_android_chain_hex F E = load_chain_from F E [0..<4]"

definition APPLE_FIXTURE_CLOCK_MS :: u64 where
  "APPLE_FIXTURE_CLOCK_MS = 1779203019000"

fun unwrap :: "'x + 'a \<Rightarrow> ('a, unit) result" where
  "unwrap (Inl e) = Panic"
| "unwrap (Inr v) = Ok v"

fun expect_ok :: "('a, 'e) result \<Rightarrow> ('a, unit) result" where
  "expect_ok (Ok v) = Ok v"
| "expect_ok r = Panic"

lemma unwrap_Ok_iff [result_simps]: "unwrap r = Ok v \<longleftrightarrow> r = Inr v"
  by (cases r) auto

lemma expect_ok_Ok_iff [result_simps]: "expect_ok r = Ok v \<longleftrightarrow> r = Ok v"
  by (cases r) auto

lemma unwrap_not_Err [simp]: "unwrap r \<noteq> Err e"
  by (cases r) auto

lemma expect_ok_not_Err [simp]: "expect_ok r \<noteq> Err e"
  by (cases r) auto

definition apple_binding_seam_matches_handler :: "fixture_files \<Rightarrow> environment \<Rightarrow> (bool, unit) result" where
  "apple_binding_seam_matches_handler F E =
     (case load_apple_fixture F of
        None \<Rightarrow> Ok True
      | Some fx \<Rightarrow>
          and_then (unwrap (hex_decode E (attestation_object_hex fx))) (\<lambda>obj.
          and_then (unwrap (hex_decode E (key_id_hex fx))) (\<lambda>key_id.
          and_then (unwrap (hex_decode E (apple_challenge_hex fx))) (\<lambda>chal.
          and_then (expect_ok (verify_app_attest (env_crates E) (apple_root_der E) obj key_id chal
              (apple_app_id fx) (production fx) APPLE_FIXTURE_CLOCK_MS)) (\<lambda>outcome.
          and_then (unwrap (bcs_to_bytes E (apple_payload outcome))) (\<lambda>bcs_bytes.
          let hash = sha256 (env_crates E) bcs_bytes in
          and_then (unwrap (bcs_to_bytes E (apple_payload outcome))) (\<lambda>bcs_again.
          Ok (source outcome = APPLE_APP_ATTEST \<and> challenge outcome = chal
            \<and> length (attested_value outcome) = 65
            \<and> bcs_bytes \<noteq> [] \<and> length hash = 32 \<and> bcs_bytes = bcs_again))))))))"

definition seam_policy :: policy where
  "seam_policy = \<lparr>min_security_level = TrustedEnvironment, require_verified_boot = False,
     allowed_self_signed_keys = [], require_device_locked = False, policy_status_list = None\<rparr>"

definition android_binding_seam_matches_handler :: "fixture_files \<Rightarrow> environment \<Rightarrow> (bool, unit) result" where
  "android_binding_seam_matches_handler F E =
     (case load_android_chain_hex F E of
        None \<Rightarrow> Ok True
      | Some hexes \<Rightarrow>
          and_then (collect_results (\<lambda>h. unwrap (hex_decode E h)) hexes) (\<lambda>chain.
          let chal = as_bytes ''abc''; clock_ms = 1700000000000 in
          and_then (expect_ok (verify_attestation (env_crates E) (google_roots_der E) chain chal
              seam_policy clock_ms)) (\<lambda>outcome.
          and_then (unwrap (bcs_to_bytes E (android_payload outcome))) (\<lambda>bcs_bytes.
          let hash = sha256 (env_crates E) bcs_bytes in
          Ok (source outcome = ANDROID_KEY_ATTEST \<and> challenge outcome = chal
            \<and> attested_value outcome \<noteq> [] \<and> length hash = 32 \<and> bcs_bytes \<noteq> [])))))"

text \<open>What \<open>bcs\<close> writes for a payload is the format of its specification, hence not empty.\<close>

definition bcs_ok :: "environment \<Rightarrow> bool" where
  "bcs_ok E \<longleftrightarrow> (\<forall>parts b. bcs_to_bytes E parts = Inr b \<longrightarrow> b = bcs_struct parts)"

lemma bcs_struct_nonempty: "bcs_struct (p # ps) \<noteq> []"
  by (simp add: bcs_struct_def bcs_vec_def uleb128_nonempty)

lemma bcs_nonempty:
  assumes "bcs_ok E" "bcs_to_bytes E (p # ps) = Inr b"
  shows "b \<noteq> []"
proof -
  have "b = bcs_struct (p # ps)" using assms unfolding bcs_ok_def by blast
  then show ?thesis by (simp add: bcs_struct_nonempty)
qed

text \<open>
  Once the fixture verifies, every assertion holds: the test can only fail by a panic, and it
  does not panic exactly when its files are absent or decode, verify at the pinned clock and
  serialize.
\<close>

lemma apple_binding_seam_holds:
  assumes "sha256_ok (env_crates E)" "bcs_ok E"
  shows "apple_binding_seam_matches_handler F E \<in> {Ok True, Panic}"
    and "load_apple_fixture F = Some fx \<Longrightarrow>
      apple_binding_seam_matches_handler F E = Ok True \<longleftrightarrow>
        (\<exists>obj key_id chal out b. hex_decode E (attestation_object_hex fx) = Inr obj
           \<and> hex_decode E (key_id_hex fx) = Inr key_id \<and> hex_decode E (apple_challenge_hex fx) = Inr chal
           \<and> verify_app_attest (env_crates E) (apple_root_der E) obj key_id chal (apple_app_id fx)
               (production fx) APPLE_FIXTURE_CLOCK_MS = Ok out
           \<and> bcs_to_bytes E (apple_payload out) = Inr b)"
proof -
  have len: "length (sha256 (env_crates E) m) = 32" for m using assms(1) by (simp add: sha256_ok_def)
  have shape: "source out = APPLE_APP_ATTEST \<and> challenge out = chal \<and> length (attested_value out) = 65"
    if "verify_app_attest (env_crates E) (apple_root_der E) obj key_id chal app_id is_prod t = Ok out"
    for obj key_id chal app_id is_prod t out
    using that by (auto simp: verify_app_attest_Ok_iff app_attest_ok_def extract_p256_pk_Ok_iff)
  have bytes: "b \<noteq> []" if "bcs_to_bytes E (apple_payload out) = Inr b" for out b
    using that bcs_nonempty [OF assms(2)] unfolding apple_payload_def by blast
  have "apple_binding_seam_matches_handler F E \<noteq> Err e" for e
    by (auto simp: apple_binding_seam_matches_handler_def and_then_Err_iff Let_def split: option.splits)
  moreover have "r = True" if "apple_binding_seam_matches_handler F E = Ok r" for r
    using that
    by (auto simp: apple_binding_seam_matches_handler_def result_simps Let_def len split: option.splits
        dest: shape bytes)
  ultimately show "apple_binding_seam_matches_handler F E \<in> {Ok True, Panic}"
    by (cases "apple_binding_seam_matches_handler F E") auto
  show "apple_binding_seam_matches_handler F E = Ok True \<longleftrightarrow>
        (\<exists>obj key_id chal out b. hex_decode E (attestation_object_hex fx) = Inr obj
           \<and> hex_decode E (key_id_hex fx) = Inr key_id \<and> hex_decode E (apple_challenge_hex fx) = Inr chal
           \<and> verify_app_attest (env_crates E) (apple_root_der E) obj key_id chal (apple_app_id fx)
               (production fx) APPLE_FIXTURE_CLOCK_MS = Ok out
           \<and> bcs_to_bytes E (apple_payload out) = Inr b)" if "load_apple_fixture F = Some fx"
    using that
    by (auto simp: apple_binding_seam_matches_handler_def result_simps Let_def len dest: shape bytes)
qed

lemma android_binding_seam_holds:
  assumes "sha256_ok (env_crates E)" "bcs_ok E"
    and "\<And>k b. spki_to_der (env_crates E) k = Inr b \<Longrightarrow> b \<noteq> []"
  shows "android_binding_seam_matches_handler F E \<in> {Ok True, Panic}"
proof -
  have len: "length (sha256 (env_crates E) m) = 32" for m using assms(1) by (simp add: sha256_ok_def)
  have shape: "source out = ANDROID_KEY_ATTEST \<and> challenge out = chal \<and> attested_value out \<noteq> []"
    if "verify_attestation (env_crates E) roots chain chal p t = Ok out" for roots chain chal p t out
    using that assms(3) by (auto simp: verify_attestation_Ok_iff)
  have bytes: "b \<noteq> []" if "bcs_to_bytes E (android_payload out) = Inr b" for out b
    using that bcs_nonempty [OF assms(2)] unfolding android_payload_def by blast
  have no_err: "collect_results (\<lambda>h. unwrap (hex_decode E h)) hs \<noteq> Err e" for hs e
    by (induction hs) (auto simp: and_then_Err_iff)
  then have "android_binding_seam_matches_handler F E \<noteq> Err e" for e
    by (auto simp: android_binding_seam_matches_handler_def and_then_Err_iff Let_def split: option.splits)
  moreover have "r = True" if "android_binding_seam_matches_handler F E = Ok r" for r
    using that
    by (auto simp: android_binding_seam_matches_handler_def result_simps Let_def len split: option.splits
        dest: shape bytes)
  ultimately show ?thesis by (cases "android_binding_seam_matches_handler F E") auto
qed

section \<open>enclave-server: expired fixtures\<close>

definition apple_real_fixture_expired_cert_is_400 ::
    "http_stack \<Rightarrow> environment \<Rightarrow> app_state \<Rightarrow> fixture_files \<Rightarrow> bool" where
  "apple_real_fixture_expired_cert_is_400 H E state F \<longleftrightarrow>
     (case load_apple_fixture F of
        None \<Rightarrow> True
      | Some fx \<Rightarrow> has_status 400 (send H E state (post_json H ''/attest/apple/attestation''
          (apple_body (attestation_object_hex fx) (key_id_hex fx) (apple_challenge_hex fx)
             (apple_app_id fx) (production fx)))))"

definition android_real_chain_expired_root_is_400 ::
    "http_stack \<Rightarrow> environment \<Rightarrow> app_state \<Rightarrow> fixture_files \<Rightarrow> bool" where
  "android_real_chain_expired_root_is_400 H E state F \<longleftrightarrow>
     (case load_android_chain_hex F E of
        None \<Rightarrow> True
      | Some refs \<Rightarrow> has_status 400 (send H E state (post_json H ''/attest/android/attestation''
          (android_body_with refs ''00'' [(''require_verified_boot'', JBool False),
             (''require_device_locked'', JBool False)]))))"

text \<open>A handler that does not accept answers with 400.\<close>

lemma refusal_is_400:
  "r \<noteq> Panic \<Longrightarrow> (\<And>v. r \<noteq> Ok v) \<Longrightarrow> has_status 400 (answer body r)"
  by (cases r) auto

lemma apple_expired_passes:
  assumes "stack_ok H" "crate_times_ok (env_crates E)"
    and "load_apple_fixture F = Some fx"
    and "length (attestation_object_hex fx) \<le> 150000" "length (key_id_hex fx) \<le> 100"
      "length (apple_challenge_hex fx) \<le> 100" "length (apple_app_id fx) \<le> 100"
    and "hex_decode E (attestation_object_hex fx) = Inr obj"
      "decode_attestation_object (env_crates E) obj = Ok st"
    and "d \<in> set (st_x5c st)" "parse_cert (env_crates E) d = Some c" "\<not> valid_at c (stamp_ms E)"
  shows "apple_real_fixture_expired_cert_is_400 H E state F"
proof -
  have "attest_apple_attestation E state fx \<noteq> Ok resp" for resp
  proof
    assume "attest_apple_attestation E state fx = Ok resp"
    then obtain certs where "apple_chain_ok (env_crates E) (apple_root_der E) (st_x5c st) (stamp_ms E) certs"
      using assms(8,9) unfolding apple_handler_Ok_iff verify_app_attest_Ok_iff app_attest_ok_def by auto
    then have "apple_validate_x5c_chain (env_crates E) (apple_root_der E) (st_x5c st) (stamp_ms E)
        = Ok (hd certs)" unfolding apple_validate_Ok_iff by blast
    with apple_chain.outdated_rejected [OF assms(10-12)] show False by blast
  qed
  then have refused: "has_status 400 (answer AttestJson (attest_apple_attestation E state fx))"
    using handlers_not_Panic(1) [OF assms(2)] by (intro refusal_is_400)
  have whole: "\<lparr>attestation_object_hex = attestation_object_hex fx, key_id_hex = key_id_hex fx,
      apple_challenge_hex = apple_challenge_hex fx, apple_app_id = apple_app_id fx,
      production = production fx\<rparr> = fx" by simp
  show ?thesis
    using assms(3-7) refused
    by (simp add: apple_real_fixture_expired_cert_is_400_def post_apple_body [OF assms(1)] whole)
qed

lemma all_strings_map [simp]: "all_strings (map JString ss) = Some ss"
  by (induction ss) auto

lemma json_weight_strings: "sum_list (map json_weight (map JString ss)) = sum_list (map length ss) + length ss"
  by (induction ss) auto

lemma android_expired_passes:
  assumes "stack_ok H" "crate_times_ok (env_crates E)"
    and "load_android_chain_hex F E = Some refs" "sum_list (map length refs) + length refs \<le> 100000"
    and "list_all2 (\<lambda>h b. hex_decode E h = Inr b) refs chain"
    and "d \<in> set chain" "parse_cert (env_crates E) d = Some c" "\<not> valid_at c (stamp_ms E)"
  shows "android_real_chain_expired_root_is_400 H E state F"
proof -
  define req where "req = android_request_of_json refs ''00'' None (Some False) (Some False) None None"
  have "attest_android_attestation E state req \<noteq> Ok resp" for resp
  proof
    assume "attest_android_attestation E state req = Ok resp"
    then obtain ch chal p out where "list_all2 (\<lambda>h b. hex_decode E h = Inr b) refs ch"
      "verify_attestation (env_crates E) (google_roots_der E) ch chal p (stamp_ms E) = Ok out"
      unfolding android_handler_Ok_iff by (auto simp: req_def android_request_of_json_def)
    moreover from this(1) assms(5) have "ch = chain"
      by (auto simp: list_all2_conv_all_nth intro: nth_equalityI)
    ultimately obtain leaf where
      "android_validate_chain (env_crates E) (google_roots_der E) chain (stamp_ms E) = Ok leaf"
      unfolding verify_attestation_Ok_iff by blast
    with android_chain.outdated_rejected [OF assms(6-8)] show False by blast
  qed
  then have "has_status 400 (answer AttestJson (attest_android_attestation E state req))"
    using handlers_not_Panic(3) [OF assms(2)] by (intro refusal_is_400)
  moreover have "android_request_from_json (JObject ([(''chain_hex'', JArray (map JString refs)),
      (''challenge_hex'', JString ''00'')] @ [(''require_verified_boot'', JBool False),
      (''require_device_locked'', JBool False)])) = Some req"
    by (simp add: android_request_from_json_def req_def)
  moreover have "json_weight (JObject ([(''chain_hex'', JArray (map JString refs)),
      (''challenge_hex'', JString ''00'')] @ [(''require_verified_boot'', JBool False),
      (''require_device_locked'', JBool False)])) \<le> 200000"
    using assms(4) json_weight_strings [of refs] by simp
  ultimately show ?thesis
    using assms(3) post_android [OF assms(1), where req = req]
    by (simp add: android_real_chain_expired_root_is_400_def android_body_with_def)
qed

section \<open>enclave-server: the key in the state\<close>

text \<open>
  A key pair of \<open>ed25519-dalek\<close>: the public half of a secret key, its signatures and their
  verification.
\<close>

record dalek =
  dalek_public :: "bytes \<Rightarrow> bytes"
  dalek_sign :: "bytes \<Rightarrow> bytes \<Rightarrow> bytes"
  dalek_verify :: "bytes \<Rightarrow> bytes \<Rightarrow> bytes \<Rightarrow> bool"

definition test_state :: "dalek \<Rightarrow> bytes \<Rightarrow> app_state" where
  "test_state K generated = (let key = generated in
     \<lparr>signing_key = key, verifying_key = dalek_public K key\<rparr>)"

definition signing_test_outcome :: outcome where
  "signing_test_outcome = \<lparr>source = APPLE_APP_ATTEST, attested_value = replicate 65 0x04,
     challenge = replicate 32 0xAB, timestamp_ms = APPLE_FIXTURE_CLOCK_MS,
     detail_hash = replicate 32 0xCD\<rparr>"

definition signing_key_roundtrips_over_bcs_outcome ::
    "dalek \<Rightarrow> codec \<Rightarrow> bytes \<Rightarrow> (bool, unit) result" where
  "signing_key_roundtrips_over_bcs_outcome K C generated =
     (let state = test_state K generated in
      and_then (unwrap (to_bcs C signing_test_outcome)) (\<lambda>msg.
      let sig = dalek_sign K (signing_key state) msg in
      and_then (index msg 0) (\<lambda>first.
      let tampered = msg[0 := first XOR 0xFF] in
      Ok (dalek_verify K (verifying_key state) msg sig
        \<and> \<not> dalek_verify K (verifying_key state) tampered sig))))"

definition state_verifying_key_derives_from_signing_key :: "dalek \<Rightarrow> bytes \<Rightarrow> bool" where
  "state_verifying_key_derives_from_signing_key K generated \<longleftrightarrow>
     (let state = test_state K generated in verifying_key state = dalek_public K (signing_key state))"

text \<open>Signatures verify under the public half, and the one of the test verifies nothing else.\<close>

lemma signing_tests_pass:
  assumes "codec_ok C" and "\<And>m. dalek_verify K (dalek_public K k) m (dalek_sign K k m)"
    and "\<And>m m'. to_bcs C signing_test_outcome = Inr m \<Longrightarrow> m' \<noteq> m
           \<Longrightarrow> \<not> dalek_verify K (dalek_public K k) m' (dalek_sign K k m)"
  shows "signing_key_roundtrips_over_bcs_outcome K C k = Ok True"
    and "state_verifying_key_derives_from_signing_key K k"
proof -
  show "state_verifying_key_derives_from_signing_key K k"
    by (simp add: state_verifying_key_derives_from_signing_key_def test_state_def Let_def)
  have "outcome_ok signing_test_outcome"
    by (rule outcome_okI) (simp_all add: signing_test_outcome_def source_ascii)
  moreover have "outcome_layout signing_test_outcome \<noteq> []"
    by (simp add: outcome_layout_def outcome_fields_def bcs_vec_def uleb128_nonempty)
  ultimately obtain msg where msg: "to_bcs C signing_test_outcome = Inr msg" "msg \<noteq> []"
    by (simp add: to_bcs_Inr_iff [OF assms(1)])
  show "signing_key_roundtrips_over_bcs_outcome K C k = Ok True"
  proof -
    have "msg ! 0 XOR 0xFF \<noteq> msg ! 0"
    proof
      assume "msg ! 0 XOR 0xFF = msg ! 0"
      then have "msg ! 0 XOR (msg ! 0 XOR 0xFF) = 0" by simp
      then show False by (simp add: xor.assoc [symmetric])
    qed
    then have "msg[0 := msg ! 0 XOR 0xFF] \<noteq> msg" using msg(2) by (metis length_greater_0_conv nth_list_update_eq)
    then show ?thesis
      using assms(2,3) msg
      by (simp add: signing_key_roundtrips_over_bcs_outcome_def test_state_def Let_def index_def)
  qed
qed

section \<open>assertion.rs: rejected assertions\<close>

text \<open>What \<open>keypair\<close> asserts of the encoded public key.\<close>

definition keypair_checks :: "bytes \<Rightarrow> bool" where
  "keypair_checks pk \<longleftrightarrow> length pk = 65 \<and> pk ! 0 = 0x04"

definition wrong_attested_key_rejected ::
    "crates \<Rightarrow> (cbor_value \<Rightarrow> bytes) \<Rightarrow> (bytes \<Rightarrow> bytes) \<Rightarrow> bytes \<Rightarrow> bool" where
  "wrong_attested_key_rejected X W sk other_pk \<longleftrightarrow>
     (let client_data = as_bytes ''payload'';
          ad = auth_data_for X APP_ID 1;
          sig = sign X sk ad client_data;
          blob = encode_assertion W sig ad in
      verify_assertion X blob client_data other_pk APP_ID CLOCK = Err UntrustedChain)"

definition tampered_signature_rejected ::
    "crates \<Rightarrow> (cbor_value \<Rightarrow> bytes) \<Rightarrow> (bytes \<Rightarrow> bytes) \<Rightarrow> bytes \<Rightarrow> bool" where
  "tampered_signature_rejected X W sk pk \<longleftrightarrow>
     (let client_data = as_bytes ''payload'';
          ad = auth_data_for X APP_ID 1;
          sig = sign X sk ad client_data;
          last_index = length sig - 1;
          sig' = sig[last_index := (sig ! last_index) XOR 0x01];
          blob = encode_assertion W sig' ad in
      case verify_assertion X blob client_data pk APP_ID CLOCK of
        Err UntrustedChain \<Rightarrow> True | Err (Der m) \<Rightarrow> True | _ \<Rightarrow> False)"

definition wrong_client_data_rejected ::
    "crates \<Rightarrow> (cbor_value \<Rightarrow> bytes) \<Rightarrow> (bytes \<Rightarrow> bytes) \<Rightarrow> bytes \<Rightarrow> bool" where
  "wrong_client_data_rejected X W sk pk \<longleftrightarrow>
     (let ad = auth_data_for X APP_ID 1;
          sig = sign X sk ad (as_bytes ''the real payload'');
          blob = encode_assertion W sig ad in
      verify_assertion X blob (as_bytes ''a different payload'') pk APP_ID CLOCK = Err UntrustedChain)"

definition tampered_auth_data_breaks_signature ::
    "crates \<Rightarrow> (cbor_value \<Rightarrow> bytes) \<Rightarrow> (bytes \<Rightarrow> bytes) \<Rightarrow> bytes \<Rightarrow> bool" where
  "tampered_auth_data_breaks_signature X W sk pk \<longleftrightarrow>
     (let client_data = as_bytes ''payload'';
          ad = auth_data_for X APP_ID 1;
          sig = sign X sk ad client_data;
          tampered = ad[36 := (ad ! 36) XOR 0xFF];
          blob = encode_assertion W sig tampered in
      verify_assertion X blob client_data pk APP_ID CLOCK = Err UntrustedChain)"

text \<open>The signature parses, and does not verify for the digest under the key.\<close>

definition refuses :: "crates \<Rightarrow> bytes \<Rightarrow> bytes \<Rightarrow> bytes \<Rightarrow> bool" where
  "refuses X pk d sig \<longleftrightarrow> (\<exists>key s. p256_key_from_sec1 X pk = Inr key
     \<and> p256_signature_from_der X sig = Inr s \<and> \<not> p256_verify_prehash X key d s)"

lemma refused_assertion:
  assumes "ciborium_ok X W" "length sig \<le> 72" "length ad = 37" "take 32 ad = sha256 X (as_bytes app_id)"
    and "refuses X pk (sha256 X (ad @ sha256 X cd)) sig"
  shows "verify_assertion X (encode_assertion W sig ad) cd pk app_id t = Err UntrustedChain"
  using assms by (auto simp: verify_encoded_assertion assertion_verdict_def refuses_def)

lemma rejected_assertion_tests_pass:
  assumes "ciborium_ok X W" "sha256_ok X" "keypair_ok X sk pk"
    and ad: "ad = auth_data_for X APP_ID 1" "tampered = ad[36 := (ad ! 36) XOR 0xFF]"
    and "refuses X other_pk (sha256 X (ad @ sha256 X (as_bytes ''payload'')))
           (sign X sk ad (as_bytes ''payload''))"
    and "refuses X pk (sha256 X (ad @ sha256 X (as_bytes ''a different payload'')))
           (sign X sk ad (as_bytes ''the real payload''))"
    and "refuses X pk (sha256 X (tampered @ sha256 X (as_bytes ''payload'')))
           (sign X sk ad (as_bytes ''payload''))"
  shows "wrong_attested_key_rejected X W sk other_pk" "wrong_client_data_rejected X W sk pk"
    "tampered_auth_data_breaks_signature X W sk pk"
proof -
  have sk: "length (sign X sk a cd) \<le> 72" for a cd
    using assms(3) by (auto simp: keypair_ok_def sign_def)
  note simps = auth_data_for_simps [OF assms(2)]
  note refused = refused_assertion [OF assms(1) sk]
  show "wrong_attested_key_rejected X W sk other_pk" "wrong_client_data_rejected X W sk pk"
    using assms(6,7) unfolding ad
    by (simp_all add: wrong_attested_key_rejected_def wrong_client_data_rejected_def Let_def refused simps)
  have "length tampered = 37" "take 32 tampered = sha256 X (as_bytes APP_ID)"
    unfolding ad by (simp_all add: simps)
  then show "tampered_auth_data_breaks_signature X W sk pk"
    using assms(8) unfolding ad
    by (simp add: tampered_auth_data_breaks_signature_def Let_def refused)
qed

text \<open>With a flipped bit the signature does not parse, or parses and does not verify.\<close>

lemma tampered_signature_test_passes:
  assumes "ciborium_ok X W" "sha256_ok X" "keypair_ok X sk pk"
    and sig: "sig = sign X sk (auth_data_for X APP_ID 1) (as_bytes ''payload'')"
      "sig' = sig[length sig - 1 := (sig ! (length sig - 1)) XOR 0x01]"
    and "isl (p256_signature_from_der X sig')
       \<or> refuses X pk (sha256 X (auth_data_for X APP_ID 1 @ sha256 X (as_bytes ''payload''))) sig'"
  shows "tampered_signature_rejected X W sk pk"
proof -
  have "length sig' \<le> 72" using assms(3) unfolding sig by (auto simp: keypair_ok_def sign_def)
  moreover obtain key where "p256_key_from_sec1 X pk = Inr key" using assms(3) by (auto simp: keypair_ok_def)
  ultimately have "verify_assertion X (encode_assertion W sig' (auth_data_for X APP_ID 1)) (as_bytes ''payload'')
      pk APP_ID CLOCK \<in> {Err UntrustedChain} \<union> range (\<lambda>m. Err (Der m))"
    using assms(6)
    by (auto simp: verify_encoded_assertion [OF assms(1)] auth_data_for_simps [OF assms(2)]
        assertion_verdict_def refuses_def isl_def)
  moreover have "tampered_signature_rejected X W sk pk \<longleftrightarrow>
      (case verify_assertion X (encode_assertion W sig' (auth_data_for X APP_ID 1)) (as_bytes ''payload'')
          pk APP_ID CLOCK of
        Err UntrustedChain \<Rightarrow> True | Err (Der m) \<Rightarrow> True | _ \<Rightarrow> False)"
    by (simp add: tampered_signature_rejected_def Let_def sig)
  ultimately show ?thesis by auto
qed

section \<open>attest-android/roots.rs: the pinned roots\<close>

definition pinned_roots_parse :: "crates \<Rightarrow> bytes list \<Rightarrow> bool" where
  "pinned_roots_parse X pinned_roots_der \<longleftrightarrow>
     list_all (\<lambda>d. case certificate_from_der X d of
                     Inr cert \<Rightarrow> serial_number (tbs cert) \<noteq> [] | Inl e \<Rightarrow> False) pinned_roots_der"

definition root_self_verifies :: "crates \<Rightarrow> bytes list \<Rightarrow> nat \<Rightarrow> bool" where
  "root_self_verifies X pinned_roots_der i \<longleftrightarrow>
     (case get pinned_roots_der i of
        Some d \<Rightarrow>
          (case certificate_from_der X d of
             Inr cert \<Rightarrow> is_ok (android_verify_signature X cert cert) | Inl e \<Rightarrow> False)
      | None \<Rightarrow> False)"

definition rsa_root_self_verifies :: "crates \<Rightarrow> bytes list \<Rightarrow> bool" where
  "rsa_root_self_verifies X pinned_roots_der = root_self_verifies X pinned_roots_der 0"

definition ec_root_self_verifies :: "crates \<Rightarrow> bytes list \<Rightarrow> bool" where
  "ec_root_self_verifies X pinned_roots_der = root_self_verifies X pinned_roots_der 1"

text \<open>
  What the tests establish of the two files: they parse and verify under their own keys, which
  is what makes a chain that ends in one of them pass the walk over its neighbours.
\<close>

lemma root_tests_iff:
  "pinned_roots_parse X [d0, d1] \<and> rsa_root_self_verifies X [d0, d1] \<and> ec_root_self_verifies X [d0, d1]
   \<longleftrightarrow> (\<exists>c0 c1. parse_cert X d0 = Some c0 \<and> parse_cert X d1 = Some c1
         \<and> serial_number (tbs c0) \<noteq> [] \<and> serial_number (tbs c1) \<noteq> []
         \<and> android_signed_by X c0 c0 \<and> android_signed_by X c1 c1)"
  by (auto simp: pinned_roots_parse_def rsa_root_self_verifies_def ec_root_self_verifies_def
      root_self_verifies_def get_def is_ok_iff android_verify_signature_Ok_iff split: sum.splits)

end
