(* ===== verification/Binding_Tests.thy ===== *)
theory Binding_Tests
  imports Binding_Ledger
begin

text \<open>
  The unit tests of \<open>move/device_binding/sources/device_binding.move\<close>, run in the model: each test
  function is the Boolean of its assertions and is proved true. The test's own marker types
  \<open>TestSource\<close> and \<open>TestScheme\<close> are any source and scheme, the clock's time and the fresh
  identifiers are arguments; a test that moves objects runs on the ledger.
\<close>

section \<open>Helpers\<close>

definition TEST_PK :: bytes where
  "TEST_PK = as_bytes ''device-public-key''"

definition test_witness :: "witness_source \<Rightarrow> bytes \<Rightarrow> attestation_witness" where
  "test_witness src pk =
     \<lparr>witness_of = src, witness_attested_value = pk, witness_challenge = as_bytes ''challenge'',
      witness_timestamp_ms = 0, witness_detail_hash = as_bytes ''detail''\<rparr>"

text \<open>
  What the helper and the tests of \<open>action_message\<close> and \<open>verify_action\<close> share: the names of the
  types, the markers, the time at which the binding is made and its identifier.
\<close>

record bind_setup =
  set_names :: type_names
  set_source :: witness_source
  set_scheme :: scheme
  set_clock :: u64

definition fresh_binding :: "bind_setup \<Rightarrow> address \<Rightarrow> (device_binding \<times> binding_event, binding_error) result" where
  "fresh_binding T i =
     new_binding (set_names T) (test_witness (set_source T) TEST_PK) (set_scheme T) TEST_PK (set_clock T) i"

text \<open>A test passes when nothing aborts and its assertions hold.\<close>

definition passes :: "('a, 'e) result \<Rightarrow> ('a \<Rightarrow> bool) \<Rightarrow> bool" where
  "passes r assertions \<longleftrightarrow> (case r of Ok x \<Rightarrow> assertions x | _ \<Rightarrow> False)"

definition bound :: "bind_setup \<Rightarrow> address \<Rightarrow> device_binding" where
  "bound T i = \<lparr>binding_source = set_source T, binding_scheme = set_scheme T, binding_id = i,
     binding_pk = TEST_PK, issued_at_ms = set_clock T\<rparr>"

lemma fresh_binding_Ok:
  "fresh_binding T i = Ok (bound T i, DeviceBoundEvent i (source_name (set_names T) (set_source T))
     (scheme_name (set_names T) (set_scheme T)))"
  by (simp add: fresh_binding_def new_binding_def test_witness_def bound_def)

text \<open>The scenario of the tests on the ledger: a transaction of \<open>@0xA\<close> mints a binding.\<close>

definition minted_ledger :: "bind_setup \<Rightarrow> address \<Rightarrow> (device_binding \<times> ledger, binding_error) result" where
  "minted_ledger T i =
     and_then (fresh_binding T i) (\<lambda>made.
     Ok (fst made, enrol (test_witness (set_source T) TEST_PK) made (genesis 0xA (set_clock T))))"

lemma passes_fresh [simp]:
  "passes (fresh_binding T i) P \<longleftrightarrow> P (bound T i, DeviceBoundEvent i (source_name (set_names T) (set_source T))
     (scheme_name (set_names T) (set_scheme T)))"
  by (simp add: passes_def fresh_binding_Ok)

section \<open>Enrolment\<close>

definition test_new_rejects_key_mismatch :: "bind_setup \<Rightarrow> address \<Rightarrow> bool" where
  "test_new_rejects_key_mismatch T i \<longleftrightarrow>
     new_binding (set_names T) (test_witness (set_source T) TEST_PK) (set_scheme T) (as_bytes ''a-different-key'')
       (set_clock T) i = Err EKeyMismatch"

definition test_issued_at_recorded :: "bind_setup \<Rightarrow> address \<Rightarrow> bool" where
  "test_issued_at_recorded T i \<longleftrightarrow>
     passes (fresh_binding (T\<lparr>set_clock := 777\<rparr>) i) (\<lambda>(b, _). issued_at_ms b = 777)"

definition test_new_records_pk_and_issued_at_from_clock :: "bind_setup \<Rightarrow> address \<Rightarrow> bool" where
  "test_new_records_pk_and_issued_at_from_clock T i \<longleftrightarrow>
     passes (fresh_binding (T\<lparr>set_clock := 123456\<rparr>) i) (\<lambda>(b, _). binding_pk b = TEST_PK \<and> issued_at_ms b = 123456)"

text \<open>The printed name of a type is not empty.\<close>

definition test_new_emits_device_bound_event :: "bind_setup \<Rightarrow> address \<Rightarrow> bool" where
  "test_new_emits_device_bound_event T i \<longleftrightarrow>
     passes (minted_ledger T i) (\<lambda>(b, L).
       (case emitted L of
          [DeviceBoundEvent j src sch] \<Rightarrow> j = binding_id b \<and> 0 < length src \<and> 0 < length sch
        | _ \<Rightarrow> False))"

definition test_new_accepts_empty_pk_when_attested_value_empty :: "bind_setup \<Rightarrow> address \<Rightarrow> bool" where
  "test_new_accepts_empty_pk_when_attested_value_empty T i \<longleftrightarrow>
     passes (new_binding (set_names T) (test_witness (set_source T) []) (set_scheme T) [] (set_clock T) i)
       (\<lambda>(b, _). binding_pk b = [])"

lemma new_tests_pass:
  "test_new_rejects_key_mismatch T i" "test_issued_at_recorded T i"
  "test_new_records_pk_and_issued_at_from_clock T i"
  "test_new_accepts_empty_pk_when_attested_value_empty T i"
  by (simp_all add: test_new_rejects_key_mismatch_def new_binding_def test_witness_def TEST_PK_def as_bytes_def
      test_issued_at_recorded_def bound_def test_new_records_pk_and_issued_at_from_clock_def
      test_new_accepts_empty_pk_when_attested_value_empty_def passes_def fresh_binding_Ok)

lemma new_event_test_passes:
  assumes "source_name (set_names T) (set_source T) \<noteq> []" "scheme_name (set_names T) (set_scheme T) \<noteq> []"
  shows "test_new_emits_device_bound_event T i"
  using assms by (simp add: test_new_emits_device_bound_event_def minted_ledger_def passes_def fresh_binding_Ok
      bound_def enrol_def genesis_def)

section \<open>The action message\<close>

text \<open>The texts of the tests.\<close>

abbreviation "transfer_domain \<equiv> as_bytes ''miso/transfer''"
abbreviation "redeem_domain \<equiv> as_bytes ''miso/redeem''"

definition test_action_message_is_deterministic :: "bind_setup \<Rightarrow> address \<Rightarrow> bool" where
  "test_action_message_is_deterministic T i \<longleftrightarrow>
     passes (fresh_binding T i) (\<lambda>(b, _).
       let m1 = action_message b transfer_domain (as_bytes ''action'') 1000;
           m2 = action_message b transfer_domain (as_bytes ''action'') 1000 in m1 = m2 \<and> 0 < length m1)"

definition test_action_message_distinct_per_domain :: "bind_setup \<Rightarrow> address \<Rightarrow> bool" where
  "test_action_message_distinct_per_domain T i \<longleftrightarrow>
     passes (fresh_binding T i) (\<lambda>(b, _).
       action_message b transfer_domain (as_bytes ''action'') 1000 \<noteq> action_message b redeem_domain (as_bytes ''action'') 1000)"

definition test_action_message_distinct_per_action_hash :: "bind_setup \<Rightarrow> address \<Rightarrow> bool" where
  "test_action_message_distinct_per_action_hash T i \<longleftrightarrow>
     passes (fresh_binding T i) (\<lambda>(b, _).
       action_message b transfer_domain (as_bytes ''action-a'') 1000 \<noteq> action_message b transfer_domain (as_bytes ''action-b'') 1000)"

definition test_action_message_distinct_per_expiry :: "bind_setup \<Rightarrow> address \<Rightarrow> bool" where
  "test_action_message_distinct_per_expiry T i \<longleftrightarrow>
     passes (fresh_binding T i) (\<lambda>(b, _).
       action_message b transfer_domain (as_bytes ''action'') 1000 \<noteq> action_message b transfer_domain (as_bytes ''action'') 2000)"

definition test_action_message_distinct_per_binding_id :: "bind_setup \<Rightarrow> address \<Rightarrow> address \<Rightarrow> bool" where
  "test_action_message_distinct_per_binding_id T i j \<longleftrightarrow>
     passes (fresh_binding T i) (\<lambda>(b1, _). passes (fresh_binding T j) (\<lambda>(b2, _).
       binding_id b1 \<noteq> binding_id b2
       \<and> action_message b1 transfer_domain (as_bytes ''action'') 1000
           \<noteq> action_message b2 transfer_domain (as_bytes ''action'') 1000))"

text \<open>How two messages of the tests differ: in length, or in one part of the same length.\<close>

lemma messages_differ:
  "length d \<noteq> length d' \<Longrightarrow> canonical_message i d a e \<noteq> canonical_message i d' a e"
  "a \<noteq> a' \<Longrightarrow> canonical_message i d a e \<noteq> canonical_message i d a' e"
  "e \<noteq> e' \<Longrightarrow> canonical_message i d a e \<noteq> canonical_message i d a e'"
  "i \<noteq> j \<Longrightarrow> canonical_message i d a e \<noteq> canonical_message j d a e"
proof -
  show "canonical_message i d a e \<noteq> canonical_message i d' a e" if "length d \<noteq> length d'"
  proof
    assume "canonical_message i d a e = canonical_message i d' a e"
    from arg_cong [OF this, of length] that show False by (simp add: canonical_message_def)
  qed
qed (simp_all add: canonical_message_inject)

lemma action_message_tests_pass:
  "test_action_message_is_deterministic T i" "test_action_message_distinct_per_domain T i"
  "test_action_message_distinct_per_action_hash T i" "test_action_message_distinct_per_expiry T i"
  "i \<noteq> j \<Longrightarrow> test_action_message_distinct_per_binding_id T i j"
proof -
  show "test_action_message_is_deterministic T i"
    by (simp add: test_action_message_is_deterministic_def action_message_def canonical_message_def MESSAGE_PREFIX_def as_bytes_def)
  show "test_action_message_distinct_per_domain T i" "test_action_message_distinct_per_action_hash T i"
    "test_action_message_distinct_per_expiry T i"
    by (simp_all add: test_action_message_distinct_per_domain_def test_action_message_distinct_per_action_hash_def
        test_action_message_distinct_per_expiry_def action_message_def messages_differ as_bytes_def)
  show "test_action_message_distinct_per_binding_id T i j" if "i \<noteq> j"
    using that by (simp add: test_action_message_distinct_per_binding_id_def action_message_def bound_def messages_differ)
qed

section \<open>Verifying an action\<close>

definition test_verify_action_accepts_matching_receipt :: "bind_setup \<Rightarrow> address \<Rightarrow> bool" where
  "test_verify_action_accepts_matching_receipt T i \<longleftrightarrow>
     passes (fresh_binding (T\<lparr>set_clock := 0\<rparr>) i) (\<lambda>(b, _).
       let msg = action_message b transfer_domain (as_bytes ''action'') 1000;
           rec = verified (set_scheme T) TEST_PK msg in
       verify_action b rec transfer_domain (as_bytes ''action'') 1000 0)"

definition test_verify_action_rejects_wrong_key_action_and_expiry :: "bind_setup \<Rightarrow> address \<Rightarrow> bool" where
  "test_verify_action_rejects_wrong_key_action_and_expiry T i \<longleftrightarrow>
     passes (fresh_binding (T\<lparr>set_clock := 0\<rparr>) i) (\<lambda>(b, _).
       let msg = action_message b transfer_domain (as_bytes ''action'') 1000 in
       \<not> verify_action b (verified (set_scheme T) (as_bytes ''other-key'') msg) transfer_domain (as_bytes ''action'') 1000 0
       \<and> \<not> verify_action b (verified (set_scheme T) TEST_PK msg) transfer_domain (as_bytes ''other'') 1000 0
       \<and> (let msg2 = action_message b transfer_domain (as_bytes ''action'') 1000 in
          \<not> verify_action b (verified (set_scheme T) TEST_PK msg2) transfer_domain (as_bytes ''action'') 1000 2000))"

definition test_verify_action_rejects_wrong_key_only :: "bind_setup \<Rightarrow> address \<Rightarrow> bool" where
  "test_verify_action_rejects_wrong_key_only T i \<longleftrightarrow>
     passes (fresh_binding (T\<lparr>set_clock := 0\<rparr>) i) (\<lambda>(b, _).
       let msg = action_message b transfer_domain (as_bytes ''action'') 1000;
           rec = verified (set_scheme T) (as_bytes ''attacker-key'') msg in
       \<not> verify_action b rec transfer_domain (as_bytes ''action'') 1000 0)"

definition test_verify_action_rejects_wrong_domain_only :: "bind_setup \<Rightarrow> address \<Rightarrow> bool" where
  "test_verify_action_rejects_wrong_domain_only T i \<longleftrightarrow>
     passes (fresh_binding (T\<lparr>set_clock := 0\<rparr>) i) (\<lambda>(b, _).
       let msg = action_message b transfer_domain (as_bytes ''action'') 1000;
           rec = verified (set_scheme T) TEST_PK msg in
       \<not> verify_action b rec redeem_domain (as_bytes ''action'') 1000 0)"

definition test_verify_action_rejects_wrong_action_only :: "bind_setup \<Rightarrow> address \<Rightarrow> bool" where
  "test_verify_action_rejects_wrong_action_only T i \<longleftrightarrow>
     passes (fresh_binding (T\<lparr>set_clock := 0\<rparr>) i) (\<lambda>(b, _).
       let msg = action_message b transfer_domain (as_bytes ''action-a'') 1000;
           rec = verified (set_scheme T) TEST_PK msg in
       \<not> verify_action b rec transfer_domain (as_bytes ''action-b'') 1000 0)"

definition test_verify_action_rejects_wrong_expiry_in_message_only :: "bind_setup \<Rightarrow> address \<Rightarrow> bool" where
  "test_verify_action_rejects_wrong_expiry_in_message_only T i \<longleftrightarrow>
     passes (fresh_binding (T\<lparr>set_clock := 0\<rparr>) i) (\<lambda>(b, _).
       let msg = action_message b transfer_domain (as_bytes ''action'') 1000;
           rec = verified (set_scheme T) TEST_PK msg in
       \<not> verify_action b rec transfer_domain (as_bytes ''action'') 2000 0)"

definition test_verify_action_rejects_expired_clock_only :: "bind_setup \<Rightarrow> address \<Rightarrow> bool" where
  "test_verify_action_rejects_expired_clock_only T i \<longleftrightarrow>
     passes (fresh_binding (T\<lparr>set_clock := 0\<rparr>) i) (\<lambda>(b, _).
       let msg = action_message b transfer_domain (as_bytes ''action'') 1000;
           rec = verified (set_scheme T) TEST_PK msg in
       \<not> verify_action b rec transfer_domain (as_bytes ''action'') 1000 1001)"

definition test_verify_action_accepts_at_expiry_boundary :: "bind_setup \<Rightarrow> address \<Rightarrow> bool" where
  "test_verify_action_accepts_at_expiry_boundary T i \<longleftrightarrow>
     passes (fresh_binding (T\<lparr>set_clock := 0\<rparr>) i) (\<lambda>(b, _).
       let msg = action_message b transfer_domain (as_bytes ''action'') 1000;
           rec = verified (set_scheme T) TEST_PK msg in
       verify_action b rec transfer_domain (as_bytes ''action'') 1000 1000)"

definition test_verify_action_accepts_large_expiry :: "bind_setup \<Rightarrow> address \<Rightarrow> bool" where
  "test_verify_action_accepts_large_expiry T i \<longleftrightarrow>
     passes (fresh_binding (T\<lparr>set_clock := 0\<rparr>) i) (\<lambda>(b, _).
       let big = 18446744073709551615;
           msg = action_message b transfer_domain (as_bytes ''action'') big;
           rec = verified (set_scheme T) TEST_PK msg in
       verify_action b rec transfer_domain (as_bytes ''action'') big 0)"

lemmas verify_test_simps = verify_action_def verified_def action_message_def bound_def Let_def

lemma verify_action_tests_accept:
  "test_verify_action_accepts_matching_receipt T i" "test_verify_action_accepts_at_expiry_boundary T i"
  "test_verify_action_accepts_large_expiry T i"
  by (simp_all add: test_verify_action_accepts_matching_receipt_def test_verify_action_accepts_at_expiry_boundary_def
      test_verify_action_accepts_large_expiry_def verify_test_simps)

lemma verify_action_tests_reject:
  "test_verify_action_rejects_wrong_key_action_and_expiry T i" "test_verify_action_rejects_wrong_key_only T i"
  "test_verify_action_rejects_wrong_domain_only T i" "test_verify_action_rejects_wrong_action_only T i"
  "test_verify_action_rejects_wrong_expiry_in_message_only T i" "test_verify_action_rejects_expired_clock_only T i"
  by (simp_all add: test_verify_action_rejects_wrong_key_action_and_expiry_def
      test_verify_action_rejects_wrong_key_only_def test_verify_action_rejects_wrong_domain_only_def
      test_verify_action_rejects_wrong_action_only_def test_verify_action_rejects_wrong_expiry_in_message_only_def
      test_verify_action_rejects_expired_clock_only_def verify_test_simps messages_differ TEST_PK_def as_bytes_def)

section \<open>Placement and destruction\<close>

text \<open>
  The calls of \<open>test_scenario\<close>: \<open>take_from_address\<close> takes an object of its owner into a transaction,
  and a transaction reports its own events.
\<close>

definition has_for_address :: "ledger \<Rightarrow> address \<Rightarrow> address \<Rightarrow> bool" where
  "has_for_address L i a \<longleftrightarrow> (case owned L i of Some (owner, b) \<Rightarrow> owner = a | None \<Rightarrow> False)"

definition take_from_address :: "address \<Rightarrow> address \<Rightarrow> ledger \<Rightarrow> (device_binding \<times> ledger) option" where
  "take_from_address a i L =
     (case owned L i of
        Some (owner, b) \<Rightarrow>
          if owner = a then Some (b, L\<lparr>tx_sender := a, receipts := [], owned := (owned L)(i := None), hand := b # hand L\<rparr>) else None
      | None \<Rightarrow> None)"

lemma take_from_address_run:
  assumes "take_from_address a i L = Some (b, L')" "hand L = []"
  shows "ledger_run C L [BeginTx a, TakeOwned i] L'"
proof -
  from assms have own: "owned L i = Some (a, b)" and L': "L' = L\<lparr>tx_sender := a, receipts := [], owned := (owned L)(i := None), hand := [b]\<rparr>"
    by (auto simp: take_from_address_def split: option.splits if_splits)
  have "ledger_run C L ([] @ [BeginTx a]) (L\<lparr>tx_sender := a, receipts := []\<rparr>)"
    by (rule ledger_snoc [OF ledger_nil begin_tx [OF assms(2)]])
  moreover have "ledger_step C (L\<lparr>tx_sender := a, receipts := []\<rparr>) (TakeOwned i) L'"
    using take_owned [of "L\<lparr>tx_sender := a, receipts := []\<rparr>" i b C] assms(2) by (simp add: own L')
  ultimately show ?thesis using ledger_snoc by fastforce
qed

definition test_transfer_to_lands_at_recipient :: "bind_setup \<Rightarrow> address \<Rightarrow> bool" where
  "test_transfer_to_lands_at_recipient T i \<longleftrightarrow>
     passes (minted_ledger T i) (\<lambda>(b, L).
       let L = transfer_to b 0xCAFE L in
       has_for_address L i 0xCAFE
       \<and> (case take_from_address 0xCAFE i L of
            Some (taken, _) \<Rightarrow> binding_id taken = binding_id b \<and> binding_pk taken = TEST_PK
          | None \<Rightarrow> False))"

definition test_transfer_to_not_at_other_address :: "bind_setup \<Rightarrow> address \<Rightarrow> bool" where
  "test_transfer_to_not_at_other_address T i \<longleftrightarrow>
     passes (minted_ledger T i) (\<lambda>(b, L).
       let L = transfer_to b 0xCAFE L in
       \<not> has_for_address L i 0xBEEF \<and> has_for_address L i 0xCAFE)"

definition events_since :: "ledger \<Rightarrow> ledger \<Rightarrow> binding_event list" where
  "events_since L L' = drop (length (emitted L)) (emitted L')"

definition test_destroy_emits_event :: "bind_setup \<Rightarrow> address \<Rightarrow> bool" where
  "test_destroy_emits_event T i \<longleftrightarrow>
     passes (minted_ledger T i) (\<lambda>(b, L).
       events_since L (destroy b L) = [DeviceBindingDestroyedEvent (binding_id b)])"

definition test_destroy_removes_object_from_recipient :: "bind_setup \<Rightarrow> address \<Rightarrow> bool" where
  "test_destroy_removes_object_from_recipient T i \<longleftrightarrow>
     passes (minted_ledger T i) (\<lambda>(b, L).
       let L = transfer_to b 0xCAFE L in
       (case take_from_address 0xCAFE i L of
          Some (taken, L') \<Rightarrow>
            length (events_since L (destroy taken L')) = 1 \<and> \<not> has_for_address (destroy taken L') i 0xCAFE
        | None \<Rightarrow> False))"

lemma placement_tests_pass:
  "test_transfer_to_lands_at_recipient T i" "test_transfer_to_not_at_other_address T i"
  "test_destroy_emits_event T i" "test_destroy_removes_object_from_recipient T i"
  by (simp_all add: test_transfer_to_lands_at_recipient_def test_transfer_to_not_at_other_address_def
      test_destroy_emits_event_def test_destroy_removes_object_from_recipient_def minted_ledger_def passes_def
      fresh_binding_Ok bound_def enrol_def genesis_def transfer_to_def has_for_address_def take_from_address_def
      destroy_def destroy_event_def events_since_def)

end
