(* ===== verification/Spec2Isabelle.thy ===== *)
theory Spec2Isabelle
  imports End_To_End Binding_End_To_End Enclave_Process Host_Proxy Android_Encoding Client_Phone
    Core_Tests Apple_Tests Android_Tests Server_Tests Fixture_Tests Binding_Tests
begin

text \<open>
  Verification development of the attestation verifiers.

  The program. A device proves that a key lives in its secure hardware: on iOS with an App
  Attest object, on Android with a chain of certificates whose leaf describes the key. The
  crates \<open>attest-apple\<close> and \<open>attest-android\<close> check such a proof and return an \<open>Outcome\<close>
  (\<open>attestation-core\<close>). The server \<open>enclave-server\<close> runs them inside an AWS Nitro enclave: a
  handler decodes a request, calls a verifier, hashes the BCS encoding of the outcome's fields
  and asks the security module for a document over that hash. The Move packages \<open>attest_apple\<close>
  and \<open>attest_android\<close> redeem the document on chain for a typed witness, and \<open>device_binding\<close>
  turns a witness into a credential whose actions the device signs. A proxy on the host forwards
  TCP connections into the enclave. An iOS demo asks the phone for attestations and assertions,
  takes the attested key out of the object with its own CBOR reader, and writes what it got to
  fixture files.

  Theories and sources (below \<open>src/rust\<close> unless noted).

    \<^item> \<open>Prelude\<close>: Rust's results with panics as values, \<open>?\<close>, slices and arrays that panic out of
      range, big-endian numbers, and the shared lemma collections \<open>result_simps\<close>, \<open>slice_simps\<close>.
      \<open>Framing\<close>: the interfaces \<open>framing\<close> (prefix-free encodings) and \<open>decodable\<close> (an encoding
      with a reader), interpreted by the TLV elements, the length-prefixed certificates and the
      BCS byte vectors.
    \<^item> \<open>Crates\<close>: the third-party crates as one record of functions, an argument of every model.
      \<open>Sample\<close>: a concrete instance that the witnesses evaluate.
    \<^item> \<open>Attestation_Core\<close> and \<open>Outcome_Bcs\<close>: \<open>attestation-core/src/lib.rs\<close>, the outcome and its
      serialization; the interpretation \<open>outcome_field\<close> makes each field self-delimiting.
    \<^item> \<open>Apple_Errors\<close>, \<open>Apple_AuthData\<close>, \<open>Apple_Cbor\<close>, \<open>Apple_Roots\<close>, \<open>Apple_Verify\<close>: the files
      \<open>errors.rs\<close>, \<open>authdata.rs\<close>, \<open>cbor.rs\<close> with \<open>cose.rs\<close> and \<open>decode_assertion\<close>, \<open>roots.rs\<close>
      with \<open>oids.rs\<close>, and \<open>lib.rs\<close> with \<open>assertion.rs\<close> of \<open>attest-apple\<close>.
    \<^item> \<open>X509\<close>: the certificate checks that both \<open>roots.rs\<close> files carry, written once over the
      error constructors, and the interface \<open>chain_validator\<close>, interpreted by both crates.
    \<^item> \<open>Android_Errors\<close>, \<open>Android_Tlv\<close>, \<open>Android_KeyDescription\<close>, \<open>Android_StatusList\<close>,
      \<open>Android_Roots\<close>, \<open>Android_Verify\<close>: the files \<open>errors.rs\<close>, \<open>key_description.rs\<close> (the TLV
      header parser apart), \<open>status_list.rs\<close>, \<open>roots.rs\<close> and \<open>lib.rs\<close> of \<open>attest-android\<close>.
    \<^item> \<open>Enclave_Server\<close>, \<open>Enclave_Http\<close> and \<open>Enclave_Process\<close>: \<open>enclave-server/src/main.rs\<close>, the
      handlers with their errors and routes, the HTTP requests and answers around them, and the
      process.
    \<^item> \<open>Bcs\<close> and \<open>Onchain\<close>: the BCS format of a struct of byte vectors, and the \<open>verify\<close>
      functions of \<open>src/move/attest_apple\<close> and \<open>src/move/attest_android\<close>, with the witness and
      the policy of \<open>src/move/attestation\<close>.
    \<^item> \<open>Device_Binding\<close> and \<open>Binding_Ledger\<close>: \<open>src/move/device_binding\<close> and its three schemes.
      The schemes share the interface \<open>signature_scheme\<close>, interpreted by each of them. The
      ledger is the step relation of the transactions that call the module, those of other
      packages with their own sources and schemes included; its invariant says where every
      credential and every receipt comes from. \<open>Binding_End_To_End\<close> joins it with the enclave.
    \<^item> \<open>Host_Proxy\<close>: \<open>src/enclave/proxy/main.go\<close>, one forwarded connection as a step relation:
      it ends, leaks nothing and never blocks on its channel.
    \<^item> \<open>Android_Encoding\<close> and \<open>End_To_End\<close>: the DER writers that the Android decoders invert, and
      the enclave and the chain together.
    \<^item> \<open>Apple_Device\<close>: the encoders of the test modules of \<open>attest-apple\<close> as an honest device, for
      the statements that what it sends is accepted.
    \<^item> \<open>Cbor_Encoding\<close>, \<open>Client_Cbor\<close>, \<open>Client_Demo\<close>, \<open>Client_Phone\<close>: the iOS demo in
      \<open>src/ios-demo/AttestKitDemo\<close>. The first has the CBOR encodings of RFC 8949 as a relation,
      with a writer in it; the second is \<open>AppAttestCBOR.swift\<close>; the third is
      \<open>AttestService.swift\<close> and the view model of \<open>ContentView.swift\<close>, a step relation over
      tasks that wait for the platform, whose contract is the interface \<open>app_attest_service\<close>; the
      last interprets it with an honest phone and joins the client with the verifiers.
    \<^item> \<open>Binding_Tests\<close>, \<open>Core_Tests\<close>, \<open>Apple_Tests\<close>, \<open>Android_Tests\<close>, \<open>Server_Tests\<close>: the unit tests inside the
      source files, each as the Boolean of its assertions and proved true. They check the
      model against the values the authors wrote down. \<open>Fixture_Tests\<close> has those that read files
      or depend on signatures, with the facts about files and crates that make them pass.

  State and data. A struct is a record, an enum a datatype, a fixed-width integer a word; a
  \<open>String\<close> is its bytes; \<open>usize\<close> is 64 bits, and positions and lengths of slices in memory are
  natural numbers, which the code only compares, adds and subtracts within a slice. A Rust
  \<open>Result\<close> is \<open>Ok\<close> or \<open>Err\<close>, and \<open>Panic\<close> is the third value of a computation: an index or a
  slice out of range, a failed \<open>expect\<close>, an unrepresentable time. Handlers are functions of the
  environment, the server's state and the request. The bridge, a forwarded connection, the ledger
  and the demo are step relations.

  What the lemmas show. Each operation has a lemma \<open>_Ok_iff\<close>, which says exactly when it
  succeeds and with what, and \<open>_not_Panic\<close>; loops are first related to a declarative reading of
  their input (the last entry of a CBOR key, the elements of a TLV sequence, the neighbours of a
  chain, the entries of a status list). The properties are, in order of weight: soundness and
  completeness of the three verifiers and both chain validators; what a redeemed document says
  about the attestation behind it, up to the keys of the credentials and their actions; round trips of the hand-written parsers with writers for their
  formats; exact acceptance of the handlers, the status codes and what an error names; binding of
  hashes; the client, whose key and whose fixtures are those the verifiers accept; termination;
  revocation, boot state and policy; integer bounds; the end of a
  forwarded connection.

  Termination and bounds. Every loop over bytes is a total function by the distance to the end
  of the input, also where the client skips nested CBOR values, whose recursion is mutual with
  the loop over the members; no fuel is used. The two loops of \<open>attestation_application_id\<close> depend on the
  reader of the \<open>der\<close> crate and are a \<open>partial_function\<close> whose value is \<open>None\<close> when it does not
  end; that they end is proved from the fact that reading consumes input (\<open>der_progress\<close>).
  Hypotheses on crates state their documentation: \<open>crate_times_ok\<close> (certificate dates end with
  the year 9999), \<open>sha256_ok\<close> (32 bytes), \<open>reader_ok\<close> (DER reading below 2^28 bytes),
  \<open>environment_ok\<close> (hexadecimal round trip, the BCS format, and a document that carries the key
  and the user data it was asked for), \<open>codec_ok\<close> (the BCS specification for an outcome's fields),
  \<open>http_ok\<close> (how \<open>axum\<close> routes, and which bodies its JSON extractor takes or rejects).
  Collision resistance is never assumed: statements that rest on a hash name the collision as the
  alternative.

  Findings. \<open>odd_serial_never_revoked\<close>: a serial number with an odd number of digits is never
  found on a revocation list. \<open>android_ignores_ca_flag\<close>: the CA check has no effect.
  \<open>tag_number_wraps\<close>: large tag numbers alias the known ones. \<open>lock_requirement_skipped\<close>: the
  policy's lock and boot keys do not count for a device without a root of trust. \<open>policy_not_attested\<close>
  and \<open>sources_not_separated\<close>: neither the policy nor the source of an attestation is bound
  into the document. \<open>binding_can_be_moved\<close>: a credential is not soulbound. \<open>p256_key_forms\<close>: the
  P-256 scheme misreads the keys of Android attestations. \<open>document_enrols_twice\<close> and
  \<open>receipt_crosses_bindings\<close>: one attestation mints several credentials, and a signed message
  does not fix where the domain ends. In the client, \<open>huge_length_traps\<close> and
  \<open>truncated_object_taken\<close>: two lengths are used unchecked, and \<open>unlisted_fixture_lost\<close>: a directory
  that cannot be listed costs a fixture. \<open>large_cid_dials_zero\<close> and \<open>half_close_cuts_answer\<close>: the
  proxy cuts its flags to 32 bits, and an answer when the client has closed its sending side.

  Not modelled. Positions inside \<open>der\<close> errors and the texts the crates print; log lines; JSON as
  text (requests and answers carry JSON values and structs); the leak of the NSM descriptor; the
  tests of the Move witness and of the signature schemes, which ask Sui's natives for a verdict,
  except their key vectors; the views of the iOS demo; deployment data and build files. Concurrency between requests has no
  counterpart because the handlers share immutable state only.
\<close>

end
